(* ===== verification/Cinc_Prelude.thy ===== *)
theory Cinc_Prelude
  imports Main "HOL-Library.AList" "HOL-Library.List_Lexorder" "HOL-Library.Char_ord"
begin

text \<open>Shared vocabulary of the development.

  \<^item> The Go string operations the sources use, on byte strings (\<^typ>\<open>string\<close> is a list of
    8 bit characters). Case folding is the ASCII one; every other operation is byte exact.
  \<^item> Reading a Go map with its zero value (\<open>getd\<close>) over association lists.
  \<^item> Fallible, state-threading computations: \<open>'s \<Rightarrow> ('e + 'a) \<times> 's\<close> with \<open>bindE\<close> for the
    \<^verbatim>\<open>if err != nil { return err }\<close> idiom, \<open>tryE\<close> for handlers that answer instead, loops
    \<open>forE\<close>/\<open>foldE\<close>, and the weakest-precondition calculus (\<open>wpE\<close>, \<open>wpH\<close>) in which the
    component theories reason about them.\<close>

named_theorems wp \<open>weakest precondition equations of the combinators\<close>
named_theorems store_simps \<open>how store operations act on the lookups\<close>
named_theorems gomap \<open>lookups after updates of association lists\<close>

section \<open>Go strings\<close>

definition hasPrefix :: "string \<Rightarrow> string \<Rightarrow> bool" where
  "hasPrefix s p = (take (length p) s = p)"

definition cutPrefix :: "string \<Rightarrow> string \<Rightarrow> string option" where
  "cutPrefix s p = (if hasPrefix s p then Some (drop (length p) s) else None)"

definition hasSuffix :: "string \<Rightarrow> string \<Rightarrow> bool" where
  "hasSuffix s p = (length p \<le> length s \<and> drop (length s - length p) s = p)"

text \<open>\<^verbatim>\<open>strings.Cut(s, sep)\<close>: the text around the first occurrence of \<^term>\<open>sep\<close>.\<close>

fun cutAt :: "string \<Rightarrow> string \<Rightarrow> (string \<times> string) option" where
  "cutAt sep s =
     (if hasPrefix s sep then Some ([], drop (length sep) s)
      else (case s of [] \<Rightarrow> None
            | c # cs \<Rightarrow> (case cutAt sep cs of None \<Rightarrow> None | Some (a, b) \<Rightarrow> Some (c # a, b))))"

declare cutAt.simps [simp del]

text \<open>\<^verbatim>\<open>strings.Split(s, c)\<close> for a one-byte separator; never the empty list.\<close>

fun splitOn :: "char \<Rightarrow> string \<Rightarrow> string list" where
  "splitOn c [] = [[]]"
| "splitOn c (x # xs) =
     (if x = c then [] # splitOn c xs
      else (case splitOn c xs of [] \<Rightarrow> [[x]] | w # ws \<Rightarrow> (x # w) # ws))"

fun joinWith :: "string \<Rightarrow> string list \<Rightarrow> string" where
  "joinWith sep [] = []"
| "joinWith sep [w] = w"
| "joinWith sep (w # v # ws) = w @ sep @ joinWith sep (v # ws)"

definition lowerChar :: "char \<Rightarrow> char" where
  "lowerChar c = (if CHR ''A'' \<le> c \<and> c \<le> CHR ''Z'' then char_of (of_char c + (32 :: nat)) else c)"

definition toLower :: "string \<Rightarrow> string" where
  "toLower s = map lowerChar s"

definition isSpaceChar :: "char \<Rightarrow> bool" where
  "isSpaceChar c = (c \<in> set [CHR '' '', CHR 0x09, CHR 0x0A, CHR 0x0B, CHR 0x0C, CHR 0x0D])"

definition trimSpace :: "string \<Rightarrow> string" where
  "trimSpace s = rev (dropWhile isSpaceChar (rev (dropWhile isSpaceChar s)))"

definition isDigit :: "char \<Rightarrow> bool" where
  "isDigit c = (CHR ''0'' \<le> c \<and> c \<le> CHR ''9'')"

abbreviation isLowercase :: "char \<Rightarrow> bool" where
  "isLowercase c \<equiv> CHR ''a'' \<le> c \<and> c \<le> CHR ''z''"

abbreviation isUppercase :: "char \<Rightarrow> bool" where
  "isUppercase c \<equiv> CHR ''A'' \<le> c \<and> c \<le> CHR ''Z''"

definition containsChar :: "char \<Rightarrow> string \<Rightarrow> bool" where
  "containsChar c s = (c \<in> set s)"

lemma splitOn_nonempty [simp]: "splitOn c s \<noteq> []"
  by (induction s) (auto split: list.split)

lemma joinWith_splitOn [simp]: "joinWith [c] (splitOn c s) = s"
proof (induction s)
  case (Cons x xs)
  then show ?case
    by (cases "splitOn c xs"; cases "tl (splitOn c xs)") (auto split: list.split)
qed simp

lemma splitOn_no_sep: "w \<in> set (splitOn c s) \<Longrightarrow> c \<notin> set w"
  by (induction s arbitrary: w) (auto split: list.splits if_splits)

lemma splitOn_id: "c \<notin> set s \<Longrightarrow> splitOn c s = [s]"
  by (induction s) auto

lemma splitOn_append: "c \<notin> set a \<Longrightarrow> splitOn c (a @ c # b) = a # splitOn c b"
  by (induction a) auto

lemma splitOn_joinWith:
  "ws \<noteq> [] \<Longrightarrow> (\<And>w. w \<in> set ws \<Longrightarrow> c \<notin> set w) \<Longrightarrow> splitOn c (joinWith [c] ws) = ws"
  by (induction "[c]" ws rule: joinWith.induct) (auto simp: splitOn_id splitOn_append)

lemma hasPrefix_append [simp]: "hasPrefix (p @ s) p"
  by (simp add: hasPrefix_def)

lemma hasPrefix_iff: "hasPrefix s p \<longleftrightarrow> (\<exists>t. s = p @ t)"
  by (metis append_take_drop_id hasPrefix_append hasPrefix_def)

lemma cutPrefix_append [simp]: "cutPrefix (p @ s) p = Some s"
  by (simp add: cutPrefix_def)

lemma cutPrefix_Some: "cutPrefix s p = Some t \<longleftrightarrow> s = p @ t"
  by (auto simp: cutPrefix_def hasPrefix_iff)

lemma cutAt_Some:
  "cutAt sep s = Some (a, b) \<Longrightarrow> s = a @ sep @ b"
proof (induction s arbitrary: a)
  case Nil
  then show ?case by (subst (asm) cutAt.simps) (auto simp: hasPrefix_iff split: if_splits)
next
  case (Cons c cs)
  then show ?case
    by (subst (asm) cutAt.simps)
      (auto simp: hasPrefix_iff split: if_splits option.splits)
qed

lemma cutAt_char: "c \<notin> set a \<Longrightarrow> cutAt [c] (a @ c # b) = Some (a, b)"
proof (induction a)
  case Nil
  show ?case by (subst cutAt.simps) (simp add: hasPrefix_def)
next
  case (Cons x a)
  then show ?case by (subst cutAt.simps) (auto simp: hasPrefix_def)
qed

lemma lowerChar_idem [simp]: "lowerChar (lowerChar c) = lowerChar c"
proof -
  have "\<not> (CHR ''A'' \<le> char_of (n + (32 :: nat)) \<and> char_of (n + (32 :: nat)) \<le> CHR ''Z'')"
    if "of_char CHR ''A'' \<le> n" "n \<le> of_char CHR ''Z''" for n :: nat
    using that by (simp add: less_eq_char_def of_char_of)
  then show ?thesis
    by (auto simp: lowerChar_def less_eq_char_def)
qed

lemma toLower_idem [simp]: "toLower (toLower s) = toLower s"
  by (simp add: toLower_def)

lemma toLower_append [simp]: "toLower (s @ t) = toLower s @ toLower t"
  by (simp add: toLower_def)

lemma toLower_Nil [simp]: "toLower [] = []" "(toLower s = []) = (s = [])"
  by (simp_all add: toLower_def)

lemma no_spaces_trim:
  assumes "list_all (\<lambda>c. \<not> isSpaceChar c) s"
  shows "trimSpace s = s" and "trimSpace (CHR '' '' # s) = s"
proof -
  have *: "dropWhile isSpaceChar t = t" if "list_all (\<lambda>c. \<not> isSpaceChar c) t" for t
    using that by (cases t) auto
  show "trimSpace s = s" using assms *[of s] *[of "rev s"] by (simp add: trimSpace_def list_all_iff)
  show "trimSpace (CHR '' '' # s) = s"
    using assms *[of s] *[of "rev s"] by (simp add: trimSpace_def list_all_iff isSpaceChar_def)
qed

section \<open>Go maps with a zero value\<close>

definition getd :: "'b \<Rightarrow> ('a \<times> 'b) list \<Rightarrow> 'a \<Rightarrow> 'b" where
  "getd d m k = (case map_of m k of None \<Rightarrow> d | Some v \<Rightarrow> v)"

lemma getd_Nil [gomap, simp]: "getd d [] k = d"
  by (simp add: getd_def)

lemma getd_update [gomap, simp]:
  "getd d (AList.update k v m) k' = (if k' = k then v else getd d m k')"
  by (simp add: getd_def update_conv')

lemma getd_delete [gomap, simp]:
  "getd d (AList.delete k m) k' = (if k' = k then d else getd d m k')"
  by (simp add: getd_def delete_conv')

lemma map_of_update [gomap]:
  "map_of (AList.update k v m) k' = (if k' = k then Some v else map_of m k')"
  by (simp add: update_conv')

lemma map_of_delete_if [gomap]:
  "map_of (AList.delete k m) k' = (if k' = k then None else map_of m k')"
  by (simp add: delete_conv')

lemma distinct_keys_update [simp]:
  "distinct (map fst m) \<Longrightarrow> distinct (map fst (AList.update k v m))"
  by (rule distinct_update)

lemma distinct_keys_delete [simp]:
  "distinct (map fst m) \<Longrightarrow> distinct (map fst (AList.delete k m))"
  by (rule distinct_delete)

lemma set_filter_keys:
  "set (map fst m) = {k. map_of m k \<noteq> None}"
  by (auto simp: map_of_eq_None_iff)

lemma update_range:
  "(k', v') \<in> set (AList.update k v m) \<Longrightarrow> (k', v') = (k, v) \<or> (k', v') \<in> set m"
  by (induction m) (auto split: if_splits)

lemma delete_subset: "set (AList.delete k m) \<subseteq> set m"
  by (auto simp: AList.delete_eq)

section \<open>Computations that thread a state and may fail\<close>

type_synonym ('s, 'e, 'a) act = "'s \<Rightarrow> ('e + 'a) \<times> 's"

definition ret :: "'a \<Rightarrow> ('s, 'e, 'a) act" where
  "ret x s = (Inr x, s)"

definition failE :: "'e \<Rightarrow> ('s, 'e, 'a) act" where
  "failE e s = (Inl e, s)"

text \<open>\<open>tryE m h k\<close> runs \<open>m\<close>, then \<open>h\<close> on its error or \<open>k\<close> on its value.\<close>

definition tryE :: "('s, 'e, 'a) act \<Rightarrow> ('e \<Rightarrow> 's \<Rightarrow> 'r) \<Rightarrow> ('a \<Rightarrow> 's \<Rightarrow> 'r) \<Rightarrow> 's \<Rightarrow> 'r" where
  "tryE m h k s = (case m s of (r, s') \<Rightarrow> (case r of Inl e \<Rightarrow> h e s' | Inr x \<Rightarrow> k x s'))"

definition bindE :: "('s, 'e, 'a) act \<Rightarrow> ('a \<Rightarrow> ('s, 'e, 'b) act) \<Rightarrow> ('s, 'e, 'b) act" where
  "bindE m k = tryE m failE k"

primrec forE :: "'x list \<Rightarrow> ('x \<Rightarrow> ('s, 'e, unit) act) \<Rightarrow> ('s, 'e, unit) act" where
  "forE [] f = ret ()"
| "forE (x # xs) f = bindE (f x) (\<lambda>_. forE xs f)"

primrec foldE :: "'x list \<Rightarrow> ('x \<Rightarrow> 'b \<Rightarrow> ('s, 'e, 'b) act) \<Rightarrow> 'b \<Rightarrow> ('s, 'e, 'b) act" where
  "foldE [] f acc = ret acc"
| "foldE (x # xs) f acc = bindE (f x acc) (\<lambda>acc'. foldE xs f acc')"

definition whenE :: "bool \<Rightarrow> ('s, 'e, unit) act \<Rightarrow> ('s, 'e, unit) act" where
  "whenE b m = (if b then m else ret ())"

text \<open>\<open>wpE m Q E s\<close>: run from \<open>s\<close>, \<open>m\<close> ends in \<open>Q\<close> with a value or in \<open>E\<close> with an error.
  \<open>wpH h Q s\<close> is the same for a handler, which always answers.\<close>

definition wpE :: "('s, 'e, 'a) act \<Rightarrow> ('a \<Rightarrow> 's \<Rightarrow> bool) \<Rightarrow> ('e \<Rightarrow> 's \<Rightarrow> bool) \<Rightarrow> 's \<Rightarrow> bool" where
  "wpE m Q E s = (case m s of (r, s') \<Rightarrow> (case r of Inl e \<Rightarrow> E e s' | Inr x \<Rightarrow> Q x s'))"

definition wpH :: "('s \<Rightarrow> 'r \<times> 's) \<Rightarrow> ('r \<Rightarrow> 's \<Rightarrow> bool) \<Rightarrow> 's \<Rightarrow> bool" where
  "wpH h Q s = (case h s of (r, s') \<Rightarrow> Q r s')"

lemma wpE_ret [wp]: "wpE (ret x) Q E = Q x"
  by (rule ext) (simp add: wpE_def ret_def)

lemma wpE_failE [wp]: "wpE (failE e) Q E = E e"
  by (rule ext) (simp add: wpE_def failE_def)

lemma wpE_tryE [wp]:
  "wpE (tryE m h k) Q E s = wpE m (\<lambda>x. wpE (k x) Q E) (\<lambda>e. wpE (h e) Q E) s"
  by (simp add: wpE_def tryE_def split: prod.splits sum.splits)

lemma wpE_bindE [wp]: "wpE (bindE m k) Q E s = wpE m (\<lambda>x. wpE (k x) Q E) E s"
  by (simp add: bindE_def wp)

lemma wpE_if [wp]:
  "wpE (if b then m else m') Q E s = (if b then wpE m Q E s else wpE m' Q E s)"
  by simp

lemma wpE_whenE [wp]: "wpE (whenE b m) Q E s = (if b then wpE m Q E s else Q () s)"
  by (simp add: whenE_def wp)

lemma wpE_case_option [wp]:
  "wpE (case_option m m' x) Q E s = (case x of None \<Rightarrow> wpE m Q E s | Some y \<Rightarrow> wpE (m' y) Q E s)"
  by (cases x) simp_all

lemma wpH_tryE [wp]:
  "wpH (tryE m h k) Q s = wpE m (\<lambda>x. wpH (k x) Q) (\<lambda>e. wpH (h e) Q) s"
  by (simp add: wpH_def wpE_def tryE_def split: prod.splits sum.splits)

lemma wpH_if [wp]: "wpH (if b then h else h') Q s = (if b then wpH h Q s else wpH h' Q s)"
  by simp

lemma wpH_case_option [wp]:
  "wpH (case_option h h' x) Q s = (case x of None \<Rightarrow> wpH h Q s | Some y \<Rightarrow> wpH (h' y) Q s)"
  by (cases x) simp_all

lemma wpH_case_prod [wp]: "wpH (case_prod h p) Q s = (case p of (a, b) \<Rightarrow> wpH (h a b) Q s)"
  by (cases p) simp

lemma wpE_case_prod [wp]: "wpE (case_prod m p) Q E s = (case p of (a, b) \<Rightarrow> wpE (m a b) Q E s)"
  by (cases p) simp

lemma wpH_pair [wp]: "wpH (\<lambda>s. (r, s)) Q s = Q r s"
  by (simp add: wpH_def)

lemma wpE_mono:
  assumes "wpE m Q E s"
    and "\<And>x s'. Q x s' \<Longrightarrow> Q' x s'" and "\<And>e s'. E e s' \<Longrightarrow> E' e s'"
  shows "wpE m Q' E' s"
  using assms by (auto simp: wpE_def split: prod.splits sum.splits)

lemma wpH_mono:
  assumes "wpH h Q s" and "\<And>x s'. Q x s' \<Longrightarrow> Q' x s'"
  shows "wpH h Q' s"
  using assms by (auto simp: wpH_def split: prod.splits)

lemma wpE_conj:
  "wpE m Q E s \<Longrightarrow> wpE m Q' E' s \<Longrightarrow> wpE m (\<lambda>x s'. Q x s' \<and> Q' x s') (\<lambda>e s'. E e s' \<and> E' e s') s"
  by (auto simp: wpE_def split: prod.splits sum.splits)

lemma wpH_result: "wpH h Q s \<Longrightarrow> h s = (r, s') \<Longrightarrow> Q r s'"
  by (simp add: wpH_def)

lemma wpE_result:
  "wpE m Q E s \<Longrightarrow> m s = (r, s') \<Longrightarrow> (case r of Inl e \<Rightarrow> E e s' | Inr x \<Rightarrow> Q x s')"
  by (simp add: wpE_def)

lemma wpH_intro: "(\<And>r s'. h s = (r, s') \<Longrightarrow> Q r s') \<Longrightarrow> wpH h Q s"
  by (simp add: wpH_def split: prod.split)

text \<open>The loop rule: an invariant indexed by the elements still to do.\<close>

lemma wpE_forE:
  assumes "I xs s"
    and "\<And>x rest s. I (x # rest) s \<Longrightarrow> wpE (f x) (\<lambda>_. I rest) E s"
    and "\<And>s. I [] s \<Longrightarrow> Q () s"
  shows "wpE (forE xs f) Q E s"
  using assms(1)
proof (induction xs arbitrary: s)
  case (Cons x xs)
  from assms(2)[OF Cons.prems] have "wpE (f x) (\<lambda>_. wpE (forE xs f) Q E) E s"
    by (rule wpE_mono) (auto intro: Cons.IH)
  then show ?case by (simp add: wp)
qed (simp add: wp assms(3))

lemma wpE_foldE:
  assumes "I xs acc s"
    and "\<And>x rest acc s. I (x # rest) acc s \<Longrightarrow> wpE (f x acc) (I rest) E s"
    and "\<And>acc s. I [] acc s \<Longrightarrow> Q acc s"
  shows "wpE (foldE xs f acc) Q E s"
  using assms(1)
proof (induction xs arbitrary: acc s)
  case (Cons x xs)
  from assms(2)[OF Cons.prems] have "wpE (f x acc) (\<lambda>acc'. wpE (foldE xs f acc') Q E) E s"
    by (rule wpE_mono) (auto intro: Cons.IH)
  then show ?case by (simp add: wp)
qed (simp add: wp assms(3))

end
