(* ===== verification/Store_Backend.thy ===== *)
theory Store_Backend
  imports Cinc_Prelude
begin

text \<open>The persistence layer: the in-memory backend of \<^verbatim>\<open>src/internal/store/memory.go\<close> and the
  \<^verbatim>\<open>Backend\<close> interface of \<^verbatim>\<open>backend.go\<close> as the locale \<open>backend_spec\<close>.

  A Go map is an association list; the three nested maps org, collection, key keep their nesting
  and the empty inner maps that deletions leave behind. Bodies are a type parameter: the backend
  stores opaque bytes. \<open>kv\<close> is the abstraction function, the map from (org, collection, key) to
  bodies that the interface speaks about; \<open>wf_backend\<close> is the representation invariant. The
  order in which \<^verbatim>\<open>Range\<close> visits a Go map is unspecified; the model visits in list order.\<close>

text \<open>\<open>ErrBackend\<close> stands for any failure of the storage, \<open>ErrDecode\<close> for any error of a JSON decoder.\<close>

datatype serr = ErrConflict | ErrNotFound | ErrBackend | ErrDecode

record 'v backend =
  orgs :: "string list"
  data :: "(string \<times> (string \<times> (string \<times> 'v) list) list) list"
  blobs :: "(string \<times> (string \<times> string) list) list"

definition NewMemoryBackend :: "'v backend" where
  "NewMemoryBackend = \<lparr>orgs = [], data = [], blobs = []\<rparr>"

definition coll_of :: "'v backend \<Rightarrow> string \<Rightarrow> string \<Rightarrow> (string \<times> 'v) list" where
  "coll_of m og c = getd [] (getd [] (data m) og) c"

definition kv :: "'v backend \<Rightarrow> string \<Rightarrow> string \<Rightarrow> string \<Rightarrow> 'v option" where
  "kv m og c k = map_of (coll_of m og c) k"

definition blobs_of :: "'v backend \<Rightarrow> string \<Rightarrow> (string \<times> string) list" where
  "blobs_of m og = getd [] (blobs m) og"

section \<open>Operations\<close>

definition mem_Get :: "string \<Rightarrow> string \<Rightarrow> string \<Rightarrow> ('v backend, serr, 'v option) act" where
  "mem_Get og c k m = (Inr (map_of (coll_of m og c) k), m)"

definition mem_set :: "string \<Rightarrow> string \<Rightarrow> string \<Rightarrow> 'v \<Rightarrow> 'v backend \<Rightarrow> 'v backend" where
  "mem_set og c k v m =
     (let colls = getd [] (data m) og;
          keys = getd [] colls c
      in m\<lparr>data := AList.update og (AList.update c (AList.update k v keys) colls) (data m)\<rparr>)"

definition mem_Put :: "string \<Rightarrow> string \<Rightarrow> string \<Rightarrow> 'v \<Rightarrow> ('v backend, serr, unit) act" where
  "mem_Put og c k v m = (Inr (), mem_set og c k v m)"

definition mem_Create :: "string \<Rightarrow> string \<Rightarrow> string \<Rightarrow> 'v \<Rightarrow> ('v backend, serr, unit) act" where
  "mem_Create og c k v m =
     (if map_of (coll_of m og c) k \<noteq> None then (Inl ErrConflict, m)
      else (Inr (), mem_set og c k v m))"

definition mem_unset :: "string \<Rightarrow> string \<Rightarrow> string \<Rightarrow> 'v backend \<Rightarrow> 'v backend" where
  "mem_unset og c k m =
     (let colls = getd [] (data m) og
      in m\<lparr>data := AList.update og (AList.update c (AList.delete k (getd [] colls c)) colls) (data m)\<rparr>)"

definition mem_Delete :: "string \<Rightarrow> string \<Rightarrow> string \<Rightarrow> ('v backend, serr, 'v option) act" where
  "mem_Delete og c k m =
     (case map_of (coll_of m og c) k of
        None \<Rightarrow> (Inr None, m)
      | Some v \<Rightarrow> (Inr (Some v), mem_unset og c k m))"

definition mem_Keys :: "string \<Rightarrow> string \<Rightarrow> ('v backend, serr, string list) act" where
  "mem_Keys og c m = (Inr (sort (map fst (coll_of m og c))), m)"

text \<open>\<^verbatim>\<open>Range\<close> hands the callback each entry; the model hands the caller the entries.\<close>

definition mem_Range :: "string \<Rightarrow> string \<Rightarrow> ('v backend, serr, (string \<times> 'v) list) act" where
  "mem_Range og c m = (Inr (coll_of m og c), m)"

definition mem_Collections :: "string \<Rightarrow> ('v backend, serr, string list) act" where
  "mem_Collections og m =
     (Inr (sort (map fst (filter (\<lambda>(c, keys). keys \<noteq> []) (getd [] (data m) og)))), m)"

definition mem_PutBlob :: "string \<Rightarrow> string \<Rightarrow> string \<Rightarrow> ('v backend, serr, unit) act" where
  "mem_PutBlob og cksum content m =
     (Inr (), m\<lparr>blobs := AList.update og (AList.update cksum content (getd [] (blobs m) og)) (blobs m)\<rparr>)"

definition mem_Blob :: "string \<Rightarrow> string \<Rightarrow> ('v backend, serr, string option) act" where
  "mem_Blob og cksum m = (Inr (map_of (blobs_of m og) cksum), m)"

definition mem_HasBlob :: "string \<Rightarrow> string \<Rightarrow> ('v backend, serr, bool) act" where
  "mem_HasBlob og cksum m = (Inr (map_of (blobs_of m og) cksum \<noteq> None), m)"

text \<open>Deleting from a nil Go map is a no-op, so an org without blobs gains no entry.\<close>

definition mem_DeleteBlob :: "string \<Rightarrow> string \<Rightarrow> ('v backend, serr, unit) act" where
  "mem_DeleteBlob og cksum m =
     (Inr (), case map_of (blobs m) og of
                None \<Rightarrow> m
              | Some bs \<Rightarrow> m\<lparr>blobs := AList.update og (AList.delete cksum bs) (blobs m)\<rparr>)"

definition mem_CreateOrg :: "string \<Rightarrow> ('v backend, serr, unit) act" where
  "mem_CreateOrg name m =
     (if name \<in> set (orgs m) then (Inl ErrConflict, m)
      else (Inr (), m\<lparr>orgs := name # orgs m\<rparr>))"

definition mem_DeleteOrg :: "string \<Rightarrow> ('v backend, serr, bool) act" where
  "mem_DeleteOrg name m =
     (if name \<notin> set (orgs m) then (Inr False, m)
      else (Inr True, m\<lparr>orgs := removeAll name (orgs m),
                        data := AList.delete name (data m),
                        blobs := AList.delete name (blobs m)\<rparr>))"

definition mem_ListOrgs :: "('v backend, serr, string list) act" where
  "mem_ListOrgs m = (Inr (sort (orgs m)), m)"

definition mem_HasOrg :: "string \<Rightarrow> ('v backend, serr, bool) act" where
  "mem_HasOrg name m = (Inr (name \<in> set (orgs m)), m)"

text \<open>\<^verbatim>\<open>Tx\<close>: the snapshot taken first is restored when the body fails.\<close>

definition mem_Tx :: "('v backend, 'e, 'a) act \<Rightarrow> ('v backend, 'e, 'a) act" where
  "mem_Tx fn m = (case fn m of (Inl e, _) \<Rightarrow> (Inl e, m) | (Inr x, m') \<Rightarrow> (Inr x, m'))"

section \<open>The representation invariant\<close>

definition wf_backend :: "'v backend \<Rightarrow> bool" where
  "wf_backend m =
     (distinct (orgs m) \<and> distinct (map fst (data m)) \<and> distinct (map fst (blobs m)) \<and>
      (\<forall>(og, colls) \<in> set (data m). distinct (map fst colls) \<and>
         (\<forall>(c, keys) \<in> set colls. distinct (map fst keys))) \<and>
      (\<forall>(og, bs) \<in> set (blobs m). distinct (map fst bs)))"

lemma wf_NewMemoryBackend: "wf_backend NewMemoryBackend"
  by (simp add: wf_backend_def NewMemoryBackend_def)

lemma getd_Nil_cases: "getd [] m k = [] \<or> (k, getd [] m k) \<in> set m"
  by (auto simp: getd_def dest: map_of_SomeD split: option.splits)

lemma wf_backend_orgs: "wf_backend m \<Longrightarrow> distinct os \<Longrightarrow> wf_backend (m\<lparr>orgs := os\<rparr>)"
  unfolding wf_backend_def by (elim conjE, intro conjI) simp_all

lemma wf_backend_colls:
  assumes "wf_backend m"
  shows "distinct (map fst (getd [] (data m) og))"
    and "distinct (map fst (getd [] (getd [] (data m) og) c))"
proof -
  show d: "distinct (map fst (getd [] (data m) og))"
    using getd_Nil_cases[of "data m" og] assms by (auto simp: wf_backend_def)
  show "distinct (map fst (getd [] (getd [] (data m) og) c))"
    using getd_Nil_cases[of "getd [] (data m) og" c] getd_Nil_cases[of "data m" og] assms
    by (fastforce simp: wf_backend_def)
qed

lemma distinct_coll_of: "wf_backend m \<Longrightarrow> distinct (map fst (coll_of m og c))"
  by (simp add: coll_of_def wf_backend_colls)

lemma wf_backend_update_data:
  assumes wf: "wf_backend m" and keys: "distinct (map fst keys)"
  shows "wf_backend (m\<lparr>data := AList.update og (AList.update c keys (getd [] (data m) og)) (data m)\<rparr>)"
proof -
  let ?ok = "\<lambda>colls. distinct (map fst colls) \<and> (\<forall>(c, keys) \<in> set colls. distinct (map fst keys))"
  have "?ok (getd [] (data m) og)"
    using getd_Nil_cases[of "data m" og] wf by (auto simp: wf_backend_def)
  then have "?ok (AList.update c keys (getd [] (data m) og))"
    using keys by (auto dest!: update_range)
  moreover have "\<forall>(og, colls) \<in> set (data m). ?ok colls"
    using wf by (simp add: wf_backend_def)
  ultimately have "\<forall>(og, colls) \<in> set (AList.update og (AList.update c keys (getd [] (data m) og)) (data m)). ?ok colls"
    using update_range[of _ _ og "AList.update c keys (getd [] (data m) og)" "data m"] by fast
  with wf show ?thesis by (simp add: wf_backend_def)
qed

lemma wf_mem_set [simp]: "wf_backend m \<Longrightarrow> wf_backend (mem_set og c k v m)"
  unfolding mem_set_def Let_def by (rule wf_backend_update_data) (simp_all add: wf_backend_colls)

lemma wf_mem_unset [simp]: "wf_backend m \<Longrightarrow> wf_backend (mem_unset og c k m)"
  unfolding mem_unset_def Let_def by (rule wf_backend_update_data) (simp_all add: wf_backend_colls)

lemma kv_mem_set [store_simps]:
  "kv (mem_set og c k v m) og' c' k' = (if og' = og \<and> c' = c \<and> k' = k then Some v else kv m og' c' k')"
  by (simp add: kv_def coll_of_def mem_set_def Let_def map_of_update)

lemma kv_mem_unset [store_simps]:
  "kv (mem_unset og c k m) og' c' k' = (if og' = og \<and> c' = c \<and> k' = k then None else kv m og' c' k')"
  by (simp add: kv_def coll_of_def mem_unset_def Let_def map_of_delete_if)

lemma kv_NewMemoryBackend [store_simps]: "kv NewMemoryBackend og c k = None"
  by (simp add: kv_def coll_of_def NewMemoryBackend_def)

lemma mem_set_frame [store_simps]:
  "orgs (mem_set og c k v m) = orgs m" "blobs (mem_set og c k v m) = blobs m"
  "orgs (mem_unset og c k m) = orgs m" "blobs (mem_unset og c k m) = blobs m"
  by (simp_all add: mem_set_def mem_unset_def Let_def)

lemma set_keys_kv: "fst ` set (coll_of m og c) = {k. kv m og c k \<noteq> None}"
  using set_filter_keys[of "coll_of m og c"] by (simp add: kv_def)

lemma coll_of_kv:
  "wf_backend m \<Longrightarrow> (k, v) \<in> set (coll_of m og c) \<longleftrightarrow> kv m og c k = Some v"
  by (simp add: kv_def distinct_coll_of)

section \<open>The interface\<close>

locale backend_spec =
  fixes lookup :: "'b \<Rightarrow> string \<Rightarrow> string \<Rightarrow> string \<Rightarrow> 'v option"
    and inv :: "'b \<Rightarrow> bool"
    and Get :: "string \<Rightarrow> string \<Rightarrow> string \<Rightarrow> ('b, serr, 'v option) act"
    and Put :: "string \<Rightarrow> string \<Rightarrow> string \<Rightarrow> 'v \<Rightarrow> ('b, serr, unit) act"
    and Create :: "string \<Rightarrow> string \<Rightarrow> string \<Rightarrow> 'v \<Rightarrow> ('b, serr, unit) act"
    and Delete :: "string \<Rightarrow> string \<Rightarrow> string \<Rightarrow> ('b, serr, 'v option) act"
    and Keys :: "string \<Rightarrow> string \<Rightarrow> ('b, serr, string list) act"
    and Range :: "string \<Rightarrow> string \<Rightarrow> ('b, serr, (string \<times> 'v) list) act"
  assumes get: "inv m \<Longrightarrow> Get og c k m = (Inr (lookup m og c k), m)"
    and put: "inv m \<Longrightarrow> wpE (Put og c k v) (\<lambda>_ m'. inv m' \<and>
        (\<forall>og' c' k'. lookup m' og' c' k' =
           (if og' = og \<and> c' = c \<and> k' = k then Some v else lookup m og' c' k'))) (\<lambda>_ _. False) m"
    and create: "inv m \<Longrightarrow> Create og c k v m =
        (if lookup m og c k = None then Put og c k v m else (Inl ErrConflict, m))"
    and delete: "inv m \<Longrightarrow> wpE (Delete og c k) (\<lambda>old m'. old = lookup m og c k \<and> inv m' \<and>
        (\<forall>og' c' k'. lookup m' og' c' k' =
           (if og' = og \<and> c' = c \<and> k' = k then None else lookup m og' c' k'))) (\<lambda>_ _. False) m"
    and keys: "inv m \<Longrightarrow> wpE (Keys og c) (\<lambda>ks m'. m' = m \<and> sorted ks \<and> distinct ks \<and>
        set ks = {k. lookup m og c k \<noteq> None}) (\<lambda>_ _. False) m"
    and range: "inv m \<Longrightarrow> wpE (Range og c) (\<lambda>es m'. m' = m \<and> distinct (map fst es) \<and>
        map_of es = lookup m og c) (\<lambda>_ _. False) m"
begin

text \<open>Sweeping a collection: deleting the listed keys that satisfy a predicate removes exactly
  those entries. The cascades of the handlers (a bag's items, an actor's keys, a group's rows) are
  instances.\<close>

lemma sweep_list:
  "inv m \<Longrightarrow>
   wpE (forE ks (\<lambda>k. bindE (Delete og c k) (\<lambda>_. ret ())))
     (\<lambda>_ m'. inv m' \<and> (\<forall>og' c' k'. lookup m' og' c' k' =
        (if og' = og \<and> c' = c \<and> k' \<in> set ks then None else lookup m og' c' k'))) (\<lambda>_ _. False) m"
proof (induction ks arbitrary: m)
  case (Cons k ks)
  show ?case
    unfolding forE.simps wp
    by (rule wpE_mono[OF delete[OF Cons.prems]])
      (auto intro!: wpE_mono[OF Cons.IH])
qed (simp add: wp)

lemma sweep:
  assumes "inv m"
  shows "wpE (bindE (Keys og c) (\<lambda>ks. forE (filter P ks) (\<lambda>k. bindE (Delete og c k) (\<lambda>_. ret ()))))
     (\<lambda>_ m'. inv m' \<and> (\<forall>og' c' k'. lookup m' og' c' k' =
        (if og' = og \<and> c' = c \<and> P k' then None else lookup m og' c' k'))) (\<lambda>_ _. False) m"
  unfolding wp
  by (rule wpE_mono[OF keys[OF assms]])
    (use assms in \<open>auto intro!: wpE_mono[OF sweep_list]\<close>)

lemma put_get: "inv m \<Longrightarrow> wpE (bindE (Put og c k v) (\<lambda>_. Get og c k)) (\<lambda>r _. r = Some v) (\<lambda>_ _. False) m"
  unfolding wp by (rule wpE_mono[OF put]) (auto simp: get wpE_def)

end

interpretation mem: backend_spec kv wf_backend mem_Get mem_Put mem_Create mem_Delete mem_Keys mem_Range
proof (unfold_locales, goal_cases)
  case (5 m og c)
  then show ?case
    by (auto simp: mem_Keys_def wpE_def set_keys_kv distinct_coll_of)
next
  case (6 m og c)
  then show ?case
    by (auto simp: mem_Range_def wpE_def kv_def distinct_coll_of intro!: ext)
qed (auto simp: mem_Get_def mem_Put_def mem_Create_def mem_Delete_def wpE_def kv_def[symmetric]
       store_simps split: option.split)

end
