(* ===== verification/Store_Facade.thy ===== *)
theory Store_Facade
  imports Store_Backend
begin

text \<open>The \<^verbatim>\<open>Store\<close>/\<^verbatim>\<open>Org\<close> facade of \<^verbatim>\<open>src/internal/store/store.go\<close> and the write stream of
  \<^verbatim>\<open>watch.go\<close>.

  An \<^verbatim>\<open>Org\<close> handle is the organization's name, passed to every operation; \<^verbatim>\<open>Global()\<close> is the
  name \<open>''''\<close>. The backend may fail: \<open>faults\<close> is a schedule, one entry per backend call, in which
  \<open>True\<close> makes the call fail without touching the data (an exhausted schedule never fails), so
  every theorem below holds whichever calls fail. \<open>emitted\<close> is the sequence of events delivered
  to the observers; inside \<^verbatim>\<open>Tx\<close> it is the transaction's buffer.\<close>

named_theorems wpI \<open>introduction rules for the store operations\<close>
named_theorems readsI \<open>computations that only read\<close>
named_theorems keepsI \<open>computations that keep an invariant of the store\<close>

record 'v event =
  ev_org :: string
  ev_coll :: string
  ev_key :: string
  ev_value :: "'v option"
  ev_deleted :: bool

record counters =
  Reads :: nat
  Writes :: nat
  Deletes :: nat
  Scans :: nat

record 'v store =
  backend :: "'v backend"
  groupsGen :: nat
  emitted :: "'v event list"
  counts :: counters
  faults :: "bool list"

definition NewWithBackend :: "'v backend \<Rightarrow> 'v store" where
  "NewWithBackend b = \<lparr>backend = b, groupsGen = 0, emitted = [],
     counts = \<lparr>Reads = 0, Writes = 0, Deletes = 0, Scans = 0\<rparr>, faults = []\<rparr>"

definition groupsColl :: string where
  "groupsColl = ''groups''"

definition call :: "('v backend, serr, 'a) act \<Rightarrow> ('v store, serr, 'a) act" where
  "call f s = (case faults s of
      True # fs \<Rightarrow> (Inl ErrBackend, s\<lparr>faults := fs\<rparr>)
    | _ \<Rightarrow> (case f (backend s) of (r, b) \<Rightarrow> (r, s\<lparr>backend := b, faults := tl (faults s)\<rparr>)))"

section \<open>Writes and the event stream\<close>

definition emit :: "'v event \<Rightarrow> 'v store \<Rightarrow> 'v store" where
  "emit ev s = s\<lparr>emitted := emitted s @ [ev]\<rparr>"

definition noteWrite :: "string \<Rightarrow> 'v store \<Rightarrow> 'v store" where
  "noteWrite c s = (if c = groupsColl then s\<lparr>groupsGen := groupsGen s + 1\<rparr> else s)"

definition org_note :: "string \<Rightarrow> string \<Rightarrow> string \<Rightarrow> 'v option \<Rightarrow> bool \<Rightarrow> 'v store \<Rightarrow> 'v store" where
  "org_note og c k v del s =
     emit \<lparr>ev_org = og, ev_coll = c, ev_key = k, ev_value = v, ev_deleted = del\<rparr> (noteWrite c s)"

definition countWrite :: "'v store \<Rightarrow> 'v store" where
  "countWrite s = s\<lparr>counts := (counts s)\<lparr>Writes := Writes (counts s) + 1\<rparr>\<rparr>"

definition org_Create :: "string \<Rightarrow> string \<Rightarrow> string \<Rightarrow> 'v \<Rightarrow> ('v store, serr, unit) act" where
  "org_Create og c k v s =
     (case call (mem_Create og c k v) (countWrite s) of
        (Inl e, s') \<Rightarrow> (Inl e, s')
      | (Inr u, s') \<Rightarrow> (Inr u, org_note og c k (Some v) False s'))"

definition org_Put :: "string \<Rightarrow> string \<Rightarrow> string \<Rightarrow> 'v \<Rightarrow> ('v store, serr, unit) act" where
  "org_Put og c k v s =
     (case call (mem_Put og c k v) (countWrite s) of
        (Inl e, s') \<Rightarrow> (Inl e, s')
      | (Inr u, s') \<Rightarrow> (Inr u, org_note og c k (Some v) False s'))"

definition org_Delete :: "string \<Rightarrow> string \<Rightarrow> string \<Rightarrow> ('v store, serr, 'v option) act" where
  "org_Delete og c k s =
     (case call (mem_Delete og c k) (s\<lparr>counts := (counts s)\<lparr>Deletes := Deletes (counts s) + 1\<rparr>\<rparr>) of
        (Inl e, s') \<Rightarrow> (Inl e, s')
      | (Inr None, s') \<Rightarrow> (Inr None, s')
      | (Inr (Some old), s') \<Rightarrow> (Inr (Some old), org_note og c k None True s'))"

section \<open>Reads\<close>

definition org_Get :: "string \<Rightarrow> string \<Rightarrow> string \<Rightarrow> ('v store, serr, 'v option) act" where
  "org_Get og c k s = call (mem_Get og c k) (s\<lparr>counts := (counts s)\<lparr>Reads := Reads (counts s) + 1\<rparr>\<rparr>)"

definition org_View :: "string \<Rightarrow> string \<Rightarrow> string \<Rightarrow> ('v store, serr, 'v option) act" where
  "org_View og c k s = call (mem_Get og c k) (s\<lparr>counts := (counts s)\<lparr>Reads := Reads (counts s) + 1\<rparr>\<rparr>)"

definition org_Range :: "string \<Rightarrow> string \<Rightarrow> ('v store, serr, (string \<times> 'v) list) act" where
  "org_Range og c s = call (mem_Range og c) (s\<lparr>counts := (counts s)\<lparr>Scans := Scans (counts s) + 1\<rparr>\<rparr>)"

definition org_Keys :: "string \<Rightarrow> string \<Rightarrow> ('v store, serr, string list) act" where
  "org_Keys og c = call (mem_Keys og c)"

definition org_Collections :: "string \<Rightarrow> ('v store, serr, string list) act" where
  "org_Collections og = call (mem_Collections og)"

definition org_PutBlob :: "string \<Rightarrow> string \<Rightarrow> string \<Rightarrow> ('v store, serr, unit) act" where
  "org_PutBlob og cksum content = call (mem_PutBlob og cksum content)"

definition org_Blob :: "string \<Rightarrow> string \<Rightarrow> ('v store, serr, string option) act" where
  "org_Blob og cksum = call (mem_Blob og cksum)"

definition org_HasBlob :: "string \<Rightarrow> string \<Rightarrow> ('v store, serr, bool) act" where
  "org_HasBlob og cksum = call (mem_HasBlob og cksum)"

definition org_DeleteBlob :: "string \<Rightarrow> string \<Rightarrow> ('v store, serr, unit) act" where
  "org_DeleteBlob og cksum = call (mem_DeleteBlob og cksum)"

section \<open>Organizations and transactions\<close>

definition store_CreateOrg :: "string \<Rightarrow> ('v store, serr, unit) act" where
  "store_CreateOrg name = call (mem_CreateOrg name)"

definition store_Org :: "string \<Rightarrow> ('v store, serr, bool) act" where
  "store_Org name = call (mem_HasOrg name)"

definition store_ListOrgs :: "('v store, serr, string list) act" where
  "store_ListOrgs = call mem_ListOrgs"

definition store_DeleteOrg :: "string \<Rightarrow> ('v store, serr, bool) act" where
  "store_DeleteOrg name s =
     (case call (mem_DeleteOrg name) s of
        (Inr True, s') \<Rightarrow>
          (Inr True, emit \<lparr>ev_org = name, ev_coll = [], ev_key = [], ev_value = None, ev_deleted = True\<rparr> s')
      | (r, s') \<Rightarrow> (r, s'))"

definition store_Tx :: "('v store, 'e, 'a) act \<Rightarrow> ('v store, 'e, 'a) act" where
  "store_Tx fn s =
     (case mem_Tx (\<lambda>b. case fn (s\<lparr>backend := b, emitted := []\<rparr>) of
                         (Inl e, t) \<Rightarrow> (Inl (e, t), backend t)
                       | (Inr x, t) \<Rightarrow> (Inr (x, t), backend t)) (backend s) of
        (Inl (e, t), b) \<Rightarrow> (Inl e, t\<lparr>backend := b, emitted := emitted s\<rparr>)
      | (Inr (x, t), b) \<Rightarrow> (Inr x, t\<lparr>backend := b, emitted := emitted s @ emitted t\<rparr>))"

section \<open>Rules for reasoning about the operations\<close>

abbreviation stored :: "'v store \<Rightarrow> string \<Rightarrow> string \<Rightarrow> string \<Rightarrow> 'v option" where
  "stored s \<equiv> kv (backend s)"

text \<open>What a read leaves alone: everything but the tallies and the fault schedule.\<close>

definition same :: "'v store \<Rightarrow> 'v store \<Rightarrow> bool" where
  "same s s' = (backend s' = backend s \<and> groupsGen s' = groupsGen s \<and> emitted s' = emitted s)"

lemma same_refl [simp]: "same s s"
  by (simp add: same_def)

lemma same_trans: "same s s' \<Longrightarrow> same s' s'' \<Longrightarrow> same s s''"
  by (simp add: same_def)

lemmas store_op_defs = org_Create_def org_Put_def org_Delete_def org_Get_def org_View_def
  org_Range_def org_Keys_def org_Collections_def org_PutBlob_def org_Blob_def org_HasBlob_def
  org_DeleteBlob_def store_CreateOrg_def store_Org_def store_ListOrgs_def store_DeleteOrg_def

lemma wp_call_read:
  assumes "f (backend s) = (Inr x, backend s)"
    and "\<And>s'. same s s' \<Longrightarrow> Q x s'" and "\<And>s'. same s s' \<Longrightarrow> E ErrBackend s'"
  shows "wpE (call f) Q E s"
  using assms by (auto simp: call_def wpE_def same_def split: list.split bool.split)

lemma wp_call_write:
  assumes "f (backend s) = (Inr x, b)"
    and "\<And>s'. backend s' = b \<Longrightarrow> groupsGen s' = groupsGen s \<Longrightarrow> emitted s' = emitted s \<Longrightarrow> Q x s'"
    and "\<And>s'. same s s' \<Longrightarrow> E ErrBackend s'"
  shows "wpE (call f) Q E s"
  using assms by (auto simp: call_def wpE_def same_def split: list.split bool.split)

lemma wp_Get [wpI]:
  assumes "\<And>s'. same s s' \<Longrightarrow> Q (stored s og c k) s'" and "\<And>s'. same s s' \<Longrightarrow> E ErrBackend s'"
  shows "wpE (org_Get og c k) Q E s"
  using assms by (auto simp: org_Get_def call_def mem_Get_def kv_def wpE_def same_def split: list.split bool.split)

lemma wp_View [wpI]:
  assumes "\<And>s'. same s s' \<Longrightarrow> Q (stored s og c k) s'" and "\<And>s'. same s s' \<Longrightarrow> E ErrBackend s'"
  shows "wpE (org_View og c k) Q E s"
  using assms by (auto simp: org_View_def call_def mem_Get_def kv_def wpE_def same_def split: list.split bool.split)

lemma wp_Range [wpI]:
  assumes "\<And>s'. same s s' \<Longrightarrow> Q (coll_of (backend s) og c) s'" and "\<And>s'. same s s' \<Longrightarrow> E ErrBackend s'"
  shows "wpE (org_Range og c) Q E s"
  using assms by (auto simp: org_Range_def call_def mem_Range_def wpE_def same_def split: list.split bool.split)

lemma wp_Keys [wpI]:
  assumes "\<And>s'. same s s' \<Longrightarrow> Q (sort (map fst (coll_of (backend s) og c))) s'"
    and "\<And>s'. same s s' \<Longrightarrow> E ErrBackend s'"
  shows "wpE (org_Keys og c) Q E s"
  unfolding org_Keys_def by (rule wp_call_read) (use assms in \<open>auto simp: mem_Keys_def\<close>)

lemma wp_HasBlob [wpI]:
  assumes "\<And>s'. same s s' \<Longrightarrow> Q (map_of (blobs_of (backend s) og) cksum \<noteq> None) s'"
    and "\<And>s'. same s s' \<Longrightarrow> E ErrBackend s'"
  shows "wpE (org_HasBlob og cksum) Q E s"
  unfolding org_HasBlob_def by (rule wp_call_read) (use assms in \<open>auto simp: mem_HasBlob_def\<close>)

lemma wp_Org [wpI]:
  assumes "\<And>s'. same s s' \<Longrightarrow> Q (name \<in> set (orgs (backend s))) s'"
    and "\<And>s'. same s s' \<Longrightarrow> E ErrBackend s'"
  shows "wpE (store_Org name) Q E s"
  unfolding store_Org_def by (rule wp_call_read) (use assms in \<open>auto simp: mem_HasOrg_def\<close>)

definition event_of :: "string \<Rightarrow> string \<Rightarrow> string \<Rightarrow> 'v option \<Rightarrow> 'v event" where
  "event_of og c k v = \<lparr>ev_org = og, ev_coll = c, ev_key = k, ev_value = v, ev_deleted = (v = None)\<rparr>"

definition genAfter :: "string \<Rightarrow> 'v store \<Rightarrow> nat" where
  "genAfter c s = (if c = groupsColl then groupsGen s + 1 else groupsGen s)"

text \<open>What a write leaves behind.\<close>

definition wrote :: "string \<Rightarrow> string \<Rightarrow> string \<Rightarrow> 'v \<Rightarrow> 'v store \<Rightarrow> 'v store \<Rightarrow> bool" where
  "wrote og c k v s s' = (backend s' = mem_set og c k v (backend s) \<and> groupsGen s' = genAfter c s \<and>
     emitted s' = emitted s @ [event_of og c k (Some v)])"

definition erased :: "string \<Rightarrow> string \<Rightarrow> string \<Rightarrow> 'v store \<Rightarrow> 'v store \<Rightarrow> bool" where
  "erased og c k s s' = (backend s' = mem_unset og c k (backend s) \<and> groupsGen s' = genAfter c s \<and>
     emitted s' = emitted s @ [event_of og c k None])"

lemmas note_defs = org_note_def noteWrite_def emit_def event_of_def genAfter_def countWrite_def

lemma wp_Put [wpI]:
  assumes "\<And>s'. wrote og c k v s s' \<Longrightarrow> Q () s'" and "\<And>s'. same s s' \<Longrightarrow> E ErrBackend s'"
  shows "wpE (org_Put og c k v) Q E s"
  using assms
  by (auto simp: org_Put_def call_def mem_Put_def wrote_def wpE_def same_def note_defs
      split: list.split bool.split)

lemma wp_Create [wpI]:
  assumes "\<And>s'. stored s og c k = None \<Longrightarrow> wrote og c k v s s' \<Longrightarrow> Q () s'"
    and "\<And>s'. stored s og c k \<noteq> None \<Longrightarrow> same s s' \<Longrightarrow> E ErrConflict s'"
    and "\<And>s'. same s s' \<Longrightarrow> E ErrBackend s'"
  shows "wpE (org_Create og c k v) Q E s"
  using assms
  by (auto simp: org_Create_def call_def mem_Create_def kv_def wrote_def wpE_def same_def note_defs
      split: list.split bool.split)

lemma wp_Delete [wpI]:
  assumes "\<And>s' old. stored s og c k = Some old \<Longrightarrow> erased og c k s s' \<Longrightarrow> Q (Some old) s'"
    and "\<And>s'. stored s og c k = None \<Longrightarrow> same s s' \<Longrightarrow> Q None s'"
    and "\<And>s'. same s s' \<Longrightarrow> E ErrBackend s'"
  shows "wpE (org_Delete og c k) Q E s"
  using assms
  by (auto simp: org_Delete_def call_def mem_Delete_def kv_def erased_def wpE_def same_def note_defs
      split: list.split bool.split option.split)

lemma stored_wrote:
  "wrote og c k v s s' \<Longrightarrow>
   stored s' = (\<lambda>og' c' k'. if og' = og \<and> c' = c \<and> k' = k then Some v else stored s og' c' k')"
  by (intro ext) (simp add: wrote_def store_simps)

lemma stored_erased:
  "erased og c k s s' \<Longrightarrow>
   stored s' = (\<lambda>og' c' k'. if og' = og \<and> c' = c \<and> k' = k then None else stored s og' c' k')"
  by (intro ext) (simp add: erased_def store_simps)

lemma stored_same: "same s s' \<Longrightarrow> stored s' = stored s"
  by (simp add: same_def)

text \<open>Computations that only read: they leave the store as it is and fail only with the backend.\<close>

definition reads :: "('v store, serr, 'a) act \<Rightarrow> bool" where
  "reads m = (\<forall>s. wpE m (\<lambda>_ s'. same s s') (\<lambda>e s'. e = ErrBackend \<and> same s s') s)"

lemma reads_primitives [readsI]:
  "reads (org_Get og c k)" "reads (org_View og c k)" "reads (org_Range og c)" "reads (org_Keys og c)"
  "reads (org_HasBlob og cksum)" "reads (store_Org name)" "reads (ret x)"
  by (auto simp: reads_def wp intro: wpI)

lemma reads_bindE [readsI]:
  assumes "reads m" and "\<And>x. reads (k x)"
  shows "reads (bindE m k)"
  unfolding reads_def wp
proof
  fix s
  show "wpE m (\<lambda>x. wpE (k x) (\<lambda>_ s'. same s s') (\<lambda>e s'. e = ErrBackend \<and> same s s')) (\<lambda>e s'. e = ErrBackend \<and> same s s') s"
  proof (rule wpE_mono)
    show "wpE m (\<lambda>_ s'. same s s') (\<lambda>e s'. e = ErrBackend \<and> same s s') s" using assms(1) by (simp add: reads_def)
    show "wpE (k x) (\<lambda>_ s'. same s s') (\<lambda>e s'. e = ErrBackend \<and> same s s') s1" if s1: "same s s1" for x s1
      by (rule wpE_mono[OF assms(2)[unfolded reads_def, rule_format]]) (auto intro: same_trans[OF s1])
  qed
qed

lemma reads_if [readsI]: "reads m \<Longrightarrow> reads m' \<Longrightarrow> reads (if b then m else m')"
  by simp

lemma reads_case_option [readsI]: "reads m \<Longrightarrow> (\<And>y. reads (m' y)) \<Longrightarrow> reads (case_option m m' x)"
  by (cases x) simp_all

lemma reads_case_prod [readsI]: "(\<And>a b. reads (m a b)) \<Longrightarrow> reads (case_prod m p)"
  by (cases p) simp

lemma reads_foldE [readsI]: "(\<And>x acc. reads (f x acc)) \<Longrightarrow> reads (foldE xs f acc)"
  by (induction xs arbitrary: acc) (auto intro!: readsI)

lemma wp_reads:
  assumes "reads m" and "\<And>x s'. same s s' \<Longrightarrow> Q x s'" and "\<And>s'. same s s' \<Longrightarrow> E ErrBackend s'"
  shows "wpE m Q E s"
  by (rule wpE_mono[OF assms(1)[unfolded reads_def, rule_format]]) (use assms in auto)

section \<open>The stream describes the store\<close>

text \<open>An observer's mirror of the store: what one event makes of a map of bodies. An event that
  deletes in no collection is the drop of an organization.\<close>

type_synonym 'v mirror = "string \<Rightarrow> string \<Rightarrow> string \<Rightarrow> 'v option"

definition replay1 :: "'v event \<Rightarrow> 'v mirror \<Rightarrow> 'v mirror" where
  "replay1 ev m = (\<lambda>og c k.
     if ev_deleted ev \<and> ev_coll ev = [] then (if og = ev_org ev then None else m og c k)
     else if og = ev_org ev \<and> c = ev_coll ev \<and> k = ev_key ev
       then (if ev_deleted ev then None else ev_value ev)
     else m og c k)"

text \<open>The writes a client can make, transactions included; a transaction's body stops at its first
  error, and \<open>OpAbort\<close> is a body returning an error of its own.\<close>

datatype 'v op =
    OpPut string string string 'v
  | OpCreate string string string 'v
  | OpDelete string string string
  | OpCreateOrg string
  | OpDeleteOrg string
  | OpTx "'v op list"
  | OpAbort serr

lemma forE_cong [fundef_cong]:
  "xs = ys \<Longrightarrow> (\<And>x. x \<in> set ys \<Longrightarrow> f x = g x) \<Longrightarrow> forE xs f = forE ys g"
  by (induction ys arbitrary: xs) simp_all

fun run_op :: "'v op \<Rightarrow> ('v store, serr, unit) act" where
  "run_op (OpPut og c k v) = org_Put og c k v"
| "run_op (OpCreate og c k v) = org_Create og c k v"
| "run_op (OpDelete og c k) = bindE (org_Delete og c k) (\<lambda>_. ret ())"
| "run_op (OpCreateOrg name) = store_CreateOrg name"
| "run_op (OpDeleteOrg name) = bindE (store_DeleteOrg name) (\<lambda>_. ret ())"
| "run_op (OpTx ops) = store_Tx (forE ops run_op)"
| "run_op (OpAbort e) = failE e"

definition run_ops :: "'v op list \<Rightarrow> 'v store \<Rightarrow> 'v store" where
  "run_ops ops s = fold (\<lambda>opr s. snd (run_op opr s)) ops s"

text \<open>Collections have names: the sources never write to the collection with the empty name. The
  predicate carries a condition on the events the operation may emit.\<close>

definition drop_event :: "string \<Rightarrow> 'v event" where
  "drop_event name = \<lparr>ev_org = name, ev_coll = [], ev_key = [], ev_value = None, ev_deleted = True\<rparr>"

fun op_ok :: "('v event \<Rightarrow> bool) \<Rightarrow> 'v op \<Rightarrow> bool" where
  "op_ok ok (OpPut og c k v) = (c \<noteq> [] \<and> ok (event_of og c k (Some v)))"
| "op_ok ok (OpCreate og c k v) = (c \<noteq> [] \<and> ok (event_of og c k (Some v)))"
| "op_ok ok (OpDelete og c k) = (c \<noteq> [] \<and> ok (event_of og c k None))"
| "op_ok ok (OpDeleteOrg name) = ok (drop_event name)"
| "op_ok ok (OpTx ops) = list_all (op_ok ok) ops"
| "op_ok ok _ = True"

abbreviation named_op :: "'v op \<Rightarrow> bool" where
  "named_op \<equiv> op_ok (\<lambda>_. True)"

text \<open>The step from \<open>s\<close> to \<open>s'\<close> is described by the events it emitted, and the group generation
  grew at least once for every event on a group document.\<close>

definition groupEvents :: "'v event list \<Rightarrow> nat" where
  "groupEvents es = length (filter (\<lambda>ev. ev_coll ev = groupsColl) es)"

lemma groupEvents_simps [simp]:
  "groupEvents [] = 0"
  "groupEvents (ev # es) = (if ev_coll ev = groupsColl then Suc (groupEvents es) else groupEvents es)"
  "groupEvents (es @ es') = groupEvents es + groupEvents es'"
  by (simp_all add: groupEvents_def)

definition described :: "('v event \<Rightarrow> bool) \<Rightarrow> 'v store \<Rightarrow> 'v store \<Rightarrow> bool" where
  "described ok s s' = (\<exists>es. emitted s' = emitted s @ es \<and> list_all ok es \<and>
     stored s' = fold replay1 es (stored s) \<and> groupsGen s + groupEvents es \<le> groupsGen s')"

definition streamed :: "('v event \<Rightarrow> bool) \<Rightarrow> ('v store, 'e, 'a) act \<Rightarrow> bool" where
  "streamed ok m = (\<forall>s r s'. m s = (r, s') \<longrightarrow> described ok s s')"

lemma streamedI_wp:
  assumes "\<And>s. wpE m (\<lambda>_. described ok s) (\<lambda>_. described ok s) s"
  shows "streamed ok m"
  unfolding streamed_def
proof (intro allI impI)
  fix s r s' assume "m s = (r, s')"
  with wpE_result[OF assms this] show "described ok s s'" by (cases r) auto
qed

lemma described_trans: "described ok s s' \<Longrightarrow> described ok s' s'' \<Longrightarrow> described ok s s''"
  unfolding described_def
proof (elim exE conjE)
  fix es es' assume "emitted s' = emitted s @ es" "emitted s'' = emitted s' @ es'" "list_all ok es" "list_all ok es'"
    "stored s' = fold replay1 es (stored s)" "stored s'' = fold replay1 es' (stored s')"
    "groupsGen s + groupEvents es \<le> groupsGen s'" "groupsGen s' + groupEvents es' \<le> groupsGen s''"
  then show "\<exists>es. emitted s'' = emitted s @ es \<and> list_all ok es \<and> stored s'' = fold replay1 es (stored s) \<and>
      groupsGen s + groupEvents es \<le> groupsGen s''"
    by (intro exI[of _ "es @ es'"]) simp
qed

lemma same_described: "same s s' \<Longrightarrow> described ok s s'"
  unfolding described_def by (rule exI[of _ "[]"]) (simp add: same_def)

lemma replay1_write:
  "c \<noteq> [] \<Longrightarrow> kv (mem_set og c k v b) = replay1 (event_of og c k (Some v)) (kv b)"
  "c \<noteq> [] \<Longrightarrow> kv (mem_unset og c k b) = replay1 (event_of og c k None) (kv b)"
  by (intro ext, simp add: replay1_def event_of_def store_simps)+

lemma wrote_described:
  "c \<noteq> [] \<Longrightarrow> ok (event_of og c k (Some v)) \<Longrightarrow> wrote og c k v s s' \<Longrightarrow> described ok s s'"
  unfolding described_def by (rule exI[of _ "[event_of og c k (Some v)]"]) (simp add: replay1_write wrote_def genAfter_def event_of_def[of _ c])

lemma erased_described:
  "c \<noteq> [] \<Longrightarrow> ok (event_of og c k None) \<Longrightarrow> erased og c k s s' \<Longrightarrow> described ok s s'"
  unfolding described_def by (rule exI[of _ "[event_of og c k None]"]) (simp add: replay1_write erased_def genAfter_def event_of_def[of _ c])

lemmas described_intros = same_described wrote_described erased_described

lemma streamed_Put: "c \<noteq> [] \<Longrightarrow> ok (event_of og c k (Some v)) \<Longrightarrow> streamed ok (org_Put og c k v)"
  by (rule streamedI_wp) (auto intro!: wpI simp: described_intros)

lemma streamed_Create: "c \<noteq> [] \<Longrightarrow> ok (event_of og c k (Some v)) \<Longrightarrow> streamed ok (org_Create og c k v)"
  by (rule streamedI_wp) (auto intro!: wpI simp: described_intros)

lemma streamed_Delete: "c \<noteq> [] \<Longrightarrow> ok (event_of og c k None) \<Longrightarrow> streamed ok (org_Delete og c k)"
  by (rule streamedI_wp) (auto intro!: wpI simp: described_intros)

lemma kv_orgs_update [simp]: "kv (m\<lparr>orgs := x\<rparr>) = kv m" "kv (m\<lparr>blobs := y\<rparr>) = kv m"
  by (intro ext, simp add: kv_def coll_of_def)+

lemma streamed_CreateOrg: "streamed ok (store_CreateOrg name)"
  by (auto simp: streamed_def described_def store_CreateOrg_def call_def mem_CreateOrg_def
      split: list.splits bool.splits if_splits)

lemma kv_DeleteOrg:
  "kv (m\<lparr>orgs := x, data := AList.delete name (data m)\<rparr>) =
   (\<lambda>og c k. if og = name then None else kv m og c k)"
  by (intro ext) (simp add: kv_def coll_of_def)

lemma streamed_DeleteOrg: "ok (drop_event name) \<Longrightarrow> streamed ok (store_DeleteOrg name)"
proof (rule streamedI_wp)
  fix s :: "'a store" assume "ok (drop_event name)"
  then show "wpE (store_DeleteOrg name) (\<lambda>_. described ok s) (\<lambda>_. described ok s) s"
    by (auto simp: wpE_def described_def store_DeleteOrg_def call_def mem_DeleteOrg_def emit_def
        kv_DeleteOrg replay1_def drop_event_def groupsColl_def
        split: list.splits bool.splits intro: exI[of _ "[drop_event name]"])
qed

lemma streamed_bindE:
  assumes m: "streamed ok m" and k: "\<And>x. streamed ok (k x)"
  shows "streamed ok (bindE m k)"
  unfolding streamed_def
proof (intro allI impI)
  fix s r s' assume run: "bindE m k s = (r, s')"
  obtain r1 s1 where 1: "m s = (r1, s1)" by fastforce
  then have d: "described ok s s1" using m unfolding streamed_def by blast
  show "described ok s s'"
  proof (cases r1)
    case (Inl e)
    with run 1 d show ?thesis by (auto simp: bindE_def tryE_def failE_def)
  next
    case (Inr x)
    with run 1 have "k x s1 = (r, s')" by (simp add: bindE_def tryE_def)
    then have "described ok s1 s'" using k unfolding streamed_def by blast
    with d show ?thesis by (rule described_trans)
  qed
qed

lemma streamed_ret: "streamed ok (ret x)"
  by (simp add: streamed_def ret_def same_described)

lemma streamed_failE: "streamed ok (failE e)"
  by (simp add: streamed_def failE_def same_described)

lemma streamed_forE: "(\<And>x. x \<in> set xs \<Longrightarrow> streamed ok (f x)) \<Longrightarrow> streamed ok (forE xs f)"
  by (induction xs) (auto intro: streamed_ret streamed_bindE)

lemma store_Tx_cases:
  assumes "store_Tx fn s = (r, s')"
  obtains (abort) e t where "fn (s\<lparr>emitted := []\<rparr>) = (Inl e, t)" "r = Inl e"
      "s' = t\<lparr>backend := backend s, emitted := emitted s\<rparr>"
    | (commit) x t where "fn (s\<lparr>emitted := []\<rparr>) = (Inr x, t)" "r = Inr x"
      "s' = t\<lparr>emitted := emitted s @ emitted t\<rparr>"
  using assms by (auto simp: store_Tx_def mem_Tx_def split: prod.splits sum.splits)

lemma streamed_Tx:
  assumes "streamed ok fn"
  shows "streamed ok (store_Tx fn)"
  unfolding streamed_def
proof (intro allI impI)
  fix s r s' assume "store_Tx fn s = (r, s')"
  then show "described ok s s'"
  proof (cases rule: store_Tx_cases)
    case (commit x t)
    then have "described ok (s\<lparr>emitted := []\<rparr>) t" using assms unfolding streamed_def by blast
    with commit show ?thesis by (simp add: described_def)
  next
    case (abort e t)
    then have "described ok (s\<lparr>emitted := []\<rparr>) t" using assms unfolding streamed_def by blast
    with abort show ?thesis by (auto simp: described_def)
  qed
qed

lemma streamed_run_op: "op_ok ok opr \<Longrightarrow> streamed ok (run_op opr)"
proof (induction opr rule: run_op.induct)
  case (6 ops)
  then show ?case
    by (auto simp: list_all_iff intro!: streamed_Tx streamed_forE)
qed (auto intro: streamed_Put streamed_Create streamed_Delete streamed_CreateOrg streamed_DeleteOrg
       streamed_bindE streamed_ret streamed_failE)

lemma run_ops_described: "list_all (op_ok ok) ops \<Longrightarrow> described ok s (run_ops ops s)"
proof (induction ops arbitrary: s)
  case (Cons opr ops)
  obtain r s1 where 1: "run_op opr s = (r, s1)" by fastforce
  have "described ok s s1"
    using streamed_run_op[of ok opr] Cons.prems 1 unfolding streamed_def by fastforce
  moreover have "described ok s1 (run_ops ops s1)" using Cons by simp
  ultimately show ?case
    using 1 by (auto simp: run_ops_def intro: described_trans)
qed (simp add: run_ops_def same_described)

text \<open>The operations keep the representation invariant of the backend.\<close>

definition keeps :: "('s \<Rightarrow> bool) \<Rightarrow> ('s, 'e, 'a) act \<Rightarrow> bool" where
  "keeps I m = (\<forall>s. I s \<longrightarrow> wpE m (\<lambda>_. I) (\<lambda>_. I) s)"

lemma keeps_bindE [keepsI]: "keeps I m \<Longrightarrow> (\<And>x. keeps I (k x)) \<Longrightarrow> keeps I (bindE m k)"
  unfolding keeps_def wp by (blast intro: wpE_mono)

lemma keeps_forE [keepsI]: "(\<And>x. x \<in> set xs \<Longrightarrow> keeps I (f x)) \<Longrightarrow> keeps I (forE xs f)"
  by (induction xs) (auto intro!: keeps_bindE simp: keeps_def[of I "ret ()"] wp)

abbreviation wfS :: "'v store \<Rightarrow> bool" where
  "wfS s \<equiv> wf_backend (backend s)"

lemma wfS_same: "same s s' \<Longrightarrow> wfS s' = wfS s"
  by (simp add: same_def)

lemma wfS_wrote: "wrote og c k v s s' \<Longrightarrow> wfS s \<Longrightarrow> wfS s'"
  by (simp add: wrote_def)

lemma wfS_erased: "erased og c k s s' \<Longrightarrow> wfS s \<Longrightarrow> wfS s'"
  by (simp add: erased_def)

lemma keeps_branches [keepsI]:
  "keeps I m \<Longrightarrow> keeps I m' \<Longrightarrow> keeps I (if b then m else m')"
  "keeps I m \<Longrightarrow> (\<And>y. keeps I (k y)) \<Longrightarrow> keeps I (case_option m k x)"
  "(\<And>a b. keeps I (h a b)) \<Longrightarrow> keeps I (case_prod h p)"
  "(\<And>a b. keeps I (h' a b v')) \<Longrightarrow> keeps I (case_prod h' p' v')"
  "keeps I (ret v)" "keeps I (failE err)"
  by (auto simp: keeps_def wp split: option.split prod.split)

lemma keeps_wfS_reads: "reads m \<Longrightarrow> keeps wfS m"
  by (auto simp: keeps_def wfS_same intro: wp_reads)

lemmas [keepsI] = reads_primitives [THEN keeps_wfS_reads]

lemma keeps_wfS_Put [keepsI]: "keeps wfS (org_Put og c k v)"
  by (auto simp: keeps_def wfS_same wfS_wrote intro!: wp_Put)

lemma keeps_wfS_Create [keepsI]: "keeps wfS (org_Create og c k v)"
  by (auto simp: keeps_def wfS_same wfS_wrote intro!: wp_Create)

lemma keeps_wfS_Delete [keepsI]: "keeps wfS (org_Delete og c k)"
  by (auto simp: keeps_def wfS_same wfS_erased intro!: wp_Delete)

lemma keeps_wfS_CreateOrg: "keeps wfS (store_CreateOrg name)"
  by (auto simp: keeps_def wpE_def store_CreateOrg_def call_def mem_CreateOrg_def wf_backend_def
      split: list.splits bool.splits)

lemma wf_mem_DeleteOrg:
  assumes "wf_backend m"
  shows "wf_backend (snd (mem_DeleteOrg name m))"
proof (cases "name \<in> set (orgs m)")
  case True
  have sub: "\<forall>x \<in> set (AList.delete name xs). P x" if "\<forall>x \<in> set xs. P x" for xs :: "(string \<times> 'z) list" and P
    using delete_subset[of name xs] that by blast
  note wf = assms[unfolded wf_backend_def]
  have "\<forall>(og, colls) \<in> set (AList.delete name (data m)). distinct (map fst colls) \<and>
         (\<forall>(c, keys) \<in> set colls. distinct (map fst keys))"
    using wf by (intro sub) (elim conjE, assumption)
  moreover have "\<forall>(og, bs) \<in> set (AList.delete name (blobs m)). distinct (map fst bs)"
    using wf by (intro sub) (elim conjE, assumption)
  ultimately show ?thesis
    using True wf by (simp add: mem_DeleteOrg_def wf_backend_def distinct_removeAll)
qed (use assms in \<open>simp add: mem_DeleteOrg_def\<close>)

lemma keeps_wfS_DeleteOrg: "keeps wfS (store_DeleteOrg name)"
  unfolding keeps_def
proof (intro allI impI)
  fix s :: "'a store" assume "wfS s"
  with wf_mem_DeleteOrg[of "backend s" name]
  show "wpE (store_DeleteOrg name) (\<lambda>_. wfS) (\<lambda>_. wfS) s"
    by (cases "name \<in> set (orgs (backend s))")
      (simp_all add: wpE_def store_DeleteOrg_def call_def emit_def mem_DeleteOrg_def split: list.split bool.split)
qed

lemma keeps_Tx:
  assumes "keeps wfS fn"
  shows "keeps wfS (store_Tx fn)"
  unfolding keeps_def
proof (intro allI impI)
  fix s :: "'a store" assume s: "wfS s"
  then have "wpE fn (\<lambda>_. wfS) (\<lambda>_. wfS) (s\<lparr>emitted := []\<rparr>)" using assms by (simp add: keeps_def)
  with s show "wpE (store_Tx fn) (\<lambda>_. wfS) (\<lambda>_. wfS) s"
    by (auto simp: wpE_def store_Tx_def mem_Tx_def split: prod.splits sum.splits)
qed

lemma keeps_wfS_run_op: "keeps wfS (run_op opr)"
proof (induction opr rule: run_op.induct)
  case (6 ops)
  then show ?case by (auto intro!: keeps_Tx keeps_forE)
qed (auto intro!: keeps_bindE keeps_wfS_Put keeps_wfS_Create keeps_wfS_Delete keeps_wfS_CreateOrg keeps_wfS_DeleteOrg
       simp: keeps_def[of _ "ret _"] keeps_def[of _ "failE _"] wp)

lemma wfS_run_ops: "wfS s \<Longrightarrow> wfS (run_ops ops s)"
proof (induction ops arbitrary: s)
  case (Cons opr ops)
  obtain r s1 where 1: "run_op opr s = (r, s1)" by fastforce
  have "wpE (run_op opr) (\<lambda>_. wfS) (\<lambda>_. wfS) s" using keeps_wfS_run_op Cons.prems unfolding keeps_def by blast
  from wpE_result[OF this 1] have "wfS s1" by (cases r) auto
  with Cons 1 show ?case by (simp add: run_ops_def)
qed (simp add: run_ops_def)

section \<open>Writing many keys\<close>

definition filled :: "string \<Rightarrow> string \<Rightarrow> (string \<times> 'v) list \<Rightarrow> 'v store \<Rightarrow> 'v store \<Rightarrow> bool" where
  "filled og c kvs s s' = ((\<forall>og' c' k'. stored s' og' c' k' = (if og' = og \<and> c' = c
       then (case map_of (rev kvs) k' of Some v \<Rightarrow> Some v | None \<Rightarrow> stored s og' c' k') else stored s og' c' k')) \<and>
     orgs (backend s') = orgs (backend s) \<and> blobs (backend s') = blobs (backend s) \<and> (wfS s \<longrightarrow> wfS s'))"

lemma filled_step: "wrote og c k v s s1 \<Longrightarrow> filled og c kvs s1 s2 \<Longrightarrow> filled og c ((k, v) # kvs) s s2"
  by (auto simp: filled_def wrote_def store_simps map_add_def split: option.splits)

lemma filled_same: "same s s' \<Longrightarrow> filled og c [] s s'"
  by (simp add: filled_def same_def)

lemma filled_from_same: "same s s1 \<Longrightarrow> filled og c kvs s1 s2 \<Longrightarrow> filled og c kvs s s2"
  by (simp add: filled_def same_def cong: option.case_cong)

lemma wp_put_all:
  "wpE (forE kvs (\<lambda>(k, v). org_Put og c k v)) (\<lambda>_. filled og c kvs s)
     (\<lambda>e s'. e = ErrBackend \<and> (\<exists>n. filled og c (take n kvs) s s')) s"
proof (induction kvs arbitrary: s)
  case Nil
  show ?case by (simp add: wp filled_same)
next
  case (Cons p kvs)
  obtain k v where p: "p = (k, v)" by fastforce
  show ?case
    unfolding forE.simps wp p prod.case
  proof (rule wp_Put)
    fix s1 assume w: "wrote og c k v s s1"
    have "\<exists>n. filled og c (take n ((k, v) # kvs)) s s2" if "filled og c (take n kvs) s1 s2" for n s2
      using filled_step[OF w that] by (intro exI[of _ "Suc n"]) simp
    then show "wpE (forE kvs (\<lambda>(k, v). org_Put og c k v)) (\<lambda>_. filled og c ((k, v) # kvs) s)
       (\<lambda>e s'. e = ErrBackend \<and> (\<exists>n. filled og c (take n ((k, v) # kvs)) s s')) s1"
      by (intro wpE_mono[OF Cons.IH]) (use filled_step[OF w] in auto)
  next
    fix s1 assume "same s s1"
    then show "ErrBackend = ErrBackend \<and> (\<exists>n. filled og c (take n ((k, v) # kvs)) s s1)"
      by (auto intro!: exI[of _ 0] filled_same)
  qed
qed

section \<open>Deleting many keys\<close>

text \<open>\<open>swept og c P s s'\<close>: exactly the keys of one collection that satisfy \<open>P\<close> are gone;
  \<open>sweeping\<close> is what a loop interrupted by a backend failure leaves, some of them gone.\<close>

definition swept :: "string \<Rightarrow> string \<Rightarrow> (string \<Rightarrow> bool) \<Rightarrow> 'v store \<Rightarrow> 'v store \<Rightarrow> bool" where
  "swept og c P s s' = ((\<forall>og' c' k'. stored s' og' c' k' =
       (if og' = og \<and> c' = c \<and> P k' then None else stored s og' c' k')) \<and>
     orgs (backend s') = orgs (backend s) \<and> blobs (backend s') = blobs (backend s) \<and> wfS s')"

definition sweeping :: "string \<Rightarrow> string \<Rightarrow> (string \<Rightarrow> bool) \<Rightarrow> 'v store \<Rightarrow> 'v store \<Rightarrow> bool" where
  "sweeping og c P s s' = ((\<forall>og' c' k'. stored s' og' c' k' = stored s og' c' k' \<or>
       og' = og \<and> c' = c \<and> P k' \<and> stored s' og' c' k' = None) \<and>
     orgs (backend s') = orgs (backend s) \<and> blobs (backend s') = blobs (backend s) \<and> wfS s')"

lemma swept_step:
  "erased og c k s s1 \<Longrightarrow> swept og c P s1 s2 \<Longrightarrow> swept og c (\<lambda>x. x = k \<or> P x) s s2"
  "stored s og c k = None \<Longrightarrow> same s s1 \<Longrightarrow> swept og c P s1 s2 \<Longrightarrow> swept og c (\<lambda>x. x = k \<or> P x) s s2"
  by (simp_all add: swept_def erased_def same_def store_simps)

lemma sweeping_step:
  "erased og c k s s1 \<Longrightarrow> sweeping og c P s1 s2 \<Longrightarrow> sweeping og c (\<lambda>x. x = k \<or> P x) s s2"
proof -
  assume 1: "erased og c k s s1" and 2: "sweeping og c P s1 s2"
  have "stored s2 og' c' k' = stored s og' c' k' \<or>
      og' = og \<and> c' = c \<and> (k' = k \<or> P k') \<and> stored s2 og' c' k' = None" for og' c' k'
  proof -
    have "stored s2 og' c' k' = stored s1 og' c' k' \<or> og' = og \<and> c' = c \<and> P k' \<and> stored s2 og' c' k' = None"
      using 2 unfolding sweeping_def by blast
    with 1 show ?thesis by (auto simp: erased_def store_simps split: if_splits)
  qed
  with 1 2 show ?thesis unfolding sweeping_def by (simp add: erased_def store_simps)
qed

lemma sweeping_same: "same s s1 \<Longrightarrow> wfS s \<Longrightarrow> sweeping og c P s s1"
  by (simp add: sweeping_def same_def)

lemma sweeping_mono: "sweeping og c P s s' \<Longrightarrow> (\<And>k. P k \<Longrightarrow> P' k) \<Longrightarrow> sweeping og c P' s s'"
  unfolding sweeping_def by blast

lemma sweeping_from_same: "same s s1 \<Longrightarrow> sweeping og c P s1 s2 \<Longrightarrow> sweeping og c P s s2"
  by (simp add: sweeping_def same_def)

lemma sweeping_other: "sweeping og c P s s' \<Longrightarrow> \<not> (og' = og \<and> c' = c) \<Longrightarrow> stored s' og' c' k = stored s og' c' k"
  unfolding sweeping_def by blast

lemma delete_all:
  "wfS s \<Longrightarrow> wpE (forE ks (\<lambda>k. bindE (org_Delete og c k) (\<lambda>_. ret ())))
     (\<lambda>_. swept og c (\<lambda>k. k \<in> set ks) s) (\<lambda>e s'. e = ErrBackend \<and> sweeping og c (\<lambda>k. k \<in> set ks) s s') s"
proof (induction ks arbitrary: s)
  case Nil
  then show ?case by (simp add: wp swept_def)
next
  case (Cons k ks)
  show ?case
    unfolding forE.simps wp
  proof (rule wp_Delete)
    fix s1 old assume e: "erased og c k s s1"
    show "wpE (forE ks (\<lambda>k. bindE (org_Delete og c k) (\<lambda>_. ret ()))) (\<lambda>_. swept og c (\<lambda>x. x \<in> set (k # ks)) s)
        (\<lambda>e s'. e = ErrBackend \<and> sweeping og c (\<lambda>x. x \<in> set (k # ks)) s s') s1"
      by (rule wpE_mono[OF Cons.IH[OF wfS_erased[OF e Cons.prems]]])
        (simp_all add: swept_step(1)[OF e] sweeping_step[OF e])
  next
    fix s1 assume n: "stored s og c k = None" "same s s1"
    then have wf: "wfS s1" using Cons.prems by (simp add: wfS_same)
    have sw: "sweeping og c (\<lambda>x. x = k \<or> x \<in> set ks) s s2" if x: "sweeping og c (\<lambda>x. x \<in> set ks) s1 s2" for s2
      by (rule sweeping_mono[OF sweeping_from_same[OF n(2) x]]) simp
    show "wpE (forE ks (\<lambda>k. bindE (org_Delete og c k) (\<lambda>_. ret ()))) (\<lambda>_. swept og c (\<lambda>x. x \<in> set (k # ks)) s)
        (\<lambda>e s'. e = ErrBackend \<and> sweeping og c (\<lambda>x. x \<in> set (k # ks)) s s') s1"
      by (intro wpE_mono[OF Cons.IH[OF wf]]) (simp_all add: swept_step(2)[OF n] sw)
  next
    fix s1 assume "same s s1"
    with Cons.prems show "ErrBackend = ErrBackend \<and> sweeping og c (\<lambda>x. x \<in> set (k # ks)) s s1"
      by (simp add: sweeping_same)
  qed
qed

lemma wp_delete_all:
  assumes "wfS s"
    and "\<And>s'. swept og c (\<lambda>k. k \<in> set ks) s s' \<Longrightarrow> Q () s'"
    and "\<And>s'. sweeping og c (\<lambda>k. k \<in> set ks) s s' \<Longrightarrow> E ErrBackend s'"
  shows "wpE (forE ks (\<lambda>k. bindE (org_Delete og c k) (\<lambda>_. ret ()))) Q E s"
  by (rule wpE_mono[OF delete_all[OF assms(1)]]) (use assms in auto)

text \<open>Deleting the keys of a collection that satisfy a predicate.\<close>

lemma swept_filter:
  "same s s1 \<Longrightarrow> swept og c (\<lambda>k. k \<in> set (filter P (map fst (coll_of (backend s) og c)))) s1 s2 \<Longrightarrow> swept og c P s s2"
proof -
  assume 1: "same s s1" and 2: "swept og c (\<lambda>k. k \<in> set (filter P (map fst (coll_of (backend s) og c)))) s1 s2"
  have "k \<in> fst ` set (coll_of (backend s) og c) \<longleftrightarrow> stored s og c k \<noteq> None" for k
    using set_keys_kv[of "backend s" og c] by auto
  with 1 2 show ?thesis by (auto simp: swept_def same_def)
qed

lemma wp_sweep:
  assumes wf: "wfS s"
    and Q: "\<And>s'. swept og c P s s' \<Longrightarrow> Q () s'" and E: "\<And>s'. sweeping og c P s s' \<Longrightarrow> E ErrBackend s'"
  shows "wpE (bindE (org_Range og c) (\<lambda>es. forE (filter P (map fst es)) (\<lambda>k. bindE (org_Delete og c k) (\<lambda>_. ret ())))) Q E s"
  unfolding wp
proof (rule wp_Range)
  fix s1 assume 1: "same s s1"
  with wf have wf1: "wfS s1" by (simp add: wfS_same)
  show "wpE (forE (filter P (map fst (coll_of (backend s) og c))) (\<lambda>k. bindE (org_Delete og c k) (\<lambda>_. ret ()))) Q E s1"
  proof (rule wp_delete_all[OF wf1])
    show "Q () s2" if "swept og c (\<lambda>k. k \<in> set (filter P (map fst (coll_of (backend s) og c)))) s1 s2" for s2
      by (rule Q, rule swept_filter[OF 1 that])
    show "E ErrBackend s2" if x: "sweeping og c (\<lambda>k. k \<in> set (filter P (map fst (coll_of (backend s) og c)))) s1 s2" for s2
      by (rule E, rule sweeping_mono[OF sweeping_from_same[OF 1 x]]) simp
  qed
next
  fix s1 assume "same s s1"
  then show "E ErrBackend s1" using wf by (intro E sweeping_same)
qed

section \<open>Properties\<close>

text \<open>C11. The write stream describes the store: whatever writes are made, whichever backend calls
  fail and whichever transactions abort, an observer that starts from the store's content and
  applies the events it was sent holds exactly the store's content.\<close>

theorem stream_mirrors_store:
  assumes "list_all named_op ops"
  shows "fold replay1 (drop (length (emitted s)) (emitted (run_ops ops s))) (kv (backend s))
         = kv (backend (run_ops ops s))"
  using run_ops_described[OF assms, of s] by (auto simp: described_def)

theorem stream_mirrors_store_witness:
  "fold replay1
     (drop (length (emitted (NewWithBackend NewMemoryBackend :: nat store)))
        (emitted (run_ops [OpPut ''o'' ''nodes'' ''n'' (1 :: nat),
                           OpTx [OpDelete ''o'' ''nodes'' ''n'', OpAbort ErrNotFound]]
        (NewWithBackend NewMemoryBackend))))
     (kv (backend (NewWithBackend NewMemoryBackend))) ''o'' ''nodes'' ''n'' = Some 1"
  by (subst stream_mirrors_store, simp) code_simp


end
