(* ===== verification/Chef_Json.thy ===== *)
theory Chef_Json
  imports Cinc_Prelude
begin

text \<open>JSON documents as \<^verbatim>\<open>src/internal/chefjson/chefjson.go\<close> reads and writes them.

  \<open>json\<close> is the tree of \<^verbatim>\<open>Parse\<close>: an object keeps its members in order, repeated names
  included, and a number is its literal. A Go \<^verbatim>\<open>map[string]any\<close> is an object whose names are
  distinct. The token stream of \<^verbatim>\<open>jsontext.Decoder\<close> is a list of \<open>jtok\<close>, which ends where the
  decoder reports an error or the end of input. \<open>body\<close> is a stored or received body: the tree of
  a valid JSON text, or bytes that are not JSON. How a floating-point literal is rounded and
  rendered in scientific notation (\<^verbatim>\<open>strconv.ParseFloat\<close>, \<^verbatim>\<open>AppendFloat\<close>) is the argument
  \<open>sci\<close>.\<close>

datatype json =
    JNull
  | JBool bool
  | JNum string
  | JStr string
  | JArr "json list"
  | JObj "(string \<times> json) list"

type_synonym members = "(string \<times> json) list"

datatype body = Doc json | Bytes string

datatype jtok = TObjB | TObjE | TArrB | TArrE | TStr string | TNum string | TTrue | TFalse | TNull

section \<open>Objects\<close>

fun objGet :: "members \<Rightarrow> string \<Rightarrow> json option" where
  "objGet [] name = None"
| "objGet ((n, v) # ms) name = (if n = name then Some v else objGet ms name)"

fun objSet :: "members \<Rightarrow> string \<Rightarrow> json \<Rightarrow> members" where
  "objSet [] name v = [(name, v)]"
| "objSet ((n, w) # ms) name v = (if n = name then (n, v) # ms else (n, w) # objSet ms name v)"

fun firstMembers :: "json \<Rightarrow> json" and firstOf :: "string list \<Rightarrow> members \<Rightarrow> members" where
  "firstMembers (JObj ms) = JObj (firstOf [] ms)"
| "firstMembers (JArr es) = JArr (map firstMembers es)"
| "firstMembers v = v"
| "firstOf seen [] = []"
| "firstOf seen ((n, v) # ms) =
     (if n \<in> set seen then firstOf seen ms else (n, firstMembers v) # firstOf (n # seen) ms)"

text \<open>\<^verbatim>\<open>HasRepeatedNames\<close>: some object, at some depth, repeats a name.\<close>

fun hasRepeatedNames :: "json \<Rightarrow> bool" where
  "hasRepeatedNames (JObj ms) =
     (\<not> distinct (map fst ms) \<or> list_ex (\<lambda>(n, v). hasRepeatedNames v) ms)"
| "hasRepeatedNames (JArr es) = list_ex hasRepeatedNames es"
| "hasRepeatedNames _ = False"

definition HasRepeatedNames :: "body \<Rightarrow> bool" where
  "HasRepeatedNames b = (case b of Doc j \<Rightarrow> hasRepeatedNames j | Bytes _ \<Rightarrow> True)"

section \<open>Token streams\<close>

fun tokens_of :: "json \<Rightarrow> jtok list" where
  "tokens_of (JObj ms) = TObjB # concat (map (\<lambda>(n, v). TStr n # tokens_of v) ms) @ [TObjE]"
| "tokens_of (JArr es) = TArrB # concat (map tokens_of es) @ [TArrE]"
| "tokens_of (JStr s) = [TStr s]"
| "tokens_of (JNum n) = [TNum n]"
| "tokens_of (JBool b) = [if b then TTrue else TFalse]"
| "tokens_of JNull = [TNull]"

text \<open>\<^verbatim>\<open>dec.SkipValue\<close>: past one value. \<open>d\<close> counts the open containers.\<close>

fun skipValue :: "nat \<Rightarrow> jtok list \<Rightarrow> jtok list option" where
  "skipValue d [] = None"
| "skipValue d (t # ts) =
     (let d' = (if t = TObjB \<or> t = TArrB then d + 1 else if t = TObjE \<or> t = TArrE then d - 1 else d)
      in if d' = 0 then Some ts else skipValue d' ts)"

text \<open>\<^verbatim>\<open>decode\<close>, with \<open>ordered\<close> selecting the tree of \<^verbatim>\<open>Parse\<close> over the first-member-wins map of
  \<^verbatim>\<open>DecodeObject\<close>. The first argument bounds the recursion; \<open>decodeOne\<close> passes enough.\<close>

fun decode :: "nat \<Rightarrow> bool \<Rightarrow> jtok list \<Rightarrow> (json \<times> jtok list) option"
  and decodeObj :: "nat \<Rightarrow> bool \<Rightarrow> members \<Rightarrow> jtok list \<Rightarrow> (json \<times> jtok list) option"
  and decodeArr :: "nat \<Rightarrow> bool \<Rightarrow> json list \<Rightarrow> jtok list \<Rightarrow> (json \<times> jtok list) option" where
  "decode 0 ordered ts = None"
| "decode (Suc n) ordered [] = None"
| "decode (Suc n) ordered (t # ts) = (case t of
     TObjB \<Rightarrow> decodeObj n ordered [] ts
   | TArrB \<Rightarrow> decodeArr n ordered [] ts
   | TStr s \<Rightarrow> Some (JStr s, ts)
   | TNum l \<Rightarrow> Some (JNum l, ts)
   | TTrue \<Rightarrow> Some (JBool True, ts)
   | TFalse \<Rightarrow> Some (JBool False, ts)
   | TNull \<Rightarrow> Some (JNull, ts)
   | _ \<Rightarrow> None)"
| "decodeObj 0 ordered ms ts = None"
| "decodeObj (Suc n) ordered ms [] = None"
| "decodeObj (Suc n) ordered ms (t # ts) = (case t of
     TObjE \<Rightarrow> Some (JObj ms, ts)
   | TStr name \<Rightarrow>
       (if \<not> ordered \<and> objGet ms name \<noteq> None then
          (case skipValue 0 ts of None \<Rightarrow> None | Some ts' \<Rightarrow> decodeObj n ordered ms ts')
        else (case decode n ordered ts of
            None \<Rightarrow> None
          | Some (v, ts') \<Rightarrow> decodeObj n ordered (ms @ [(name, v)]) ts'))
   | _ \<Rightarrow> None)"
| "decodeArr 0 ordered es ts = None"
| "decodeArr (Suc n) ordered es [] = None"
| "decodeArr (Suc n) ordered es (t # ts) =
     (if t = TArrE then Some (JArr es, ts)
      else (case decode n ordered (t # ts) of
          None \<Rightarrow> None
        | Some (v, ts') \<Rightarrow> decodeArr n ordered (es @ [v]) ts'))"

definition decodeOne :: "bool \<Rightarrow> jtok list \<Rightarrow> json option" where
  "decodeOne ordered ts =
     (case decode (2 * length ts + 1) ordered ts of
        Some (v, []) \<Rightarrow> Some v
      | _ \<Rightarrow> None)"

fun bodyTokens :: "body \<Rightarrow> jtok list" where
  "bodyTokens (Doc j) = tokens_of j"
| "bodyTokens (Bytes _) = []"

definition ParseJson :: "body \<Rightarrow> json option" where
  "ParseJson b = decodeOne True (bodyTokens b)"

definition DecodeObject :: "body \<Rightarrow> members option" where
  "DecodeObject b = (case decodeOne False (bodyTokens b) of Some (JObj ms) \<Rightarrow> Some ms | _ \<Rightarrow> None)"

text \<open>\<^verbatim>\<open>String(doc, name)\<close>: the first member called \<open>name\<close>, when it is a string.\<close>

fun stringMember :: "nat \<Rightarrow> jtok list \<Rightarrow> string \<Rightarrow> string option" where
  "stringMember 0 ts name = None"
| "stringMember (Suc n) ts name = (case ts of
     TStr key # ts' \<Rightarrow>
       (if key \<noteq> name then
          (case skipValue 0 ts' of None \<Rightarrow> None | Some ts'' \<Rightarrow> stringMember n ts'' name)
        else (case ts' of TStr v # _ \<Rightarrow> Some v | _ \<Rightarrow> None))
   | _ \<Rightarrow> None)"

definition docString :: "body \<Rightarrow> string \<Rightarrow> string option" where
  "docString b name = (case bodyTokens b of
     TObjB # ts \<Rightarrow> stringMember (length ts) ts name
   | _ \<Rightarrow> None)"

section \<open>Reading with encoding/json\<close>

text \<open>\<^verbatim>\<open>json.Unmarshal\<close> into a \<^verbatim>\<open>map[string]any\<close>: the last member of a repeated name wins, and null
  decodes to the nil map, which reads as empty. Numbers keep their literal here.\<close>

fun lastMembers :: "json \<Rightarrow> json" where
  "lastMembers (JObj ms) = JObj (fold (\<lambda>(n, v) acc. AList.update n (lastMembers v) acc) ms [])"
| "lastMembers (JArr es) = JArr (map lastMembers es)"
| "lastMembers v = v"

definition UnmarshalMap :: "body \<Rightarrow> members option" where
  "UnmarshalMap b = (case b of
     Doc j \<Rightarrow> (case lastMembers j of JObj ms \<Rightarrow> Some ms | JNull \<Rightarrow> Some [] | _ \<Rightarrow> None)
   | Bytes _ \<Rightarrow> None)"

text \<open>\<^verbatim>\<open>jsonStrings\<close> (\<^verbatim>\<open>authz.go\<close>): the strings of a decoded array; anything else yields none.\<close>

definition jsonStrings :: "json option \<Rightarrow> string list" where
  "jsonStrings v = (case v of
     Some (JArr es) \<Rightarrow> concat (map (\<lambda>e. case e of JStr s \<Rightarrow> [s] | _ \<Rightarrow> []) es)
   | _ \<Rightarrow> [])"

text \<open>\<^verbatim>\<open>json.Unmarshal\<close> into a struct field of type \<^verbatim>\<open>[]string\<close>: member names match without regard to
  case, the last one wins, null leaves the empty list (a null element the empty string), and any
  other shape is an error of the whole decode.\<close>

fun typedStrings :: "json \<Rightarrow> string list option" where
  "typedStrings JNull = Some []"
| "typedStrings (JArr es) = those (map (\<lambda>e. case e of JStr s \<Rightarrow> Some s | JNull \<Rightarrow> Some [] | _ \<Rightarrow> None) es)"
| "typedStrings _ = None"

definition membersFold :: "members \<Rightarrow> string \<Rightarrow> json list" where
  "membersFold ms name = map snd (filter (\<lambda>(n, _). toLower n = name) ms)"

definition typedField :: "members \<Rightarrow> string \<Rightarrow> string list option" where
  "typedField ms name =
     (case those (map typedStrings (membersFold ms name)) of
        None \<Rightarrow> None
      | Some vs \<Rightarrow> Some (if vs = [] then [] else last vs))"

section \<open>Writing\<close>

definition hexUpper :: string where
  "hexUpper = ''0123456789ABCDEF''"

definition escapeChar :: "char \<Rightarrow> string" where
  "escapeChar c =
     (if CHR 0x20 \<le> c \<and> c \<noteq> CHR 0x22 \<and> c \<noteq> CHR 0x5C then [c]
      else if c = CHR 0x22 \<or> c = CHR 0x5C then [CHR 0x5C, c]
      else if c = CHR 0x08 then [CHR 0x5C, CHR ''b'']
      else if c = CHR 0x0C then [CHR 0x5C, CHR ''f'']
      else if c = CHR 0x0A then [CHR 0x5C, CHR ''n'']
      else if c = CHR 0x0D then [CHR 0x5C, CHR ''r'']
      else if c = CHR 0x09 then [CHR 0x5C, CHR ''t'']
      else [CHR 0x5C, CHR ''u'', CHR ''0'', CHR ''0'',
            hexUpper ! (of_char c div 16), hexUpper ! (of_char c mod 16)])"

definition appendString :: "string \<Rightarrow> string" where
  "appendString s = CHR 0x22 # concat (map escapeChar s) @ [CHR 0x22]"

text \<open>A literal read as a double: none when it is out of range, else whether its magnitude is
  below the least normal double, its sign, and the shortest digits \<open>d1 d2 ...\<close> and exponent of
  \<open>d1.d2... * 10^e\<close>.\<close>

type_synonym sci = "string \<Rightarrow> (bool \<times> bool \<times> string \<times> int) option"

fun itoaNat :: "nat \<Rightarrow> string" where
  "itoaNat n = (if n < 10 then [char_of (48 + n)] else itoaNat (n div 10) @ [char_of (48 + n mod 10)])"

declare itoaNat.simps [simp del]

definition itoa :: "int \<Rightarrow> string" where
  "itoa i = (if i < 0 then CHR ''-'' # itoaNat (nat (- i)) else itoaNat (nat i))"

fun appendFloat :: "bool \<times> bool \<times> string \<times> int \<Rightarrow> string" where
  "appendFloat (tiny, neg, digits, e) =
     (if tiny then ''0.0''
      else (if neg then ''-'' else []) @
       (let k = int (length digits); n = e + 1 in
        if k \<le> n \<and> n \<le> 21 then digits @ replicate (nat (n - k)) CHR ''0'' @ ''.0''
        else if 0 < n \<and> n \<le> 21 then take (nat n) digits @ ''.'' @ drop (nat n) digits
        else if -6 < n \<and> n \<le> 0 then ''0.'' @ replicate (nat (- n)) CHR ''0'' @ digits
        else take 1 digits @ (if k > 1 then ''.'' @ drop 1 digits else []) @ ''e'' @
             (if n - 1 > 0 then ''+'' else []) @ itoa (n - 1)))"

definition appendNumber :: "sci \<Rightarrow> string \<Rightarrow> string option" where
  "appendNumber sc lit =
     (if \<not> list_ex (\<lambda>c. c \<in> set ''.eE'') lit then Some (if lit = ''-0'' then ''0'' else lit)
      else map_option appendFloat (sc lit))"

fun appendValue :: "sci \<Rightarrow> json \<Rightarrow> string"
  and appendMembers :: "sci \<Rightarrow> bool \<Rightarrow> members \<Rightarrow> string"
  and appendElems :: "sci \<Rightarrow> bool \<Rightarrow> json list \<Rightarrow> string" where
  "appendValue sc (JObj ms) = ''{'' @ appendMembers sc True ms @ ''}''"
| "appendValue sc (JArr es) = ''['' @ appendElems sc True es @ '']''"
| "appendValue sc (JStr s) = appendString s"
| "appendValue sc (JNum l) = (case appendNumber sc l of Some out \<Rightarrow> out | None \<Rightarrow> l)"
| "appendValue sc (JBool b) = (if b then ''true'' else ''false'')"
| "appendValue sc JNull = ''null''"
| "appendMembers sc first [] = []"
| "appendMembers sc first ((n, v) # ms) =
     (if first then [] else '','') @ appendString n @ '':'' @ appendValue sc v @ appendMembers sc False ms"
| "appendElems sc first [] = []"
| "appendElems sc first (e # es) = (if first then [] else '','') @ appendValue sc e @ appendElems sc False es"

definition MarshalJson :: "sci \<Rightarrow> json \<Rightarrow> string" where
  "MarshalJson sc j = appendValue sc j"

text \<open>\<^verbatim>\<open>Normalize\<close>: one pass over the tokens with a stack of open containers, each with the number
  of tokens it has held. A string literal without escapes is copied; it is its own escaped form.\<close>

fun punct :: "(bool \<times> nat) list \<Rightarrow> string" where
  "punct [] = []"
| "punct ((object, n) # stack) = (if object \<and> n mod 2 = 1 then '':'' else if n > 0 then '','' else [])"

fun bumpTop :: "(bool \<times> nat) list \<Rightarrow> (bool \<times> nat) list" where
  "bumpTop [] = []"
| "bumpTop ((object, n) # stack) = (object, n + 1) # stack"

definition normStep :: "sci \<Rightarrow> (bool \<times> nat) list \<Rightarrow> string \<Rightarrow> jtok \<Rightarrow> ((bool \<times> nat) list \<times> string) option" where
  "normStep sc stack out t =
     (if t = TObjE \<or> t = TArrE then
        (case stack of [] \<Rightarrow> None
         | _ # rest \<Rightarrow> Some (rest, out @ (if t = TObjE then ''}'' else '']'')))
      else
        (let out1 = out @ punct stack; stack1 = bumpTop stack in
         case t of
           TStr s \<Rightarrow> Some (stack1, out1 @ appendString s)
         | TNum l \<Rightarrow> map_option (\<lambda>txt. (stack1, out1 @ txt)) (appendNumber sc l)
         | TObjB \<Rightarrow> Some ((True, 0) # stack1, out1 @ ''{'')
         | TArrB \<Rightarrow> Some ((False, 0) # stack1, out1 @ ''['')
         | TTrue \<Rightarrow> Some (stack1, out1 @ ''true'')
         | TFalse \<Rightarrow> Some (stack1, out1 @ ''false'')
         | _ \<Rightarrow> Some (stack1, out1 @ ''null'')))"

fun normLoop :: "sci \<Rightarrow> (bool \<times> nat) list \<Rightarrow> string \<Rightarrow> jtok list \<Rightarrow> string option" where
  "normLoop sc stack out [] = None"
| "normLoop sc stack out (t # ts) =
     (case normStep sc stack out t of
        None \<Rightarrow> None
      | Some (stack', out') \<Rightarrow>
          if stack' = [] then (if ts = [] then Some out' else None)
          else normLoop sc stack' out' ts)"

definition NormalizeJson :: "sci \<Rightarrow> jtok list \<Rightarrow> string option" where
  "NormalizeJson sc ts = normLoop sc [] [] ts"

section \<open>The tree decoder inverts the token stream\<close>

lemma objGet_map_of: "objGet ms n = map_of ms n"
  by (induction ms) auto

lemma objSet_update: "objSet ms n v = AList.update n v ms"
  by (induction ms) auto

lemma tokens_of_nonempty [simp]: "tokens_of j \<noteq> []"
  by (cases j) auto

abbreviation member_toks :: "members \<Rightarrow> jtok list" where
  "member_toks ms \<equiv> concat (map (\<lambda>(n, v). TStr n # tokens_of v) ms)"

lemma skipValue_members:
  assumes "\<And>n v d rest. (n, v) \<in> set ms \<Longrightarrow>
      skipValue d (tokens_of v @ rest) = (if d = 0 then Some rest else skipValue d rest)"
  shows "skipValue (Suc d) (member_toks ms @ rest) = skipValue (Suc d) rest"
  using assms
proof (induction ms)
  case (Cons m ms)
  have "skipValue (Suc d) (member_toks ms @ rest) = skipValue (Suc d) rest"
    by (rule Cons.IH) (rule Cons.prems[OF list.set_intros(2)])
  then show ?case
    using Cons.prems[of "fst m" "snd m" "Suc d"] by (cases m) (simp add: Let_def)
qed simp

lemma skipValue_elements:
  assumes "\<And>v d rest. v \<in> set es \<Longrightarrow>
      skipValue d (tokens_of v @ rest) = (if d = 0 then Some rest else skipValue d rest)"
  shows "skipValue (Suc d) (concat (map tokens_of es) @ rest) = skipValue (Suc d) rest"
  using assms by (induction es) auto

lemma skipValue_tokens [simp]:
  "skipValue d (tokens_of j @ rest) = (if d = 0 then Some rest else skipValue d rest)"
proof (induction j arbitrary: d rest rule: tokens_of.induct)
  case (1 ms)
  then have "skipValue (Suc d) (member_toks ms @ TObjE # rest) = skipValue (Suc d) (TObjE # rest)"
    by (intro skipValue_members) blast
  then show ?case by (simp add: Let_def)
next
  case (2 es)
  then have "skipValue (Suc d) (concat (map tokens_of es) @ TArrE # rest) = skipValue (Suc d) (TArrE # rest)"
    by (intro skipValue_elements) blast
  then show ?case by (simp add: Let_def)
qed (auto simp: Let_def)

lemma firstOf_cong: "set seen = set seen' \<Longrightarrow> firstOf seen ms = firstOf seen' ms"
proof (induction ms arbitrary: seen seen')
  case (Cons m ms)
  from Cons.IH[of "fst m # seen" "fst m # seen'"] Cons.IH[OF Cons.prems] Cons.prems
  show ?case by (cases m) simp
qed simp

lemma decodeObj_members:
  assumes "\<And>n v k rest. (n, v) \<in> set ms \<Longrightarrow> length (tokens_of v) \<le> k \<Longrightarrow>
      decode k ordered (tokens_of v @ rest) = Some (if ordered then v else firstMembers v, rest)"
    and "length (member_toks ms) + 1 \<le> k"
  shows "decodeObj k ordered acc (member_toks ms @ TObjE # rest) =
    Some (JObj (acc @ (if ordered then ms else firstOf (map fst acc) ms)), rest)"
  using assms
proof (induction ms arbitrary: k acc)
  case Nil
  then obtain k' where "k = Suc k'" by (cases k) auto
  then show ?case by simp
next
  case (Cons m ms)
  obtain n v where m: "m = (n, v)" by fastforce
  from Cons.prems(2) obtain k' where k: "k = Suc k'" and k': "length (tokens_of v) + length (member_toks ms) + 1 \<le> k'"
    by (cases k) (auto simp: m)
  have IH: "decodeObj k' ordered acc' (member_toks ms @ TObjE # rest) =
      Some (JObj (acc' @ (if ordered then ms else firstOf (map fst acc') ms)), rest)" for acc'
    by (rule Cons.IH, rule Cons.prems(1)[OF list.set_intros(2)], assumption+) (use k' in simp)
  have v: "decode k' ordered (tokens_of v @ rest') = Some (if ordered then v else firstMembers v, rest')" for rest'
    using Cons.prems(1)[of n v k' rest'] k' m by simp
  have seen: "objGet acc n \<noteq> None \<longleftrightarrow> n \<in> set (map fst acc)"
    by (auto simp: objGet_map_of map_of_eq_None_iff)
  have "firstOf (map fst acc @ [n]) ms = firstOf (n # map fst acc) ms"
    by (rule firstOf_cong) auto
  with seen IH v show ?case
    by (cases ordered) (simp_all add: m k)
qed

lemma decodeArr_elements:
  assumes "\<And>v k rest. v \<in> set es \<Longrightarrow> length (tokens_of v) \<le> k \<Longrightarrow>
      decode k ordered (tokens_of v @ rest) = Some (if ordered then v else firstMembers v, rest)"
    and "length (concat (map tokens_of es)) + 1 \<le> k"
  shows "decodeArr k ordered acc (concat (map tokens_of es) @ TArrE # rest) =
    Some (JArr (acc @ (if ordered then es else map firstMembers es)), rest)"
  using assms
proof (induction es arbitrary: k acc)
  case Nil
  then obtain k' where "k = Suc k'" by (cases k) auto
  then show ?case by simp
next
  case (Cons v es)
  obtain t ts where v: "tokens_of v = t # ts" by (cases "tokens_of v") auto
  then have "t \<noteq> TArrE" by (cases v) (auto split: if_splits)
  moreover from Cons.prems(2) obtain k' where k: "k = Suc k'"
    and k': "length (tokens_of v) + length (concat (map tokens_of es)) \<le> k'"
    by (cases k) auto
  moreover have "length (concat (map tokens_of es)) + 1 \<le> k'"
    using k' v by simp
  then have "decodeArr k' ordered acc' (concat (map tokens_of es) @ TArrE # rest) =
      Some (JArr (acc' @ (if ordered then es else map firstMembers es)), rest)" for acc'
    by (intro Cons.IH Cons.prems(1)[OF list.set_intros(2)])
  moreover have "decode k' ordered (tokens_of v @ rest') = Some (if ordered then v else firstMembers v, rest')" for rest'
    using Cons.prems(1)[of v k' rest'] k' by simp
  ultimately show ?case by (simp add: v)
qed

lemma decode_tokens:
  "length (tokens_of j) \<le> k \<Longrightarrow>
   decode k ordered (tokens_of j @ rest) = Some (if ordered then j else firstMembers j, rest)"
proof (induction j arbitrary: k rest rule: tokens_of.induct)
  case (1 ms)
  then obtain k' where "k = Suc k'" by (cases k) auto
  with 1 show ?case by (auto simp: decodeObj_members)
next
  case (2 es)
  then obtain k' where "k = Suc k'" by (cases k) auto
  with 2 show ?case by (auto simp: decodeArr_elements)
next
  case (3 s)
  then show ?case by (cases k) auto
next
  case (4 n)
  then show ?case by (cases k) auto
next
  case (5 b)
  then show ?case by (cases k) auto
next
  case 6
  then show ?case by (cases k) auto
qed

lemma decodeOne_tokens: "decodeOne ordered (tokens_of j) = Some (if ordered then j else firstMembers j)"
  using decode_tokens[of j "2 * length (tokens_of j) + 1" ordered "[]"] by (simp add: decodeOne_def)

lemma decodeOne_Nil [simp]: "decodeOne ordered [] = None"
  by (simp add: decodeOne_def)

lemma ParseJson_simps [simp]: "ParseJson (Doc j) = Some j" "ParseJson (Bytes b) = None"
  by (simp_all add: ParseJson_def decodeOne_tokens)

lemma DecodeObject_simps [simp]:
  "DecodeObject (Doc (JObj ms)) = Some (firstOf [] ms)"
  "DecodeObject (Doc (JArr es)) = None" "DecodeObject (Doc (JStr s)) = None"
  "DecodeObject (Doc (JNum l)) = None" "DecodeObject (Doc (JBool b)) = None"
  "DecodeObject (Doc JNull) = None" "DecodeObject (Bytes bs) = None"
  by (simp_all add: DecodeObject_def decodeOne_tokens del: tokens_of.simps)

lemma firstOf_lookup:
  "n \<notin> set seen \<Longrightarrow> map_of (firstOf seen ms) n = map_option firstMembers (objGet ms n)"
  by (induction ms arbitrary: seen) auto

lemma firstOf_names: "fst ` set (firstOf seen ms) = fst ` set ms - set seen"
  by (induction ms arbitrary: seen) force+

lemma firstOf_distinct: "distinct (map fst (firstOf seen ms))"
proof (induction ms arbitrary: seen)
  case (Cons m ms)
  then show ?case
    by (cases m) (simp add: firstOf_names)
qed simp

lemma firstOf_id:
  "distinct (map fst ms) \<Longrightarrow> fst ` set ms \<inter> set seen = {} \<Longrightarrow>
   \<forall>(n, v) \<in> set ms. firstMembers v = v \<Longrightarrow> firstOf seen ms = ms"
proof (induction ms arbitrary: seen)
  case (Cons m ms)
  then show ?case using Cons.IH[of "fst m # seen"] by (cases m) auto
qed simp

lemma firstMembers_idem_on_distinct:
  "\<not> hasRepeatedNames j \<Longrightarrow> firstMembers j = j"
proof (induction j rule: hasRepeatedNames.induct)
  case (1 ms)
  have "\<forall>(n, v) \<in> set ms. firstMembers v = v"
    using 1 by (auto simp: list_ex_iff)
  then show ?case using 1 by (simp add: firstOf_id)
next
  case (2 es)
  then show ?case by (auto simp: list_ex_iff intro: map_idI)
qed auto

lemma stringMember_members:
  "length (member_toks ms) < k \<Longrightarrow>
   stringMember k (member_toks ms @ TObjE # rest) name =
     (case objGet ms name of Some (JStr v) \<Rightarrow> Some v | _ \<Rightarrow> None)"
proof (induction ms arbitrary: k)
  case Nil
  then show ?case by (cases k) auto
next
  case (Cons m ms)
  obtain n v where m: "m = (n, v)" by fastforce
  from Cons.prems obtain k' where k: "k = Suc k'" and "length (member_toks ms) < k'"
    by (cases k) (auto simp: m)
  with Cons.IH[of k'] show ?case
    using skipValue_tokens[of 0 v "member_toks ms @ TObjE # rest"]
    by (cases v) (auto simp: m k simp del: skipValue.simps skipValue_tokens)
qed

section \<open>Streaming normalisation agrees with the tree writer\<close>

text \<open>Every number of the document is in the range of a double.\<close>

fun numbersOk :: "sci \<Rightarrow> json \<Rightarrow> bool" where
  "numbersOk sc (JObj ms) = list_all (\<lambda>(n, v). numbersOk sc v) ms"
| "numbersOk sc (JArr es) = list_all (numbersOk sc) es"
| "numbersOk sc (JNum l) = (appendNumber sc l \<noteq> None)"
| "numbersOk sc _ = True"

definition normCont :: "sci \<Rightarrow> (bool \<times> nat) list \<Rightarrow> string \<Rightarrow> jtok list \<Rightarrow> string option" where
  "normCont sc stack out ts =
     (if stack = [] then (if ts = [] then Some out else None) else normLoop sc stack out ts)"

definition normalizes :: "sci \<Rightarrow> json \<Rightarrow> bool" where
  "normalizes sc j = (\<forall>stack out ts. normLoop sc stack out (tokens_of j @ ts) =
     (if numbersOk sc j then normCont sc (bumpTop stack) (out @ punct stack @ appendValue sc j) ts
      else None))"

lemma normLoop_members:
  assumes "\<forall>(n, v) \<in> set ms. normalizes sc v" and "even n"
  shows "normLoop sc ((True, n) # stack) out (member_toks ms @ TObjE # ts) =
    (if numbersOk sc (JObj ms) then normCont sc stack (out @ appendMembers sc (n = 0) ms @ ''}'') ts else None)"
  using assms
proof (induction ms arbitrary: n out)
  case Nil
  then show ?case by (simp add: normStep_def normCont_def)
next
  case (Cons m ms)
  obtain name v where m: "m = (name, v)" by fastforce
  with Cons.prems(1) have v: "normalizes sc v" by simp
  have "even (Suc (Suc n))" using Cons.prems(2) by simp
  note IH = Cons.IH[OF _ this]
  have "Suc n mod 2 = 1" "n mod 2 = 0" using Cons.prems(2) by presburger+
  with IH v Cons.prems(1) show ?case
    by (simp add: m normStep_def normalizes_def normCont_def)
qed

lemma normLoop_elements:
  assumes "\<forall>v \<in> set es. normalizes sc v"
  shows "normLoop sc ((False, n) # stack) out (concat (map tokens_of es) @ TArrE # ts) =
    (if numbersOk sc (JArr es) then normCont sc stack (out @ appendElems sc (n = 0) es @ '']'') ts else None)"
  using assms
proof (induction es arbitrary: n out)
  case Nil
  then show ?case by (simp add: normStep_def normCont_def)
next
  case (Cons v es)
  then have v: "normalizes sc v" by simp
  with Cons show ?case
    by (simp add: normStep_def normalizes_def normCont_def)
qed

lemma normalizes_all: "normalizes sc j"
proof (induction j rule: tokens_of.induct)
  case (1 ms)
  then have "\<forall>(n, v) \<in> set ms. normalizes sc v" by blast
  from normLoop_members[OF this, of 0] show ?case
    by (auto simp: normalizes_def normStep_def Let_def)
next
  case (2 es)
  then have "\<forall>v \<in> set es. normalizes sc v" by blast
  from normLoop_elements[OF this, of 0] show ?case
    by (auto simp: normalizes_def normStep_def Let_def)
qed (auto simp: normalizes_def normStep_def normCont_def Let_def)

section \<open>Properties\<close>


text \<open>Decoding is total on JSON documents and exact: \<^verbatim>\<open>Parse\<close> returns the document's tree with
  every member, repeats and order kept, and \<^verbatim>\<open>DecodeObject\<close>'s decoder returns the tree in which every
  object, at every depth, keeps only the first member of each name.\<close>

theorem decode_exact:
  "decodeOne True (tokens_of j) = Some j \<and> decodeOne False (tokens_of j) = Some (firstMembers j)"
  by (simp add: decodeOne_tokens)

text \<open>Reading one string member directly from the text (\<^verbatim>\<open>String\<close>) agrees with reading it from
  the decoded object: both see the first member of that name.\<close>

theorem docString_agrees_with_DecodeObject:
  "docString b name =
     (case DecodeObject b of
        None \<Rightarrow> None
      | Some ms \<Rightarrow> (case map_of ms name of Some (JStr v) \<Rightarrow> Some v | _ \<Rightarrow> None))"
proof (cases b)
  case (Doc j)
  show ?thesis
  proof (cases j)
    case (JObj ms)
    have "docString b name = (case objGet ms name of Some (JStr v) \<Rightarrow> Some v | _ \<Rightarrow> None)"
      using stringMember_members[of ms "length (member_toks ms @ [TObjE])" "[]" name]
      by (simp add: docString_def Doc JObj)
    moreover have "map_of (firstOf [] ms) name = map_option firstMembers (objGet ms name)"
      by (rule firstOf_lookup) simp
    ultimately show ?thesis
      by (auto simp: Doc JObj split: option.split json.splits)
  qed (auto simp: docString_def Doc)
qed (simp add: docString_def)

end
