(* ===== verification/Run_List.thy ===== *)
theory Run_List
  imports Chef_Json
begin

text \<open>Run lists in canonical form: \<^verbatim>\<open>src/internal/runlist/runlist.go\<close>. \<open>normalizeDoc\<close> rewrites a node
  or role document only when the token scan \<open>needsChange\<close> finds a list that is not canonical;
  \<open>rewriteDoc\<close> is the reference that always rewrites.\<close>

definition qualify :: "string \<Rightarrow> string" where
  "qualify item =
     (if hasPrefix item ''recipe['' \<or> hasPrefix item ''role['' then item
      else ''recipe['' @ item @ '']'')"

fun normItems :: "string list \<Rightarrow> string list \<Rightarrow> string list" where
  "normItems seen [] = []"
| "normItems seen (i # is) =
     (let item = qualify i in
      if item \<in> set seen then normItems seen is else item # normItems (item # seen) is)"

definition Normalize :: "string list \<Rightarrow> string list" where
  "Normalize items = normItems [] items"

fun stringList :: "json \<Rightarrow> string list option" where
  "stringList (JArr es) =
     those (map (\<lambda>e. case e of JStr s \<Rightarrow> Some s | _ \<Rightarrow> None) es)"
| "stringList _ = None"

definition toAny :: "string list \<Rightarrow> json" where
  "toAny items = JArr (map JStr items)"

definition listChanges :: "json \<Rightarrow> bool" where
  "listChanges v = (case stringList v of None \<Rightarrow> False | Some items \<Rightarrow> Normalize items \<noteq> items)"

fun envListsChange :: "json \<Rightarrow> bool" where
  "envListsChange (JObj ms) = list_ex (\<lambda>(n, v). listChanges v) ms"
| "envListsChange _ = False"

text \<open>The scan: the first \<^verbatim>\<open>run_list\<close> member and, for a role, the first \<^verbatim>\<open>env_run_lists\<close> member are
  decoded, everything else is skipped.\<close>

fun needsLoop :: "nat \<Rightarrow> bool \<Rightarrow> bool \<Rightarrow> bool \<Rightarrow> jtok list \<Rightarrow> bool" where
  "needsLoop 0 role seenRL seenEnv ts = False"
| "needsLoop (Suc n) role seenRL seenEnv ts = (case ts of
     TStr name # ts' \<Rightarrow>
       (if name = ''run_list'' \<and> \<not> seenRL then
          (case decode (length ts') True ts' of None \<Rightarrow> False
           | Some (v, rest) \<Rightarrow> if listChanges v then True else needsLoop n role True seenEnv rest)
        else if name = ''env_run_lists'' \<and> role \<and> \<not> seenEnv then
          (case decode (length ts') True ts' of None \<Rightarrow> False
           | Some (v, rest) \<Rightarrow> if envListsChange v then True else needsLoop n role seenRL True rest)
        else (case skipValue 0 ts' of None \<Rightarrow> False
              | Some rest \<Rightarrow> needsLoop n role seenRL seenEnv rest))
   | _ \<Rightarrow> False)"

definition needsChange :: "body \<Rightarrow> bool \<Rightarrow> bool" where
  "needsChange doc role = (case bodyTokens doc of
     TObjB # ts \<Rightarrow> needsLoop (length ts) role False False ts
   | _ \<Rightarrow> False)"

definition normList :: "json \<Rightarrow> json" where
  "normList v = (case stringList v of None \<Rightarrow> v | Some items \<Rightarrow> toAny (Normalize items))"

definition normEnvs :: "json \<Rightarrow> json" where
  "normEnvs v = (case v of JObj ms \<Rightarrow> JObj (map (\<lambda>(n, w). (n, normList w)) ms) | _ \<Rightarrow> v)"

definition rewriteObj :: "bool \<Rightarrow> members \<Rightarrow> members" where
  "rewriteObj role obj =
     (let obj1 = (case objGet obj ''run_list'' of
                    None \<Rightarrow> obj | Some v \<Rightarrow> (case stringList v of None \<Rightarrow> obj
                      | Some items \<Rightarrow> objSet obj ''run_list'' (toAny (Normalize items))))
      in if role then
           (case objGet obj1 ''env_run_lists'' of
              Some (JObj ms) \<Rightarrow> objSet obj1 ''env_run_lists'' (normEnvs (JObj ms))
            | _ \<Rightarrow> obj1)
         else obj1)"

definition normalizeDoc :: "body \<Rightarrow> bool \<Rightarrow> body option" where
  "normalizeDoc doc role =
     (if \<not> needsChange doc role then Some doc
      else (case ParseJson doc of
          None \<Rightarrow> None
        | Some (JObj obj) \<Rightarrow> Some (Doc (JObj (rewriteObj role obj)))
        | Some _ \<Rightarrow> Some doc))"

definition NormalizeNode :: "body \<Rightarrow> body option" where
  "NormalizeNode doc = normalizeDoc doc False"

definition NormalizeRole :: "body \<Rightarrow> body option" where
  "NormalizeRole doc = normalizeDoc doc True"

text \<open>The reference: rewrite every time.\<close>

definition rewriteDoc :: "body \<Rightarrow> bool \<Rightarrow> body" where
  "rewriteDoc doc role =
     (case doc of Doc (JObj obj) \<Rightarrow> Doc (JObj (rewriteObj role obj)) | _ \<Rightarrow> doc)"

section \<open>Canonical lists\<close>

lemma qualify_idem [simp]: "qualify (qualify i) = qualify i"
proof -
  have "hasPrefix (''recipe['' @ x) ''recipe[''" for x by (rule hasPrefix_append)
  then show ?thesis by (simp add: qualify_def)
qed

lemma set_normItems: "set (normItems seen is) = qualify ` set is - set seen"
  by (induction seen "is" rule: normItems.induct) (auto simp: Let_def)

lemma distinct_normItems: "distinct (normItems seen is)"
  by (induction seen "is" rule: normItems.induct) (auto simp: Let_def set_normItems)

lemma normItems_fixed:
  "distinct is \<Longrightarrow> set is \<inter> set seen = {} \<Longrightarrow> \<forall>i \<in> set is. qualify i = i \<Longrightarrow> normItems seen is = is"
  by (induction seen "is" rule: normItems.induct) (auto simp: Let_def)

lemma Normalize_idem [simp]: "Normalize (Normalize items) = Normalize items"
  unfolding Normalize_def
  by (rule normItems_fixed) (auto simp: distinct_normItems set_normItems)

lemma Normalize_eq_iff:
  "Normalize items = items \<longleftrightarrow> distinct items \<and> (\<forall>i \<in> set items. qualify i = i)"
proof
  assume "Normalize items = items"
  then show "distinct items \<and> (\<forall>i \<in> set items. qualify i = i)"
    using distinct_normItems[of "[]" items] set_normItems[of "[]" items]
    by (force simp: Normalize_def)
qed (auto simp: Normalize_def intro: normItems_fixed)

section \<open>The scan and the rewrite\<close>

lemma those_Some_map: "those (map f xs) = Some ys \<Longrightarrow> map f xs = map Some ys"
  by (induction xs arbitrary: ys) (auto split: option.splits)

lemma those_map_Some [simp]: "those (map Some ys) = Some ys"
  by (induction ys) auto

lemma stringList_toAny [simp]: "stringList (toAny items) = Some items"
  by (simp add: toAny_def comp_def)

lemma stringList_Some: "stringList v = Some items \<Longrightarrow> v = toAny items"
proof (cases v)
  case (JArr es)
  assume "stringList v = Some items"
  then have "map (\<lambda>e. case e of JStr s \<Rightarrow> Some s | _ \<Rightarrow> None) es = map Some items"
    using JArr those_Some_map by fastforce
  then have "es = map JStr items"
    by (induction es arbitrary: items) (auto split: json.splits)
  then show ?thesis by (simp add: JArr toAny_def)
qed auto

lemma normList_unchanged: "\<not> listChanges v \<Longrightarrow> normList v = v"
  by (auto simp: listChanges_def normList_def split: option.splits dest: stringList_Some)

lemma normEnvs_unchanged: "\<not> envListsChange v \<Longrightarrow> normEnvs v = v"
  by (cases v) (auto simp: normEnvs_def list_ex_iff intro!: map_idI normList_unchanged)

lemma objSet_same: "objGet ms n = Some v \<Longrightarrow> objSet ms n v = ms"
  by (induction ms) auto

lemma objGet_objSet: "objGet (objSet ms n v) n' = (if n' = n then Some v else objGet ms n')"
  by (induction ms) auto

lemma needsLoop_members:
  "length (member_toks ms) < k \<Longrightarrow>
   needsLoop k role sr se (member_toks ms @ TObjE # rest) =
     (\<not> sr \<and> (\<exists>v. objGet ms ''run_list'' = Some v \<and> listChanges v) \<or>
      role \<and> \<not> se \<and> (\<exists>v. objGet ms ''env_run_lists'' = Some v \<and> envListsChange v))"
proof (induction ms arbitrary: k sr se)
  case Nil
  then show ?case by (cases k) auto
next
  case (Cons m ms)
  obtain n v where m: "m = (n, v)" by fastforce
  from Cons.prems obtain k' where k: "k = Suc k'" and k': "length (member_toks ms) < k'"
    by (cases k) (auto simp: m)
  define R where "R = member_toks ms @ TObjE # rest"
  have dec: "decode (length (tokens_of v @ R)) True (tokens_of v @ R) = Some (v, R)"
    by (subst decode_tokens) simp_all
  have skip: "skipValue 0 (tokens_of v @ R) = Some R"
    by simp
  have IH: "needsLoop k' role sr se R =
     (\<not> sr \<and> (\<exists>v. objGet ms ''run_list'' = Some v \<and> listChanges v) \<or>
      role \<and> \<not> se \<and> (\<exists>v. objGet ms ''env_run_lists'' = Some v \<and> envListsChange v))" for sr se
    unfolding R_def by (rule Cons.IH[OF k'])
  have split: "member_toks (m # ms) @ TObjE # rest = TStr n # tokens_of v @ R"
    by (simp add: m R_def)
  show ?case
    unfolding split k needsLoop.simps(2) list.case jtok.case dec skip option.case prod.case
    using IH by (cases role) (auto simp: m)
qed

lemma rewriteObj_unchanged:
  assumes "\<not> (\<exists>v. objGet ms ''run_list'' = Some v \<and> listChanges v)"
    and "role \<longrightarrow> \<not> (\<exists>v. objGet ms ''env_run_lists'' = Some v \<and> envListsChange v)"
  shows "rewriteObj role ms = ms"
proof -
  have rl: "objSet ms ''run_list'' (toAny (Normalize items)) = ms"
    if "objGet ms ''run_list'' = Some v" "stringList v = Some items" for v items
    using that assms(1) by (auto simp: listChanges_def objSet_same dest: stringList_Some)
  have env: "objSet ms ''env_run_lists'' (normEnvs v) = ms"
    if "role" "objGet ms ''env_run_lists'' = Some v" for v
    using that assms(2) by (auto simp: normEnvs_unchanged objSet_same)
  show ?thesis
    using rl env by (auto simp: rewriteObj_def Let_def split: option.splits json.splits)
qed

lemma needsChange_Obj:
  "needsChange (Doc (JObj ms)) role =
     ((\<exists>v. objGet ms ''run_list'' = Some v \<and> listChanges v) \<or>
      role \<and> (\<exists>v. objGet ms ''env_run_lists'' = Some v \<and> envListsChange v))"
  using needsLoop_members[of ms "length (member_toks ms @ [TObjE])" role False False "[]"]
  by (simp add: needsChange_def)

lemma needsChange_other [simp]:
  "\<not> needsChange (Doc (JArr es)) role" "\<not> needsChange (Doc (JStr s)) role"
  "\<not> needsChange (Doc (JNum l)) role" "\<not> needsChange (Doc (JBool b)) role"
  "\<not> needsChange (Doc JNull) role" "\<not> needsChange (Bytes bs) role"
  by (simp_all add: needsChange_def)

lemma normalizeDoc_rewrites: "normalizeDoc doc role = Some (rewriteDoc doc role)"
proof (cases doc)
  case (Doc j)
  then show ?thesis
    using rewriteObj_unchanged[of _ role]
    by (cases j) (auto simp: normalizeDoc_def rewriteDoc_def needsChange_Obj)
qed (simp add: normalizeDoc_def rewriteDoc_def)

lemma not_listChanges_toAny_Normalize [simp]: "\<not> listChanges (toAny (Normalize items))"
  by (simp add: listChanges_def)

lemma not_listChanges_normList [simp]: "\<not> listChanges (normList v)"
  by (auto simp: normList_def listChanges_def split: option.split)

lemma not_envListsChange_normEnvs [simp]: "\<not> envListsChange (normEnvs v)"
  by (cases v) (auto simp: normEnvs_def list_ex_iff)

lemma needsChange_rewriteObj: "\<not> needsChange (Doc (JObj (rewriteObj role ms))) role"
  by (auto simp: needsChange_Obj rewriteObj_def Let_def objGet_objSet listChanges_def
      split: option.splits json.splits)

section \<open>Properties\<close>


text \<open>C33. Skipping the rewrite loses nothing: on every body, \<^verbatim>\<open>normalize\<close> (which rewrites only when
  its token scan asks for it) returns what rewriting unconditionally returns, and a second
  normalisation changes nothing.\<close>

theorem normalizeDoc_is_rewrite:
  "normalizeDoc doc role = Some (rewriteDoc doc role) \<and>
   normalizeDoc (rewriteDoc doc role) role = Some (rewriteDoc doc role)"
proof -
  have "\<not> needsChange (rewriteDoc doc role) role"
    using needsChange_rewriteObj
    by (cases doc; cases "case doc of Doc j \<Rightarrow> j | _ \<Rightarrow> JNull")
      (auto simp: rewriteDoc_def split: json.splits)
  then have "normalizeDoc (rewriteDoc doc role) role = Some (rewriteDoc doc role)"
    by (simp add: normalizeDoc_def)
  then show ?thesis by (simp add: normalizeDoc_rewrites)
qed

end
