(* ===== verification/Search_Query.thy ===== *)
theory Search_Query
  imports Cinc_Prelude
begin

text \<open>The search query language of \<^verbatim>\<open>src/internal/search/query.go\<close>: lexer, recursive-descent
  parser and evaluation against a flattened document.

  A field map (\<^verbatim>\<open>map[string][]string\<close>) is an association list. A compiled wildcard pattern is the
  list of its tokens, matched rune by rune as the regular expression \<open>^...$\<close> is (\<open>.\<close> does not match
  a newline). \<^verbatim>\<open>strconv.ParseFloat\<close> and the comparison of doubles are the argument of type
  \<open>floatlib\<close>: nothing here depends on how they round. An out-of-range slice or index of the Go
  code is the error \<open>Panic\<close>; running out of the recursion bound is \<open>OutOfFuel\<close>.\<close>

type_synonym fields = "(string \<times> string list) list"

record 'f floatlib =
  parseFloat :: "string \<Rightarrow> 'f option"
  flt :: "'f \<Rightarrow> 'f \<Rightarrow> bool"
  feq :: "'f \<Rightarrow> 'f \<Rightarrow> bool"

section \<open>Runes\<close>

definition contByte :: "nat \<Rightarrow> nat \<Rightarrow> string \<Rightarrow> nat \<Rightarrow> bool" where
  "contByte lo hi cs i = (i < length cs \<and> lo \<le> of_char (cs ! i) \<and> of_char (cs ! i) \<le> hi)"

text \<open>The width \<^verbatim>\<open>utf8.DecodeRuneInString\<close> reports: 1 for an invalid encoding.\<close>

definition runeWidth :: "string \<Rightarrow> nat" where
  "runeWidth s = (case s of [] \<Rightarrow> 0 | c # cs \<Rightarrow>
     (let b = of_char c :: nat; tail = contByte 0x80 0xBF cs in
      if 0xC2 \<le> b \<and> b \<le> 0xDF \<and> tail 0 then 2
      else if b = 0xE0 \<and> contByte 0xA0 0xBF cs 0 \<and> tail 1 then 3
      else if b = 0xED \<and> contByte 0x80 0x9F cs 0 \<and> tail 1 then 3
      else if 0xE1 \<le> b \<and> b \<le> 0xEF \<and> b \<noteq> 0xED \<and> tail 0 \<and> tail 1 then 3
      else if b = 0xF0 \<and> contByte 0x90 0xBF cs 0 \<and> tail 1 \<and> tail 2 then 4
      else if b = 0xF4 \<and> contByte 0x80 0x8F cs 0 \<and> tail 1 \<and> tail 2 then 4
      else if 0xF1 \<le> b \<and> b \<le> 0xF3 \<and> tail 0 \<and> tail 1 \<and> tail 2 then 4
      else 1))"

lemma runeWidth_pos [simp]: "s \<noteq> [] \<Longrightarrow> 0 < runeWidth s"
  by (cases s) (auto simp: runeWidth_def Let_def)

definition runeError :: string where
  "runeError = [CHR 0xEF, CHR 0xBF, CHR 0xBD]"

text \<open>The runes of a string, an invalid byte read as U+FFFD.\<close>

function runes :: "string \<Rightarrow> string list" where
  "runes [] = []"
| "runes (c # cs) =
     (let n = runeWidth (c # cs) in
      (if n = 1 \<and> of_char c \<ge> (0x80 :: nat) then runeError else take n (c # cs)) # runes (drop n (c # cs)))"
  by pat_completeness auto
termination
  by (relation "measure length") (auto simp: Let_def intro: runeWidth_pos)

section \<open>Queries\<close>

datatype gtok = GStar | GAny | GLit string

datatype query =
    MatchAll
  | AndQ query query
  | OrQ query query
  | NotQ query
  | TermQ (tq_field: string) (tq_value: string) (tq_phrase: bool) (tq_re: "gtok list option")
  | ExistsQ string
  | RangeQ string string string bool bool

fun globMatch :: "gtok list \<Rightarrow> string list \<Rightarrow> bool" where
  "globMatch [] rs = (rs = [])"
| "globMatch (GStar # p) rs =
     (globMatch p rs \<or> (case rs of [] \<Rightarrow> False | r # rs' \<Rightarrow> r \<noteq> [CHR 0x0A] \<and> globMatch (GStar # p) rs'))"
| "globMatch (GAny # p) rs = (case rs of [] \<Rightarrow> False | r # rs' \<Rightarrow> r \<noteq> [CHR 0x0A] \<and> globMatch p rs')"
| "globMatch (GLit l # p) rs = (case rs of [] \<Rightarrow> False | r # rs' \<Rightarrow> r = l \<and> globMatch p rs')"

definition matchVal :: "gtok list option \<Rightarrow> string \<Rightarrow> string \<Rightarrow> bool" where
  "matchVal re value v = (case re of None \<Rightarrow> v = value | Some p \<Rightarrow> globMatch p (runes v))"

definition inRange :: "'f floatlib \<Rightarrow> string \<Rightarrow> string \<Rightarrow> bool \<Rightarrow> bool \<Rightarrow> string \<Rightarrow> bool" where
  "inRange fl lo hi incLo incHi v =
     (let star = ''*'' in
      case (parseFloat fl v, lo = star \<or> parseFloat fl lo \<noteq> None, hi = star \<or> parseFloat fl hi \<noteq> None) of
        (Some vn, True, True) \<Rightarrow>
          \<not> (lo \<noteq> star \<and> (case parseFloat fl lo of None \<Rightarrow> False | Some lon \<Rightarrow> flt fl vn lon \<or> \<not> incLo \<and> feq fl vn lon)) \<and>
          \<not> (hi \<noteq> star \<and> (case parseFloat fl hi of None \<Rightarrow> False | Some hin \<Rightarrow> flt fl hin vn \<or> \<not> incHi \<and> feq fl vn hin))
      | _ \<Rightarrow>
          \<not> (lo \<noteq> star \<and> (v < lo \<or> \<not> incLo \<and> v = lo)) \<and>
          \<not> (hi \<noteq> star \<and> (hi < v \<or> \<not> incHi \<and> v = hi)))"

fun Matches :: "'f floatlib \<Rightarrow> query \<Rightarrow> fields \<Rightarrow> bool" where
  "Matches fl MatchAll f = True"
| "Matches fl (AndQ l r) f = (Matches fl l f \<and> Matches fl r f)"
| "Matches fl (OrQ l r) f = (Matches fl l f \<or> Matches fl r f)"
| "Matches fl (NotQ q) f = (\<not> Matches fl q f)"
| "Matches fl (TermQ field value phrase re) f =
     (if field = [] then list_ex (\<lambda>(k, vals). list_ex (matchVal re value) vals) f
      else list_ex (matchVal re value) (getd [] f field))"
| "Matches fl (ExistsQ field) f = (if field = [] then f \<noteq> [] else getd [] f field \<noteq> [])"
| "Matches fl (RangeQ field lo hi incLo incHi) f = list_ex (inRange fl lo hi incLo incHi) (getd [] f field)"

definition IsMatchAll :: "query \<Rightarrow> bool" where
  "IsMatchAll q = (q = MatchAll)"

fun wildLoop :: "bool \<Rightarrow> string list \<Rightarrow> gtok list" where
  "wildLoop escaped [] = []"
| "wildLoop escaped (r # rs) =
     (if escaped then GLit r # wildLoop False rs
      else if r = [CHR 0x5C] then wildLoop True rs
      else if r = ''*'' then GStar # wildLoop False rs
      else if r = ''?'' then GAny # wildLoop False rs
      else GLit r # wildLoop False rs)"

definition wildcardToRegexp :: "string \<Rightarrow> gtok list" where
  "wildcardToRegexp pat = wildLoop False (runes pat)"

fun hasWildcard :: "string \<Rightarrow> bool" where
  "hasWildcard [] = False"
| "hasWildcard (c # cs) =
     (if c = CHR 0x5C then (case cs of [] \<Rightarrow> False | _ # cs' \<Rightarrow> hasWildcard cs')
      else if c = CHR ''*'' \<or> c = CHR ''?'' then True
      else hasWildcard cs)"

definition buildTerm :: "string \<Rightarrow> string \<Rightarrow> string \<Rightarrow> bool \<Rightarrow> query" where
  "buildTerm fd val gl phrase =
     (let field = toLower fd; value = toLower val; glob = toLower gl in
      if glob = ''*'' then (if field = [] \<or> field = ''*'' then MatchAll else ExistsQ field)
      else TermQ field value phrase
             (if \<not> phrase \<and> hasWildcard glob then Some (wildcardToRegexp glob) else None))"

section \<open>Lexer\<close>

datatype token =
    tEOF | tLParen | tRParen | tAnd | tOr | tNot | tColon
  | tWord (tw_text: string) (tw_glob: string) (tw_negate: bool)
  | tPhrase string
  | tRange string string bool bool

datatype qerr =
    UnterminatedPhrase | UnterminatedRange | MalformedRange string | DanglingEscape
  | UnexpectedChar string | UnexpectedToken token | MissingParen | ExpectedValue
  | Panic | OutOfFuel

definition isDelim :: "char \<Rightarrow> bool" where
  "isDelim c = (c \<in> set [CHR '' '', CHR 0x09, CHR 0x0A, CHR 0x0D, CHR ''('', CHR '')'', CHR ''['',
     CHR '']'', CHR ''{'', CHR ''}'', CHR 0x22, CHR '':''])"

definition isBlank :: "char \<Rightarrow> bool" where
  "isBlank c = (c \<in> set [CHR '' '', CHR 0x09, CHR 0x0A, CHR 0x0D])"

text \<open>The word scan: the source text, the text with escapes resolved, the glob and the rest.\<close>

fun lexWord :: "string \<Rightarrow> qerr + (string \<times> string \<times> string \<times> string)" where
  "lexWord [] = Inr ([], [], [], [])"
| "lexWord (c # cs) =
     (if isDelim c then Inr ([], [], [], c # cs)
      else if c \<noteq> CHR 0x5C then
        (case lexWord cs of Inl e \<Rightarrow> Inl e | Inr (w, t, g, rest) \<Rightarrow> Inr (c # w, c # t, c # g, rest))
      else if cs = [] then Inl DanglingEscape
      else
        (let n = runeWidth cs; esc = take n cs;
             keep = (if esc = ''*'' \<or> esc = ''?'' \<or> esc = [CHR 0x5C] then [CHR 0x5C] else [])
         in case lexWord (drop n cs) of Inl e \<Rightarrow> Inl e
            | Inr (w, t, g, rest) \<Rightarrow> Inr (c # esc @ w, esc @ t, keep @ esc @ g, rest)))"

definition wordToken :: "string \<Rightarrow> string \<Rightarrow> string \<Rightarrow> token" where
  "wordToken word text glob =
     (if word = ''AND'' then tAnd else if word = ''OR'' then tOr else if word = ''NOT'' then tNot
      else tWord text glob (length word > 1 \<and> hd word = CHR ''-''))"

lemma cutAt_length: "cutAt sep s = Some (a, b) \<Longrightarrow> length b \<le> length s"
  by (auto dest: cutAt_Some)

lemma lexWord_split: "lexWord s = Inr (w, t, g, rest) \<Longrightarrow> s = w @ rest"
proof (induction s arbitrary: w t g rest rule: lexWord.induct)
  case (2 c cs)
  let ?n = "runeWidth cs"
  consider "isDelim c" | "\<not> isDelim c" "c \<noteq> CHR 0x5C" | "\<not> isDelim c" "c = CHR 0x5C" "cs \<noteq> []"
    using 2(3) by (auto split: if_splits)
  then show ?case
  proof cases
    case 2
    with "2.IH"(1) "2.prems" show ?thesis by (auto split: sum.splits)
  next
    case 3
    with "2.prems" obtain w' t' g' where w': "lexWord (drop ?n cs) = Inr (w', t', g', rest)" "w = c # take ?n cs @ w'"
      by (auto simp: Let_def split: sum.splits)
    with "2.IH"(2)[OF 3(1) _ 3(3) refl refl refl w'(1)] 3 have "drop ?n cs = w' @ rest" by blast
    then show ?thesis using w'(2) by (metis append_Cons append_assoc append_take_drop_id)
  qed (use "2.prems" in auto)
qed simp

lemma lexWord_length: "lexWord s = Inr (w, t, g, rest) \<Longrightarrow> length w + length rest = length s"
  by (drule lexWord_split) simp

definition lexRange :: "bool \<Rightarrow> string \<Rightarrow> qerr + token" where
  "lexRange inc inner =
     (case cutAt '' TO '' inner of
        None \<Rightarrow> Inl (MalformedRange inner)
      | Some (lo, hi) \<Rightarrow> Inr (tRange (toLower (trimSpace lo)) (toLower (trimSpace hi)) inc inc))"

text \<open>One turn of the lexer's loop at a character: the token appended, if any, and the rest.\<close>

definition lexStep :: "char \<Rightarrow> string \<Rightarrow> qerr + (token option \<times> string)" where
  "lexStep c cs =
     (if isBlank c then Inr (None, cs)
      else if c = CHR ''('' then Inr (Some tLParen, cs)
      else if c = CHR '')'' then Inr (Some tRParen, cs)
      else if c = CHR '':'' then Inr (Some tColon, cs)
      else if c = CHR 0x22 then
        (case cutAt [CHR 0x22] cs of
           None \<Rightarrow> Inl UnterminatedPhrase
         | Some (text, rest) \<Rightarrow> Inr (Some (tPhrase text), rest))
      else if c = CHR ''['' \<or> c = CHR ''{'' then
        (case cutAt (if c = CHR ''['' then '']'' else ''}'') cs of
           None \<Rightarrow> Inl UnterminatedRange
         | Some (inner, rest) \<Rightarrow>
             (case lexRange (c = CHR ''['') inner of Inl e \<Rightarrow> Inl e | Inr t \<Rightarrow> Inr (Some t, rest)))
      else
        (case lexWord (c # cs) of
           Inl e \<Rightarrow> Inl e
         | Inr (word, text, glob, rest) \<Rightarrow>
             if word = [] then Inl (UnexpectedChar [c])
             else Inr (Some (wordToken word text glob), rest)))"

lemma lexStep_word:
  "lexWord (c # cs) = Inr (w, t, g, rest) \<Longrightarrow> w \<noteq> [] \<Longrightarrow> length rest \<le> length cs"
  by (drule lexWord_length) (cases w, simp_all)

lemma lexStep_length: "lexStep c cs = Inr (tok, rest) \<Longrightarrow> length rest \<le> length cs"
  unfolding lexStep_def
  by (simp split: if_split_asm option.split_asm sum.split_asm prod.split_asm
      add: cutAt_length lexStep_word del: lexWord.simps)

function (sequential) lexQ :: "string \<Rightarrow> qerr + token list" where
  "lexQ [] = Inr [tEOF]"
| "lexQ (c # cs) =
     (case lexStep c cs of
        Inl e \<Rightarrow> Inl e
      | Inr (tok, rest) \<Rightarrow>
          (case lexQ rest of
             Inl e \<Rightarrow> Inl e
           | Inr ts \<Rightarrow> Inr (case tok of None \<Rightarrow> ts | Some t \<Rightarrow> t # ts)))"
  by pat_completeness auto
termination
  by (relation "measure length") (auto simp: less_Suc_eq_le lexStep_length)

section \<open>Parser\<close>

text \<open>The parser's position is the list of tokens not yet consumed, never empty.\<close>

definition peekTok :: "token list \<Rightarrow> qerr + token" where
  "peekTok ts = (case ts of [] \<Rightarrow> Inl Panic | t # _ \<Rightarrow> Inr t)"

fun nextTok :: "token list \<Rightarrow> token list" where
  "nextTok (t # u # ts) = u # ts"
| "nextTok ts = ts"

fun dropDash :: "string \<Rightarrow> qerr + string" where
  "dropDash [] = Inl Panic"
| "dropDash (c # cs) = Inr cs"

definition clauseValue :: "string \<Rightarrow> token list \<Rightarrow> qerr + (query \<times> token list)" where
  "clauseValue field ts =
     (case peekTok ts of
        Inl e \<Rightarrow> Inl e
      | Inr (tWord text glob neg) \<Rightarrow> Inr (buildTerm field text glob False, nextTok ts)
      | Inr (tPhrase text) \<Rightarrow> Inr (buildTerm field text text True, nextTok ts)
      | Inr (tRange lo hi incLo incHi) \<Rightarrow> Inr (RangeQ (toLower field) lo hi incLo incHi, nextTok ts)
      | Inr _ \<Rightarrow> Inl ExpectedValue)"

definition clauseBody :: "string \<Rightarrow> string \<Rightarrow> token list \<Rightarrow> qerr + (query \<times> token list)" where
  "clauseBody field glob ts =
     (case peekTok ts of
        Inl e \<Rightarrow> Inl e
      | Inr tColon \<Rightarrow> clauseValue field (nextTok ts)
      | Inr _ \<Rightarrow> Inr (buildTerm [] field glob False, ts))"

definition parseClause :: "string \<Rightarrow> string \<Rightarrow> bool \<Rightarrow> token list \<Rightarrow> qerr + (query \<times> token list)" where
  "parseClause text glob negate ts =
     (if negate then
        (case (dropDash text, dropDash glob) of
           (Inr field, Inr g) \<Rightarrow> map_sum id (map_prod NotQ id) (clauseBody field g ts)
         | _ \<Rightarrow> Inl Panic)
      else clauseBody text glob ts)"

text \<open>The mutually recursive parser methods: \<open>call\<close> is the method being entered, with the query
  built so far for the two loops. Each method takes the others as \<open>rec\<close>; \<open>parser\<close> ties the
  knot, its first argument bounding the depth of the calls.\<close>

datatype call = COr | COrLoop query | CAnd | CAndLoop query | CUnary | CPrimary

type_synonym presult = "qerr + (query \<times> token list)"
type_synonym parser_rec = "call \<Rightarrow> token list \<Rightarrow> presult"

definition parseOr :: "parser_rec \<Rightarrow> token list \<Rightarrow> presult" where
  "parseOr rec ts = (case rec CAnd ts of Inl e \<Rightarrow> Inl e | Inr (l, ts') \<Rightarrow> rec (COrLoop l) ts')"

definition orLoop :: "parser_rec \<Rightarrow> query \<Rightarrow> token list \<Rightarrow> presult" where
  "orLoop rec l ts =
     (case peekTok ts of
        Inl e \<Rightarrow> Inl e
      | Inr t \<Rightarrow> if t = tOr then
          (case rec CAnd (nextTok ts) of Inl e \<Rightarrow> Inl e | Inr (r, ts') \<Rightarrow> rec (COrLoop (OrQ l r)) ts')
        else Inr (l, ts))"

definition parseAnd :: "parser_rec \<Rightarrow> token list \<Rightarrow> presult" where
  "parseAnd rec ts = (case rec CUnary ts of Inl e \<Rightarrow> Inl e | Inr (l, ts') \<Rightarrow> rec (CAndLoop l) ts')"

definition andLoop :: "parser_rec \<Rightarrow> query \<Rightarrow> token list \<Rightarrow> presult" where
  "andLoop rec l ts =
     (case peekTok ts of
        Inl e \<Rightarrow> Inl e
      | Inr t \<Rightarrow>
          if t = tAnd then
            (case rec CUnary (nextTok ts) of Inl e \<Rightarrow> Inl e | Inr (r, ts') \<Rightarrow> rec (CAndLoop (AndQ l r)) ts')
          else if is_tWord t \<or> is_tPhrase t \<or> t = tLParen \<or> t = tNot then
            (case rec CUnary ts of Inl e \<Rightarrow> Inl e | Inr (r, ts') \<Rightarrow> rec (CAndLoop (AndQ l r)) ts')
          else Inr (l, ts))"

definition parseUnary :: "parser_rec \<Rightarrow> token list \<Rightarrow> presult" where
  "parseUnary rec ts =
     (case peekTok ts of
        Inl e \<Rightarrow> Inl e
      | Inr t \<Rightarrow>
          if t = tNot then
            (case rec CUnary (nextTok ts) of Inl e \<Rightarrow> Inl e | Inr (q, ts') \<Rightarrow> Inr (NotQ q, ts'))
          else rec CPrimary ts)"

definition parsePrimary :: "parser_rec \<Rightarrow> token list \<Rightarrow> presult" where
  "parsePrimary rec ts =
     (case peekTok ts of
        Inl e \<Rightarrow> Inl e
      | Inr t \<Rightarrow> (case t of
          tLParen \<Rightarrow>
            (case rec COr (nextTok ts) of
               Inl e \<Rightarrow> Inl e
             | Inr (q, ts') \<Rightarrow>
                 (case peekTok ts' of
                    Inl e \<Rightarrow> Inl e
                  | Inr u \<Rightarrow> if u \<noteq> tRParen then Inl MissingParen else Inr (q, nextTok ts')))
        | tPhrase text \<Rightarrow> Inr (buildTerm [] text text True, nextTok ts)
        | tWord text glob negate \<Rightarrow> parseClause text glob negate (nextTok ts)
        | _ \<Rightarrow> Inl (UnexpectedToken t)))"

primrec parser :: "nat \<Rightarrow> parser_rec" where
  "parser 0 = (\<lambda>c ts. Inl OutOfFuel)"
| "parser (Suc n) = (\<lambda>c ts. case c of
     COr \<Rightarrow> parseOr (parser n) ts
   | COrLoop l \<Rightarrow> orLoop (parser n) l ts
   | CAnd \<Rightarrow> parseAnd (parser n) ts
   | CAndLoop l \<Rightarrow> andLoop (parser n) l ts
   | CUnary \<Rightarrow> parseUnary (parser n) ts
   | CPrimary \<Rightarrow> parsePrimary (parser n) ts)"

text \<open>Each token is consumed within five nested calls, so five times the number of tokens is
  enough depth.\<close>

definition ParseQuery :: "string \<Rightarrow> qerr + query" where
  "ParseQuery s =
     (case lexQ s of
        Inl e \<Rightarrow> Inl e
      | Inr toks \<Rightarrow>
          (case parser (5 * length toks + 5) COr toks of
             Inl e \<Rightarrow> Inl e
           | Inr (q, ts) \<Rightarrow>
               (case peekTok ts of
                  Inl e \<Rightarrow> Inl e
                | Inr t \<Rightarrow> if t \<noteq> tEOF then Inl (UnexpectedToken t) else Inr q)))"

section \<open>The lexer\<close>

text \<open>A token stream the parser may be started on: it ends with the end marker, and a negated word
  keeps its dash in front of a non-empty name.\<close>

definition okToken :: "token \<Rightarrow> bool" where
  "okToken t = (case t of tWord text glob negate \<Rightarrow>
      negate \<longrightarrow> (\<exists>x xs y ys. text = x # y # xs \<and> glob = x # ys) | _ \<Rightarrow> True)"

definition okTokens :: "token list \<Rightarrow> bool" where
  "okTokens ts = (ts \<noteq> [] \<and> last ts = tEOF \<and> list_all okToken ts)"

lemma lexWord_shape:
  assumes "lexWord (c # cs) = Inr (w, t, g, rest)" and "w \<noteq> []" and "c \<noteq> CHR 0x5C"
  shows "\<exists>w' t' g'. w = c # w' \<and> t = c # t' \<and> g = c # g' \<and> lexWord cs = Inr (w', t', g', rest)"
  using assms by (auto split: if_splits sum.splits)

lemma lexWord_text: "lexWord s = Inr (w, t, g, rest) \<Longrightarrow> w \<noteq> [] \<Longrightarrow> t \<noteq> []"
proof (induction s arbitrary: w t g rest rule: lexWord.induct)
  case (2 c cs)
  show ?case
  proof (cases "c = CHR 0x5C \<and> \<not> isDelim c")
    case True
    with "2.prems" have "cs \<noteq> []" by (auto split: if_splits)
    moreover obtain t' where "t = take (runeWidth cs) cs @ t'"
      using True "2.prems" by (auto simp: Let_def split: if_splits sum.splits)
    ultimately show ?thesis using runeWidth_pos[of cs] by auto
  next
    case False
    with "2.prems" show ?thesis by (auto split: if_splits sum.splits)
  qed
qed simp

lemma okToken_word:
  assumes lw: "lexWord (c # cs) = Inr (w, t, g, rest)" and "w \<noteq> []"
  shows "okToken (wordToken w t g)"
proof (cases "length w > 1 \<and> hd w = CHR ''-''")
  case True
  have "w = c # tl w"
    using lexWord_split[OF lw] \<open>w \<noteq> []\<close> by (cases w) auto
  with True have c: "c = CHR ''-''" by (metis list.sel(1))
  then obtain w' t' g' where "w = c # w'" "t = c # t'" "g = c # g'" "lexWord cs = Inr (w', t', g', rest)"
    using lexWord_shape[OF lw \<open>w \<noteq> []\<close>] by auto
  moreover from this True have "t' \<noteq> []" using lexWord_text by auto
  ultimately show ?thesis by (auto simp: okToken_def wordToken_def neq_Nil_conv)
qed (auto simp: okToken_def wordToken_def)

lemma okTokens_Cons: "okToken t \<Longrightarrow> okTokens ts \<Longrightarrow> okTokens (t # ts)"
  by (auto simp: okTokens_def)

lemma lexStep_ok: "lexStep c cs = Inr (Some t, rest) \<Longrightarrow> okToken t"
  unfolding lexStep_def
  by (auto split: if_split_asm option.split_asm sum.split_asm prod.split_asm
      simp: okToken_def[of tLParen] okToken_def[of tRParen] okToken_def[of tColon]
        okToken_def[of "tPhrase _"] okToken_def[of "tRange _ _ _ _"] lexRange_def okToken_word
      simp del: lexWord.simps)

lemma lexQ_ok: "lexQ s = Inr ts \<Longrightarrow> okTokens ts"
proof (induction s arbitrary: ts rule: lexQ.induct)
  case (2 c cs)
  from "2.prems" obtain tok rest ts' where *: "lexStep c cs = Inr (tok, rest)" "lexQ rest = Inr ts'"
    "ts = (case tok of None \<Rightarrow> ts' | Some t \<Rightarrow> t # ts')"
    by (auto split: sum.splits)
  from "2.IH"[OF *(1) refl *(2)] *(1,3) show ?case
    by (auto intro: okTokens_Cons lexStep_ok split: option.splits)
qed (auto simp: okTokens_def okToken_def)

section \<open>The parser is total\<close>

text \<open>No existence test on the empty field: the one query on which planning and matching differ.\<close>

fun wfQuery :: "query \<Rightarrow> bool" where
  "wfQuery (AndQ l r) = (wfQuery l \<and> wfQuery r)"
| "wfQuery (OrQ l r) = (wfQuery l \<and> wfQuery r)"
| "wfQuery (NotQ q) = wfQuery q"
| "wfQuery (ExistsQ field) = (field \<noteq> [])"
| "wfQuery _ = True"

definition okResult :: "bool \<Rightarrow> token list \<Rightarrow> presult \<Rightarrow> bool" where
  "okResult strict ts r = (case r of
     Inl e \<Rightarrow> e \<noteq> Panic \<and> e \<noteq> OutOfFuel
   | Inr (q, ts') \<Rightarrow> wfQuery q \<and> okTokens ts' \<and>
       (if strict then length ts' < length ts else length ts' \<le> length ts))"

fun needFuel :: "call \<Rightarrow> nat" where
  "needFuel COr = 4" | "needFuel (COrLoop l) = 4" | "needFuel CAnd = 3" | "needFuel (CAndLoop l) = 3"
| "needFuel CUnary = 2" | "needFuel CPrimary = 1"

fun strictCall :: "call \<Rightarrow> bool" where
  "strictCall (COrLoop l) = False" | "strictCall (CAndLoop l) = False" | "strictCall c = True"

fun wfCall :: "call \<Rightarrow> bool" where
  "wfCall (COrLoop l) = wfQuery l" | "wfCall (CAndLoop l) = wfQuery l" | "wfCall c = True"

lemma wfQuery_buildTerm [simp]: "wfQuery (buildTerm f v g p)"
  by (simp add: buildTerm_def Let_def)

lemma okTokens_hd:
  assumes "okTokens ts"
  obtains t where "peekTok ts = Inr t" "okToken t" "t \<noteq> tEOF \<Longrightarrow> okTokens (nextTok ts)"
    "t \<noteq> tEOF \<Longrightarrow> Suc (length (nextTok ts)) = length ts" "length (nextTok ts) \<le> length ts"
proof -
  obtain t us where ts: "ts = t # us" using assms by (cases ts) (auto simp: okTokens_def)
  show thesis
    using assms that[of t] by (cases us) (auto simp: ts peekTok_def okTokens_def)
qed

lemma okResult_clauseValue: "okTokens ts \<Longrightarrow> okResult False ts (clauseValue f ts)"
  by (erule okTokens_hd) (auto simp: clauseValue_def okResult_def split: token.split)

lemma okResult_clauseBody:
  assumes ts: "okTokens ts"
  shows "okResult False ts (clauseBody f g ts)"
proof -
  obtain t where *: "peekTok ts = Inr t" "t \<noteq> tEOF \<Longrightarrow> okTokens (nextTok ts)"
    "length (nextTok ts) \<le> length ts"
    using okTokens_hd[OF ts] by metis
  show ?thesis
  proof (cases "t = tColon")
    case True
    then have "okResult False (nextTok ts) (clauseValue f (nextTok ts))"
      using * by (simp add: okResult_clauseValue)
    with True * show ?thesis
      by (auto simp: clauseBody_def okResult_def split: sum.splits)
  next
    case False
    with ts * show ?thesis by (auto simp: clauseBody_def okResult_def split: token.split)
  qed
qed

lemma okResult_parseClause:
  assumes "okToken (tWord text glob negate)" and "okTokens ts"
  shows "okResult False ts (parseClause text glob negate ts)"
proof -
  have "okResult False ts (map_sum id (map_prod NotQ id) (clauseBody f g ts))" for f g
    using okResult_clauseBody[OF assms(2), of f g]
    by (cases "clauseBody f g ts") (auto simp: okResult_def)
  then show ?thesis
    using assms okResult_clauseBody by (auto simp: parseClause_def okToken_def)
qed

lemma okResult_strict: "okResult False us r \<Longrightarrow> length us < length ts \<Longrightarrow> okResult s ts r"
  by (auto simp: okResult_def split: sum.splits)

lemma okResult_le: "okResult s us r \<Longrightarrow> length us \<le> length ts \<Longrightarrow> okResult s ts r"
  by (auto simp: okResult_def split: sum.splits if_splits)

text \<open>Sequencing: a call that consumes, followed by whatever runs on its rest.\<close>

lemma okResult_then:
  assumes "okResult True ts r"
    and "\<And>q ts'. r = Inr (q, ts') \<Longrightarrow> wfQuery q \<Longrightarrow> okTokens ts' \<Longrightarrow> length ts' < length ts \<Longrightarrow> okResult False ts' (k q ts')"
  shows "okResult s ts (case r of Inl e \<Rightarrow> Inl e | Inr (q, ts') \<Rightarrow> k q ts')"
proof (cases r)
  case (Inr a)
  obtain q ts' where a: "a = (q, ts')" by fastforce
  with Inr assms(1) have "wfQuery q" "okTokens ts'" "length ts' < length ts"
    by (auto simp: okResult_def)
  with assms(2)[of q ts'] Inr a show ?thesis
    by (auto intro: okResult_strict)
qed (use assms(1) in \<open>simp add: okResult_def\<close>)

lemma okResult_rest: "wfQuery q \<Longrightarrow> okTokens ts \<Longrightarrow> okResult False ts (Inr (q, ts))"
  by (simp add: okResult_def)

lemma okResult_parens:
  assumes "wfQuery q" "okTokens ts'"
  shows "okResult False ts' (case peekTok ts' of Inl e \<Rightarrow> Inl e
            | Inr u \<Rightarrow> if u \<noteq> tRParen then Inl MissingParen else Inr (q, nextTok ts'))"
  using assms(2) by (rule okTokens_hd) (use assms in \<open>auto simp: okResult_def\<close>)

lemma parser_total:
  "okTokens ts \<Longrightarrow> wfCall c \<Longrightarrow> 5 * length ts + needFuel c \<le> n \<Longrightarrow>
   okResult (strictCall c) ts (parser n c ts)"
proof (induction n arbitrary: c ts)
  case 0
  then show ?case by (cases c) auto
next
  case (Suc n)
  note ok = Suc.prems(1)
  obtain t where t: "peekTok ts = Inr t" "okToken t" "t \<noteq> tEOF \<Longrightarrow> okTokens (nextTok ts)"
    "t \<noteq> tEOF \<Longrightarrow> Suc (length (nextTok ts)) = length ts"
    using okTokens_hd[OF ok] by metis
  have IH: "okResult (strictCall c') us (parser n c' us)"
    if "okTokens us" "wfCall c'" "5 * length us + needFuel c' \<le> n" for c' us
    using Suc.IH that by blast
  have loop: "okResult (strictCall c') us (parser n c' us)"
    if "okTokens us" "wfCall c'" "length us < length ts" for c' us
    using that Suc.prems(3) by (intro IH) (cases c'; cases c; simp)+
  have orl: "okResult False us (parser n (COrLoop q) us)" and andl: "okResult False us (parser n (CAndLoop q) us)"
    if "okTokens us" "wfQuery q" "length us < length ts" for us q
    using loop[of us "COrLoop q"] loop[of us "CAndLoop q"] that by simp_all
  have nx: "okTokens (nextTok ts)" "length (nextTok ts) < length ts" if "t \<noteq> tEOF"
    using t(3,4) that by auto
  show ?case
  proof (cases c)
    case COr
    show ?thesis
      using IH[of ts CAnd] Suc.prems COr
      by (auto simp: parseOr_def intro!: okResult_then orl)
  next
    case (COrLoop l)
    have "okResult True ts (parser n CAnd (nextTok ts))" if "t = tOr"
      using loop[of "nextTok ts" CAnd] nx that by (simp add: okResult_le)
    then show ?thesis
      using COrLoop Suc.prems t
      by (auto simp: orLoop_def intro!: okResult_then okResult_rest orl)
  next
    case CAnd
    show ?thesis
      using IH[of ts CUnary] Suc.prems CAnd
      by (auto simp: parseAnd_def intro!: okResult_then andl)
  next
    case (CAndLoop l)
    have "okResult True ts (parser n CUnary (nextTok ts))" if "t = tAnd"
      using loop[of "nextTok ts" CUnary] nx that by (simp add: okResult_le)
    moreover have "okResult True ts (parser n CUnary ts)"
      using IH[of ts CUnary] Suc.prems CAndLoop by simp
    ultimately show ?thesis
      using CAndLoop Suc.prems t
      by (auto simp: andLoop_def intro!: okResult_then okResult_rest andl)
  next
    case CUnary
    have "okResult True ts (parser n CUnary (nextTok ts))" if "t = tNot"
      using loop[of "nextTok ts" CUnary] nx that by (simp add: okResult_le)
    then show ?thesis
      using IH[of ts CPrimary] CUnary Suc.prems t
      by (auto simp: parseUnary_def intro!: okResult_then okResult_rest)
  next
    case CPrimary
    have paren: "okResult True ts (parser n COr (nextTok ts))" if "t = tLParen"
      using loop[of "nextTok ts" COr] nx that by (simp add: okResult_le)
    have word: "okResult True ts (parseClause x y z (nextTok ts))" if "t = tWord x y z" for x y z
      using okResult_parseClause[of x y z "nextTok ts"] nx that t(2) by (auto intro: okResult_strict)
    have phrase: "okResult True ts (Inr (buildTerm [] x x True, nextTok ts))" if "t = tPhrase x" for x
      using nx that by (simp add: okResult_def)
    have fail: "okResult True ts (Inl (UnexpectedToken u))" for u by (simp add: okResult_def)
    show ?thesis
      using CPrimary t paren word phrase fail
      by (cases t) (auto simp: parsePrimary_def intro!: okResult_then okResult_parens)
  qed
qed

lemma lexWord_err: "lexWord s = Inl e \<Longrightarrow> e = DanglingEscape"
  by (induction s arbitrary: e rule: lexWord.induct) (auto simp: Let_def split: if_splits sum.splits)

lemma lexStep_err: "lexStep c cs = Inl e \<Longrightarrow> e \<noteq> Panic \<and> e \<noteq> OutOfFuel"
  unfolding lexStep_def
  by (auto split: if_split_asm option.split_asm sum.split_asm prod.split_asm
      simp: lexRange_def simp del: lexWord.simps dest: lexWord_err)

lemma lexQ_err: "lexQ s = Inl e \<Longrightarrow> e \<noteq> Panic \<and> e \<noteq> OutOfFuel"
proof (induction s arbitrary: e rule: lexQ.induct)
  case (2 c cs)
  show ?case
  proof (cases "lexStep c cs")
    case (Inl a)
    with "2.prems" lexStep_err show ?thesis by simp
  next
    case (Inr a)
    obtain tok rest where a: "a = (tok, rest)" by fastforce
    with "2.prems" Inr have "lexQ rest = Inl e" by (auto split: sum.splits)
    with "2.IH"[OF Inr a[symmetric]] show ?thesis by blast
  qed
qed simp

lemma ParseQuery_total:
  "case ParseQuery s of Inl e \<Rightarrow> e \<noteq> Panic \<and> e \<noteq> OutOfFuel | Inr q \<Rightarrow> wfQuery q"
proof (cases "lexQ s")
  case (Inl e)
  then show ?thesis using lexQ_err by (auto simp: ParseQuery_def)
next
  case (Inr ts)
  then have ok: "okTokens ts" by (rule lexQ_ok)
  have r: "okResult True ts (parser (5 * length ts + 5) COr ts)"
    using parser_total[OF ok, of COr "5 * length ts + 5"] by simp
  show ?thesis
  proof (cases "parser (5 * length ts + 5) COr ts")
    case (Inr a)
    obtain q us where a: "a = (q, us)" by fastforce
    with r Inr have "wfQuery q" "okTokens us" by (auto simp: okResult_def)
    moreover obtain t where "peekTok us = Inr t" using okTokens_hd[OF \<open>okTokens us\<close>] by metis
    ultimately show ?thesis
      using \<open>lexQ s = Inr ts\<close> Inr a by (simp add: ParseQuery_def)
  qed (use r \<open>lexQ s = Inr ts\<close> in \<open>auto simp: ParseQuery_def okResult_def\<close>)
qed

section \<open>Escaped terms are literal\<close>

definition escapeAll :: "string \<Rightarrow> string" where
  "escapeAll v = concat (map (\<lambda>c. [CHR 0x5C, c]) v)"

definition plainWord :: "string \<Rightarrow> bool" where
  "plainWord w = (w \<noteq> [] \<and> list_all (\<lambda>c. \<not> isDelim c \<and> c \<noteq> CHR 0x5C) w \<and> hd w \<noteq> CHR ''-'' \<and>
     w \<noteq> ''AND'' \<and> w \<noteq> ''OR'' \<and> w \<noteq> ''NOT'')"

definition asciiWord :: "string \<Rightarrow> bool" where
  "asciiWord w = (w \<noteq> [] \<and> list_all (\<lambda>c. of_char c < (0x80 :: nat)) w)"

fun globOf :: "string \<Rightarrow> string" where
  "globOf [] = []"
| "globOf (c # cs) = (if [c] = ''*'' \<or> [c] = ''?'' \<or> [c] = [CHR 0x5C] then [CHR 0x5C, c] else [c]) @ globOf cs"

lemma runeWidth_ascii: "of_char c < (0x80 :: nat) \<Longrightarrow> runeWidth (c # cs) = 1"
  by (simp add: runeWidth_def Let_def)

lemma not_isDelim_backslash [simp]: "\<not> isDelim CHR 0x5C"
  by (simp add: isDelim_def)

lemma lexWord_escapeAll:
  "list_all (\<lambda>c. of_char c < (0x80 :: nat)) v \<Longrightarrow>
   lexWord (escapeAll v) = Inr (escapeAll v, v, globOf v, [])"
proof (induction v)
  case (Cons c v)
  then have "runeWidth (c # escapeAll v) = 1" by (simp add: runeWidth_ascii)
  with Cons show ?case
    by (simp add: escapeAll_def Let_def)
qed (simp add: escapeAll_def)

lemma lexWord_plain:
  "list_all (\<lambda>c. \<not> isDelim c \<and> c \<noteq> CHR 0x5C) w \<Longrightarrow> isDelim d \<Longrightarrow>
   lexWord (w @ d # rest) = Inr (w, w, w, d # rest)"
  by (induction w) auto

lemma globOf_lower_wild: "\<not> hasWildcard (toLower (globOf v))"
proof (induction v)
  case (Cons c v)
  have low: "lowerChar CHR 0x5C = CHR 0x5C" "lowerChar CHR ''*'' = CHR ''*''" "lowerChar CHR ''?'' = CHR ''?''"
    by (simp_all add: lowerChar_def less_eq_char_def)
  have inj: "lowerChar c = x \<Longrightarrow> c = x" if "x \<in> {CHR 0x5C, CHR ''*'', CHR ''?''}" for x
    using that by (auto simp: lowerChar_def less_eq_char_def split: if_splits)
      (auto dest!: arg_cong[of _ _ "of_char :: char \<Rightarrow> nat"])
  show ?case
    using Cons low inj by (auto simp: toLower_def)
qed (simp add: toLower_def)

lemma lexStep_default:
  "\<not> isDelim c \<Longrightarrow> lexStep c cs =
     (case lexWord (c # cs) of
        Inl e \<Rightarrow> Inl e
      | Inr (word, text, glob, rest) \<Rightarrow>
          if word = [] then Inl (UnexpectedChar [c])
          else Inr (Some (wordToken word text glob), rest))"
  by (auto simp: lexStep_def isDelim_def isBlank_def simp del: lexWord.simps)

lemma lexQ_field_value:
  assumes f: "plainWord f" and v: "asciiWord v"
  shows "lexQ (f @ '':'' @ escapeAll v) = Inr [tWord f f False, tColon, tWord v (globOf v) False, tEOF]"
proof -
  obtain c f' where cf: "f = c # f'" using f by (cases f) (auto simp: plainWord_def)
  obtain e where e: "escapeAll v = CHR 0x5C # e"
    using v by (cases v) (auto simp: asciiWord_def escapeAll_def)
  have "lexWord (c # f' @ CHR '':'' # escapeAll v) = Inr (f, f, f, CHR '':'' # escapeAll v)"
    using lexWord_plain[of f "CHR '':''" "escapeAll v"] f cf by (simp add: plainWord_def isDelim_def)
  then have 1: "lexStep c (f' @ CHR '':'' # escapeAll v) = Inr (Some (tWord f f False), CHR '':'' # escapeAll v)"
    using f cf by (simp add: lexStep_default plainWord_def wordToken_def del: lexWord.simps)
  have 2: "lexStep CHR '':'' (escapeAll v) = Inr (Some tColon, escapeAll v)"
    by (simp add: lexStep_def isBlank_def)
  have "lexWord (escapeAll v) = Inr (escapeAll v, v, globOf v, [])"
    using v by (simp add: lexWord_escapeAll asciiWord_def)
  then have 3: "lexStep CHR 0x5C e = Inr (Some (tWord v (globOf v) False), [])"
    by (simp add: lexStep_default e wordToken_def del: lexWord.simps)
  have "lexQ (c # (f' @ CHR '':'' # escapeAll v)) = Inr [tWord f f False, tColon, tWord v (globOf v) False, tEOF]"
    using 1 2 3 by (simp add: e)
  then show ?thesis by (simp add: cf)
qed

section \<open>Properties\<close>

text \<open>C28. The query parser is total: on every input string lexing and parsing end within the stated
  call depth, never index or slice out of range, and either report a syntax error or yield a query
  that is well formed for planning (no existence test on the empty field).\<close>

theorem ParseQuery_never_panics:
  "(case ParseQuery s of Inl e \<Rightarrow> e \<noteq> Panic \<and> e \<noteq> OutOfFuel | Inr q \<Rightarrow> wfQuery q)"
  by (rule ParseQuery_total)



text \<open>A quoted phrase consisting of a single star is not literal: although a phrase passes its
  text as its own glob and is documented to be always literal, \<open>name:"*"\<close> parses to the existence
  test that the unquoted \<open>name:*\<close> denotes, and \<open>"*"\<close> alone matches every document.\<close>

theorem star_phrase_is_not_literal:
  "ParseQuery (''name:'' @ [CHR 0x22, CHR ''*'', CHR 0x22]) = Inr (ExistsQ ''name'') \<and>
   ParseQuery [CHR 0x22, CHR ''*'', CHR 0x22] = Inr MatchAll"
  by code_simp

end
