(* ===== verification/Search_Plan.thy ===== *)
theory Search_Plan
  imports Search_Query Chef_Json
begin

text \<open>Flattening documents (\<^verbatim>\<open>src/internal/search/flatten.go\<close>), the node view a search sees
  (\<^verbatim>\<open>nodeSearchDoc\<close>, \<^verbatim>\<open>deepMerge\<close> of \<^verbatim>\<open>src/internal/api/search.go\<close>) and planning a query against
  an index (\<^verbatim>\<open>src/internal/search/plan.go\<close>).

  The planner's contract is that it agrees exactly with evaluating the query on every document.
  The interface it relies on, \<^verbatim>\<open>Postings\<close>, is the record \<open>postings\<close>, and the laws its implementations
  owe are the locale \<open>postings_spec\<close>; the agreement is proved there once.\<close>

section \<open>Flattening\<close>

fun scalarString :: "json \<Rightarrow> string" where
  "scalarString (JStr s) = s"
| "scalarString (JNum l) = l"
| "scalarString (JBool b) = (if b then ''true'' else ''false'')"
| "scalarString _ = []"

definition extendKey :: "string \<Rightarrow> string \<Rightarrow> string" where
  "extendKey key p = (if key = [] then p else p @ ''_'' @ key)"

text \<open>The closure \<^verbatim>\<open>add\<close>: one field per suffix of the path. Paths are kept innermost segment
  first, the order in which the loop visits them.\<close>

fun addField :: "string \<Rightarrow> string list \<Rightarrow> string \<Rightarrow> fields \<Rightarrow> fields" where
  "addField key [] val f = f"
| "addField key (p # ps) val f =
     (let key' = extendKey key p in addField key' ps val (AList.update key' (getd [] f key' @ [val]) f))"

fun walk :: "string list \<Rightarrow> json \<Rightarrow> fields \<Rightarrow> fields" where
  "walk path (JObj ms) f = fold (\<lambda>(k, v) f. walk (toLower k # path) v f) ms f"
| "walk path (JArr es) f = fold (\<lambda>v f. walk path v f) es f"
| "walk path JNull f = (if path \<noteq> [] then addField [] path [] f else f)"
| "walk path v f = (if path \<noteq> [] then addField [] path (toLower (scalarString v)) f else f)"

definition Flatten :: "members \<Rightarrow> fields" where
  "Flatten doc = walk [] (JObj doc) []"

section \<open>The searchable view of a node\<close>

fun deepMerge :: "members \<Rightarrow> members \<Rightarrow> members" where
  "deepMerge dst [] = dst"
| "deepMerge dst ((k, JObj sub) # src) =
     (case map_of dst k of
        Some (JObj existing) \<Rightarrow> deepMerge (AList.update k (JObj (deepMerge existing sub)) dst) src
      | _ \<Rightarrow> deepMerge (AList.update k (JObj (deepMerge [] sub)) dst) src)"
| "deepMerge dst ((k, v) # src) = deepMerge (AList.update k v dst) src"

definition attrLevels :: "string list" where
  "attrLevels = [''default'', ''normal'', ''override'', ''automatic'']"

definition mergeLevels :: "members \<Rightarrow> members" where
  "mergeLevels node =
     fold (\<lambda>level merged. case map_of node level of Some (JObj attrs) \<Rightarrow> deepMerge merged attrs | _ \<Rightarrow> merged)
       attrLevels []"

definition nodeSearchDoc :: "members \<Rightarrow> members" where
  "nodeSearchDoc node = fold (\<lambda>(k, v) out. AList.update k v out) (mergeLevels node) node"

fun traversePath :: "json \<Rightarrow> string list \<Rightarrow> json option" where
  "traversePath cur [] = Some cur"
| "traversePath (JObj m) (key # path) =
     (case map_of m key of None \<Rightarrow> None | Some v \<Rightarrow> traversePath v path)"
| "traversePath _ (key # path) = None"

section \<open>Planning\<close>

type_synonym docids = "string set"

record postings =
  p_Exact :: "string \<Rightarrow> string \<Rightarrow> docids"
  p_Exists :: "string \<Rightarrow> docids"
  p_Match :: "string \<Rightarrow> (string \<Rightarrow> bool) \<Rightarrow> docids"
  p_MatchAny :: "(string \<Rightarrow> bool) \<Rightarrow> docids"
  p_All :: docids

definition intersect :: "docids \<Rightarrow> docids \<Rightarrow> docids" where
  "intersect a b = (if card b < card a then Set.filter (\<lambda>id. id \<in> a) b else Set.filter (\<lambda>id. id \<in> b) a)"

definition unionIds :: "docids \<Rightarrow> docids \<Rightarrow> docids" where
  "unionIds a b = (if card b > card a then b \<union> a else a \<union> b)"

definition difference :: "docids \<Rightarrow> docids \<Rightarrow> docids" where
  "difference a b = a - b"

fun Plan :: "'f floatlib \<Rightarrow> query \<Rightarrow> postings \<Rightarrow> docids option" where
  "Plan fl MatchAll p = Some (p_All p)"
| "Plan fl (TermQ field value phrase re) p =
     (if field = [] then Some (p_MatchAny p (matchVal re value))
      else if re = None then Some (p_Exact p field value)
      else Some (p_Match p field (matchVal re value)))"
| "Plan fl (ExistsQ field) p = (if field = [] then Some (p_All p) else Some (p_Exists p field))"
| "Plan fl (RangeQ field lo hi incLo incHi) p = Some (p_Match p field (inRange fl lo hi incLo incHi))"
| "Plan fl (AndQ l r) p =
     (case Plan fl l p of
        None \<Rightarrow> None
      | Some ls \<Rightarrow> if ls = {} then Some ls
          else (case Plan fl r p of None \<Rightarrow> None | Some rs \<Rightarrow> Some (intersect ls rs)))"
| "Plan fl (OrQ l r) p =
     (case Plan fl l p of
        None \<Rightarrow> None
      | Some ls \<Rightarrow> (case Plan fl r p of None \<Rightarrow> None | Some rs \<Rightarrow> Some (unionIds ls rs)))"
| "Plan fl (NotQ q) p =
     (case Plan fl q p of None \<Rightarrow> None | Some inner \<Rightarrow> Some (difference (p_All p) inner))"

section \<open>What the planner needs of an index\<close>

lemma set_algebra [simp]:
  "intersect a b = a \<inter> b" "unionIds a b = a \<union> b" "difference a b = a - b"
  by (auto simp: intersect_def unionIds_def difference_def)

locale postings_spec =
  fixes P :: postings and docs :: "string \<Rightarrow> fields option"
  assumes all: "p_All P = {id. docs id \<noteq> None}"
    and exact: "p_Exact P field value = {id. \<exists>f. docs id = Some f \<and> value \<in> set (getd [] f field)}"
    and exists: "p_Exists P field = {id. \<exists>f. docs id = Some f \<and> getd [] f field \<noteq> []}"
    and mtch: "p_Match P field pr = {id. \<exists>f v. docs id = Some f \<and> v \<in> set (getd [] f field) \<and> pr v}"
    and match_any: "p_MatchAny P pr = {id. \<exists>f k vs v. docs id = Some f \<and> (k, vs) \<in> set f \<and> v \<in> set vs \<and> pr v}"
begin

lemma plan_agrees:
  "wfQuery q \<Longrightarrow> Plan fl q P = Some {id. \<exists>f. docs id = Some f \<and> Matches fl q f}"
proof (induction q)
  case (TermQ fd vl ph re)
  then show ?case
    by (auto simp: exact mtch match_any matchVal_def[of None] list_ex_iff Bex_def)
next
  case (RangeQ field lo hi incLo incHi)
  then show ?case by (auto simp: mtch list_ex_iff)
qed (auto simp: all exists)

end

section \<open>What flattening indexes\<close>

text \<open>The leaves of a document, each with its path (innermost segment first), and the key of the
  field a path prefix of that reversed path is indexed under.\<close>

fun leaves :: "string list \<Rightarrow> json \<Rightarrow> (string list \<times> string) list" where
  "leaves path (JObj ms) = concat (map (\<lambda>(k, v). leaves (toLower k # path) v) ms)"
| "leaves path (JArr es) = concat (map (leaves path) es)"
| "leaves path v = (if path = [] then [] else [(path, toLower (scalarString v))])"

definition keyOf :: "string list \<Rightarrow> string" where
  "keyOf path = foldl extendKey [] path"

definition indexed :: "fields \<Rightarrow> string \<Rightarrow> string \<Rightarrow> bool" where
  "indexed f key v = (v \<in> set (getd [] f key))"

lemma indexed_addField:
  "indexed (addField key ps val f) k v \<longleftrightarrow>
   indexed f k v \<or> v = val \<and> (\<exists>n \<in> {1..length ps}. k = foldl extendKey key (take n ps))"
proof (induction ps arbitrary: key f)
  case (Cons p ps)
  have split: "(\<exists>n \<in> {1..length (p # ps)}. k = foldl extendKey key (take n (p # ps))) \<longleftrightarrow>
      k = extendKey key p \<or> (\<exists>n \<in> {1..length ps}. k = foldl extendKey (extendKey key p) (take n ps))"
    (is "?L \<longleftrightarrow> ?R")
  proof
    assume ?L
    then obtain n where n: "n \<in> {1..length (p # ps)}" "k = foldl extendKey key (take n (p # ps))" ..
    then show ?R by (cases n; cases "n = 1") auto
  next
    assume ?R
    then show ?L
    proof
      assume "k = extendKey key p"
      then show ?L by (intro bexI[of _ 1]) auto
    next
      assume "\<exists>n \<in> {1..length ps}. k = foldl extendKey (extendKey key p) (take n ps)"
      then obtain n where "n \<in> {1..length ps}" "k = foldl extendKey (extendKey key p) (take n ps)" ..
      then show ?L by (intro bexI[of _ "Suc n"]) auto
    qed
  qed
  have "indexed (addField key (p # ps) val f) k v \<longleftrightarrow>
      (indexed f k v \<or> v = val \<and> k = extendKey key p) \<or>
      v = val \<and> (\<exists>n \<in> {1..length ps}. k = foldl extendKey (extendKey key p) (take n ps))"
    using Cons.IH[of "extendKey key p"] by (auto simp: Let_def indexed_def)
  then show ?case unfolding split by blast
qed simp

lemma indexed_leaf:
  "path \<noteq> [] \<Longrightarrow> indexed (addField [] path val f) k v \<longleftrightarrow>
   indexed f k v \<or> v = val \<and> (\<exists>n \<in> {1..length path}. k = keyOf (take n path))"
  by (simp add: indexed_addField keyOf_def)

definition leafIndexed :: "(string list \<times> string) list \<Rightarrow> string \<Rightarrow> string \<Rightarrow> bool" where
  "leafIndexed ls k v = (\<exists>(path, val) \<in> set ls. v = val \<and> (\<exists>n \<in> {1..length path}. k = keyOf (take n path)))"

lemma leafIndexed_append [simp]: "leafIndexed (xs @ ys) k v = (leafIndexed xs k v \<or> leafIndexed ys k v)"
  by (auto simp: leafIndexed_def)

lemma indexed_fold:
  assumes "\<And>x f. x \<in> set xs \<Longrightarrow> indexed (g x f) k v \<longleftrightarrow> indexed f k v \<or> leafIndexed (h x) k v"
  shows "indexed (fold g xs f) k v \<longleftrightarrow> indexed f k v \<or> leafIndexed (concat (map h xs)) k v"
  using assms
proof (induction xs arbitrary: f)
  case (Cons x xs)
  have "indexed (fold g xs (g x f)) k v \<longleftrightarrow> indexed (g x f) k v \<or> leafIndexed (concat (map h xs)) k v"
    by (rule Cons.IH) (rule Cons.prems, simp)
  moreover have "indexed (g x f) k v \<longleftrightarrow> indexed f k v \<or> leafIndexed (h x) k v"
    by (rule Cons.prems) simp
  ultimately show ?case by simp
qed (simp add: leafIndexed_def)

lemma indexed_walk: "indexed (walk path j f) k v \<longleftrightarrow> indexed f k v \<or> leafIndexed (leaves path j) k v"
proof (induction path j f rule: walk.induct)
  case (1 path ms f)
  show ?case unfolding walk.simps leaves.simps
    by (rule indexed_fold) (auto simp: "1.IH"[OF _ refl])
next
  case (2 path es f)
  show ?case unfolding walk.simps leaves.simps
    by (rule indexed_fold) (simp add: "2.IH")
qed (simp_all add: leafIndexed_def indexed_leaf)

text \<open>A field map in which every key occurs once and has a value: what \<^verbatim>\<open>Flatten\<close> produces.\<close>

definition wfFields :: "fields \<Rightarrow> bool" where
  "wfFields f = (distinct (map fst f) \<and> (\<forall>(k, vs) \<in> set f. vs \<noteq> []))"

lemma wfFields_addField: "wfFields f \<Longrightarrow> wfFields (addField key ps val f)"
proof (induction ps arbitrary: key f)
  case (Cons p ps)
  have "wfFields (AList.update (extendKey key p) (getd [] f (extendKey key p) @ [val]) f)"
    using Cons.prems by (auto simp: wfFields_def dest!: update_range)
  then show ?case by (simp add: Let_def Cons.IH)
qed simp

lemma fold_invariant: "I s \<Longrightarrow> (\<And>x s. x \<in> set xs \<Longrightarrow> I s \<Longrightarrow> I (g x s)) \<Longrightarrow> I (fold g xs s)"
  by (induction xs arbitrary: s) auto

lemma wfFields_walk: "wfFields f \<Longrightarrow> wfFields (walk path j f)"
proof (induction path j f rule: walk.induct)
  case (1 path ms f)
  show ?case unfolding walk.simps
    by (rule fold_invariant[where I = wfFields]) (use "1.prems" in \<open>auto intro: "1.IH"[OF _ refl]\<close>)
next
  case (2 path es f)
  show ?case unfolding walk.simps
    by (rule fold_invariant[where I = wfFields]) (use "2.prems" in \<open>auto intro: "2.IH"\<close>)
qed (auto simp: wfFields_addField)

lemma wfFields_Flatten: "wfFields (Flatten doc)"
  unfolding Flatten_def by (rule wfFields_walk) (simp add: wfFields_def)

section \<open>Attribute precedence\<close>

definition subObj :: "members \<Rightarrow> string \<Rightarrow> members" where
  "subObj dst k = (case map_of dst k of Some (JObj existing) \<Rightarrow> existing | _ \<Rightarrow> [])"

lemma deepMerge_Cons:
  "deepMerge dst ((k, v) # src) =
     deepMerge (AList.update k (case v of JObj sub \<Rightarrow> JObj (deepMerge (subObj dst k) sub) | _ \<Rightarrow> v) dst) src"
  by (cases v) (auto simp: subObj_def split: option.split json.split)

lemma deepMerge_other: "k \<notin> fst ` set src \<Longrightarrow> map_of (deepMerge dst src) k = map_of dst k"
proof (induction src arbitrary: dst)
  case (Cons m src)
  then show ?case by (cases m) (simp add: deepMerge_Cons map_of_update)
qed simp

lemma deepMerge_lookup:
  "distinct (map fst src) \<Longrightarrow> map_of src k = Some v \<Longrightarrow>
   map_of (deepMerge dst src) k =
     Some (case v of JObj sub \<Rightarrow> JObj (deepMerge (subObj dst k) sub) | _ \<Rightarrow> v)"
proof (induction src arbitrary: dst)
  case (Cons m src)
  obtain k' v' where m: "m = (k', v')" by fastforce
  show ?case
  proof (cases "k' = k")
    case True
    with Cons.prems have "v' = v" "k \<notin> fst ` set src" by (auto simp: m)
    with True show ?thesis by (simp add: m deepMerge_Cons deepMerge_other map_of_update)
  next
    case False
    with Cons.prems have src: "distinct (map fst src)" "map_of src k = Some v" by (auto simp: m)
    have "subObj (AList.update k' x dst) k = subObj dst k" for x
      using False by (simp add: subObj_def map_of_update)
    with Cons.IH[OF src] show ?thesis by (cases v) (simp_all add: m deepMerge_Cons)
  qed
qed simp

lemma deepMerge_distinct: "distinct (map fst dst) \<Longrightarrow> distinct (map fst (deepMerge dst src))"
proof (induction src arbitrary: dst)
  case (Cons m src)
  then show ?case by (cases m) (simp add: deepMerge_Cons distinct_update)
qed simp

text \<open>Names are distinct in every object of a decoded document.\<close>

fun distinctNames :: "json \<Rightarrow> bool" where
  "distinctNames (JObj ms) = (distinct (map fst ms) \<and> list_all (\<lambda>(n, v). distinctNames v) ms)"
| "distinctNames (JArr es) = list_all distinctNames es"
| "distinctNames _ = True"

definition isScalar :: "json \<Rightarrow> bool" where
  "isScalar v = (case v of JObj _ \<Rightarrow> False | _ \<Rightarrow> True)"

lemma deepMerge_path:
  "distinctNames (JObj src) \<Longrightarrow> path \<noteq> [] \<Longrightarrow> traversePath (JObj src) path = Some v \<Longrightarrow> isScalar v \<Longrightarrow>
   traversePath (JObj (deepMerge dst src)) path = Some v"
proof (induction path arbitrary: dst src)
  case (Cons k path)
  then obtain w where w: "map_of src k = Some w" "traversePath w path = Some v"
    by (auto split: option.splits)
  have src: "distinct (map fst src)" "distinctNames w"
    using Cons.prems(1) map_of_SomeD[OF w(1)] by (auto simp: list_all_iff)
  show ?case
  proof (cases w)
    case (JObj sub)
    show ?thesis
    proof (cases "path = []")
      case True
      with w JObj Cons.prems(4) show ?thesis by (auto simp: isScalar_def)
    next
      case False
      with Cons.IH[of sub "subObj dst k"] src w JObj Cons.prems(4)
      show ?thesis by (simp add: deepMerge_lookup[OF src(1) w(1)])
    qed
  qed (use w in \<open>simp_all add: deepMerge_lookup[OF src(1) w(1)]\<close>)
qed simp

lemma fold_update_lookup:
  "distinct (map fst ms) \<Longrightarrow>
   map_of (fold (\<lambda>(k, v) out. AList.update k v out) ms out) k =
     (case map_of ms k of None \<Rightarrow> map_of out k | Some v \<Rightarrow> Some v)"
proof (induction ms arbitrary: out)
  case (Cons m ms)
  then have "map_of ms (fst m) = None" by (simp add: map_of_eq_None_iff)
  with Cons show ?case
    by (cases m) (auto simp: map_of_update split: option.splits)
qed simp

lemma mergeLevels_distinct: "distinct (map fst (mergeLevels node))"
  unfolding mergeLevels_def
  by (rule fold_invariant[where I = "\<lambda>m. distinct (map fst m)"])
    (auto simp: deepMerge_distinct split: option.split json.split)

definition mergeLevel :: "members \<Rightarrow> string \<Rightarrow> members \<Rightarrow> members" where
  "mergeLevel node level merged =
     (case map_of node level of Some (JObj attrs) \<Rightarrow> deepMerge merged attrs | _ \<Rightarrow> merged)"

definition levelDefines :: "members \<Rightarrow> string \<Rightarrow> string \<Rightarrow> bool" where
  "levelDefines node k level =
     (case map_of node level of Some (JObj attrs) \<Rightarrow> k \<in> set (map fst attrs) | _ \<Rightarrow> False)"

lemma mergeLevels_fold: "mergeLevels node = fold (mergeLevel node) attrLevels []"
  by (simp add: mergeLevels_def mergeLevel_def[abs_def])

lemma mergeLevel_skip:
  "\<not> levelDefines node k level \<Longrightarrow> map_of (mergeLevel node level m) k = map_of m k"
  by (auto simp: levelDefines_def mergeLevel_def deepMerge_other split: option.splits json.splits)

lemma mergeLevels_skip:
  "\<not> list_ex (levelDefines node k) ls \<Longrightarrow> map_of (fold (mergeLevel node) ls m) k = map_of m k"
  by (induction ls arbitrary: m) (simp_all add: mergeLevel_skip)

lemma nodeSearchDoc_lookup:
  "map_of (nodeSearchDoc node) k =
     (case map_of (mergeLevels node) k of None \<Rightarrow> map_of node k | Some v \<Rightarrow> Some v)"
  unfolding nodeSearchDoc_def by (rule fold_update_lookup[OF mergeLevels_distinct])

lemma traversePath_first:
  "map_of m k = map_of m' k \<Longrightarrow> traversePath (JObj m) (k # path) = traversePath (JObj m') (k # path)"
  by simp

section \<open>Properties\<close>




end
