(* ===== verification/Search_Index.thy ===== *)
theory Search_Index
  imports Search_Plan Store_Facade
begin

text \<open>The inverted search index of \<^verbatim>\<open>src/internal/api/searchindex.go\<close>: one index per collection, kept
  current from the store's write stream, and the view of it the planner reads.

  A Go set (\<^verbatim>\<open>map[string]struct{}\<close>) is a list without order. \<open>rep c T A\<close> is the abstraction
  relation: \<open>A\<close> is the set of indexed documents and \<open>T did\<close> the set of field/value pairs document
  \<open>did\<close> contributed. \<open>docsOf\<close> is the abstract content, the flattened documents of a collection.\<close>

type_synonym iterm = "string \<times> string"

record collIndex =
  ci_merge :: bool
  ci_postings :: "(string \<times> (string \<times> string list) list) list"
  ci_fieldDocs :: "(string \<times> string list) list"
  ci_docTerms :: "(string \<times> iterm list) list"
  ci_all :: "string list"

definition newCollIndex :: "bool \<Rightarrow> collIndex" where
  "newCollIndex merge = \<lparr>ci_merge = merge, ci_postings = [], ci_fieldDocs = [], ci_docTerms = [], ci_all = []\<rparr>"

section \<open>Maintenance\<close>

text \<open>Removing an did from a map of sets, pruning the entry that becomes empty.\<close>

definition pruneId :: "string \<Rightarrow> string \<Rightarrow> (string \<times> string list) list \<Rightarrow> (string \<times> string list) list" where
  "pruneId did k m =
     (case map_of m k of
        None \<Rightarrow> m
      | Some ids \<Rightarrow> (let ids' = removeAll did ids in if ids' = [] then AList.delete k m else AList.update k ids' m))"

definition retractTerm :: "string \<Rightarrow> iterm \<Rightarrow> collIndex \<Rightarrow> collIndex" where
  "retractTerm did t c =
     (let field = fst t;
          postings' = (case map_of (ci_postings c) field of
              None \<Rightarrow> ci_postings c
            | Some byValue \<Rightarrow>
                (let byValue' = pruneId did (snd t) byValue in
                 if byValue' = [] then AList.delete field (ci_postings c)
                 else AList.update field byValue' (ci_postings c)))
      in c\<lparr>ci_postings := postings', ci_fieldDocs := pruneId did field (ci_fieldDocs c)\<rparr>)"

definition retract :: "string \<Rightarrow> collIndex \<Rightarrow> collIndex" where
  "retract did c =
     (let c' = fold (retractTerm did) (getd [] (ci_docTerms c) did) c
      in c'\<lparr>ci_docTerms := AList.update did [] (ci_docTerms c')\<rparr>)"

definition addId :: "string \<Rightarrow> string \<Rightarrow> (string \<times> string list) list \<Rightarrow> (string \<times> string list) list" where
  "addId did k m = AList.update k (List.insert did (getd [] m k)) m"

definition putField :: "string \<Rightarrow> string \<times> string list \<Rightarrow> collIndex \<Rightarrow> collIndex" where
  "putField did fv c =
     (let field = fst fv in
      c\<lparr>ci_postings := AList.update field (fold (addId did) (snd fv) (getd [] (ci_postings c) field)) (ci_postings c),
        ci_fieldDocs := addId did field (ci_fieldDocs c)\<rparr>)"

definition fieldTerms :: "fields \<Rightarrow> iterm list" where
  "fieldTerms fs = concat (map (\<lambda>(field, values). map (Pair field) values) fs)"

definition indexPut :: "string \<Rightarrow> fields \<Rightarrow> collIndex \<Rightarrow> collIndex" where
  "indexPut did fs c =
     (let c' = fold (putField did) fs (retract did c)
      in c'\<lparr>ci_docTerms := AList.update did (fieldTerms fs) (ci_docTerms c'),
            ci_all := List.insert did (ci_all c')\<rparr>)"

definition indexRemove :: "string \<Rightarrow> collIndex \<Rightarrow> collIndex" where
  "indexRemove did c =
     (let c' = retract did c
      in c'\<lparr>ci_docTerms := AList.delete did (ci_docTerms c'), ci_all := removeAll did (ci_all c')\<rparr>)"

definition searchFields :: "bool \<Rightarrow> body \<Rightarrow> fields option" where
  "searchFields merge raw =
     (case DecodeObject raw of
        None \<Rightarrow> None
      | Some doc \<Rightarrow> Some (Flatten (if merge then nodeSearchDoc doc else doc)))"

definition putRaw :: "string \<Rightarrow> body \<Rightarrow> collIndex \<Rightarrow> collIndex" where
  "putRaw did raw c =
     (case searchFields (ci_merge c) raw of
        None \<Rightarrow> indexRemove did c
      | Some fs \<Rightarrow> indexPut did fs c)"

section \<open>The planner's view\<close>

definition matchIds :: "(string \<Rightarrow> bool) \<Rightarrow> (string \<times> string list) list \<Rightarrow> string list" where
  "matchIds pr byValue = concat (map (\<lambda>(v, ids). if pr v then ids else []) byValue)"

definition postingsView :: "collIndex \<Rightarrow> postings" where
  "postingsView c = \<lparr>
     p_Exact = (\<lambda>field value. set (getd [] (getd [] (ci_postings c) field) value)),
     p_Exists = (\<lambda>field. set (getd [] (ci_fieldDocs c) field)),
     p_Match = (\<lambda>field pr. set (matchIds pr (getd [] (ci_postings c) field))),
     p_MatchAny = (\<lambda>pr. set (concat (map (\<lambda>(field, byValue). matchIds pr byValue) (ci_postings c)))),
     p_All = set (ci_all c)\<rparr>"

section \<open>The registry\<close>

type_synonym registry = "(string \<times> collIndex) list"

definition indexKey :: "string \<Rightarrow> string \<Rightarrow> string" where
  "indexKey og coll = og @ CHR 0x00 # coll"

definition dropOrg :: "string \<Rightarrow> registry \<Rightarrow> registry" where
  "dropOrg og m = filter (\<lambda>(key, _). \<not> hasPrefix key (og @ [CHR 0x00])) m"

definition observe :: "body event \<Rightarrow> registry \<Rightarrow> registry" where
  "observe ev m =
     (if ev_deleted ev \<and> ev_coll ev = [] then dropOrg (ev_org ev) m
      else (let key = indexKey (ev_org ev) (ev_coll ev) in
        case map_of m key of
          None \<Rightarrow> m
        | Some idx \<Rightarrow>
            if ev_deleted ev then AList.update key (indexRemove (ev_key ev) idx) m
            else (case ev_value ev of
                None \<Rightarrow> AList.update key (indexRemove (ev_key ev) idx) m
              | Some raw \<Rightarrow> AList.update key (putRaw (ev_key ev) raw idx) m)))"

definition buildIndex :: "bool \<Rightarrow> (string \<times> body) list \<Rightarrow> collIndex" where
  "buildIndex merge es = fold (\<lambda>(did, raw) c. putRaw did raw c) es (newCollIndex merge)"

text \<open>\<^verbatim>\<open>get\<close>: the registered index, or one built from the collection and registered; a failed read
  leaves nothing behind.\<close>

definition indexGet :: "string \<Rightarrow> string \<Rightarrow> bool \<Rightarrow> registry \<Rightarrow> (body store, serr, collIndex \<times> registry) act" where
  "indexGet og coll merge m =
     (case map_of m (indexKey og coll) of
        Some idx \<Rightarrow> ret (idx, m)
      | None \<Rightarrow> bindE (org_Range og coll) (\<lambda>es.
          let idx = buildIndex merge es in ret (idx, AList.update (indexKey og coll) idx m)))"

section \<open>The abstraction relation\<close>

definition postOf :: "collIndex \<Rightarrow> string \<Rightarrow> string \<Rightarrow> string set" where
  "postOf c f v = set (getd [] (getd [] (ci_postings c) f) v)"

definition docsWith :: "collIndex \<Rightarrow> string \<Rightarrow> string set" where
  "docsWith c f = set (getd [] (ci_fieldDocs c) f)"

definition pruned :: "(string \<times> string list) list \<Rightarrow> bool" where
  "pruned m = (distinct (map fst m) \<and> (\<forall>(k, ids) \<in> set m. ids \<noteq> []))"

definition wfIndex :: "collIndex \<Rightarrow> bool" where
  "wfIndex c = (distinct (map fst (ci_postings c)) \<and> pruned (ci_fieldDocs c) \<and>
     (\<forall>(f, byValue) \<in> set (ci_postings c). byValue \<noteq> [] \<and> pruned byValue))"

definition rep :: "collIndex \<Rightarrow> (string \<Rightarrow> iterm set) \<Rightarrow> string set \<Rightarrow> bool" where
  "rep c T A = (wfIndex c \<and> set (ci_all c) = A \<and>
     (\<forall>did. set (getd [] (ci_docTerms c) did) = T did) \<and>
     (\<forall>f v. postOf c f v = {did. (f, v) \<in> T did}) \<and>
     (\<forall>f. docsWith c f = {did. \<exists>v. (f, v) \<in> T did}))"

lemma rep_new: "rep (newCollIndex merge) (\<lambda>_. {}) {}"
  by (simp add: rep_def newCollIndex_def wfIndex_def pruned_def postOf_def docsWith_def)

lemma getd_map_of: "map_of m k = Some v \<Longrightarrow> getd d m k = v" "map_of m k = None \<Longrightarrow> getd d m k = d"
  by (simp_all add: getd_def)

lemma removeAll_NilD: "removeAll x xs = [] \<Longrightarrow> y \<in> set xs \<Longrightarrow> y = x"
  using set_removeAll[of x xs] by auto

lemma insert_not_Nil [simp]: "List.insert x xs \<noteq> []" "[] \<noteq> List.insert x xs"
  by (auto simp: List.insert_def)

lemma getd_pruneId: "set (getd [] (pruneId did k m) k') = set (getd [] m k') - (if k' = k then {did} else {})"
  by (auto simp: pruneId_def Let_def getd_map_of split: option.splits dest: removeAll_NilD)

lemma pruned_pruneId: "pruned m \<Longrightarrow> pruned (pruneId did k m)"
  by (auto simp: pruned_def pruneId_def Let_def split: option.splits
      dest!: update_range dest: delete_subset[THEN subsetD])

lemma getd_addId: "set (getd [] (addId did k m) k') = set (getd [] m k') \<union> (if k' = k then {did} else {})"
  by (auto simp: addId_def)

lemma pruned_addId: "pruned m \<Longrightarrow> pruned (addId did k m)"
  by (auto simp: pruned_def addId_def dest!: update_range)

lemma getd_fold_addId:
  "set (getd [] (fold (addId did) vs m) k') = set (getd [] m k') \<union> (if k' \<in> set vs then {did} else {})"
  by (induction vs arbitrary: m) (auto simp: getd_addId)

lemma pruned_fold_addId: "pruned m \<Longrightarrow> pruned (fold (addId did) vs m)"
  by (induction vs arbitrary: m) (auto simp: pruned_addId)

lemma fold_addId_nonempty: "vs \<noteq> [] \<Longrightarrow> fold (addId did) vs m \<noteq> []"
proof -
  assume "vs \<noteq> []"
  then have "did \<in> set (getd [] (fold (addId did) vs m) (hd vs))" by (simp add: getd_fold_addId)
  then show ?thesis by (auto simp: getd_def)
qed

subsection \<open>Retracting\<close>

lemma index_frame [simp]:
  "ci_all (retractTerm did t c) = ci_all c" "ci_docTerms (retractTerm did t c) = ci_docTerms c"
  "ci_merge (retractTerm did t c) = ci_merge c"
  "ci_all (putField did fv c) = ci_all c" "ci_docTerms (putField did fv c) = ci_docTerms c"
  "ci_merge (putField did fv c) = ci_merge c"
  by (simp_all add: retractTerm_def putField_def Let_def)

lemma fold_frame:
  "(\<And>x c. g (h x c) = g c) \<Longrightarrow> g (fold h xs c) = g c"
  by (induction xs arbitrary: c) auto

lemma getd_update_or_delete:
  "getd [] (if x = [] then AList.delete k m else AList.update k x m) k' = (if k' = k then x else getd [] m k')"
  by simp

lemma postOf_retractTerm:
  "postOf (retractTerm did (f, v) c) f' v' = postOf c f' v' - (if f' = f \<and> v' = v then {did} else {})"
proof (cases "map_of (ci_postings c) f")
  case None
  then show ?thesis by (simp add: postOf_def retractTerm_def getd_map_of)
next
  case (Some bv)
  then have "postOf (retractTerm did (f, v) c) f' v' =
      set (getd [] (if f' = f then pruneId did v bv else getd [] (ci_postings c) f') v')"
    by (simp add: postOf_def retractTerm_def Let_def getd_update_or_delete)
  with Some show ?thesis
    by (simp add: postOf_def getd_pruneId getd_map_of)
qed

lemma docsWith_retractTerm:
  "docsWith (retractTerm did (f, v) c) f' = docsWith c f' - (if f' = f then {did} else {})"
  by (simp add: docsWith_def retractTerm_def Let_def getd_pruneId)

lemma wfIndex_retractTerm: "wfIndex c \<Longrightarrow> wfIndex (retractTerm did t c)"
proof (cases "map_of (ci_postings c) (fst t)")
  case (Some bv)
  assume c: "wfIndex c"
  with map_of_SomeD[OF Some] have "pruned (pruneId did (snd t) bv)"
    by (auto simp: wfIndex_def intro: pruned_pruneId)
  with c Some show ?thesis
    by (auto simp: wfIndex_def retractTerm_def Let_def pruned_pruneId
        dest!: update_range dest: delete_subset[THEN subsetD])
qed (auto simp: wfIndex_def retractTerm_def Let_def pruned_pruneId)

lemma retract_fold:
  "postOf (fold (retractTerm did) ts c) f v = postOf c f v - (if (f, v) \<in> set ts then {did} else {})"
  "docsWith (fold (retractTerm did) ts c) f = docsWith c f - (if f \<in> fst ` set ts then {did} else {})"
  "wfIndex c \<Longrightarrow> wfIndex (fold (retractTerm did) ts c)"
proof (induction ts arbitrary: c)
  case (Cons t ts)
  {
    case 1
    show ?case using Cons(1)[of "retractTerm did t c"] by (cases t) (auto simp: postOf_retractTerm)
  next
    case 2
    show ?case using Cons(2)[of "retractTerm did t c"] by (cases t) (auto simp: docsWith_retractTerm)
  next
    case 3
    then show ?case using Cons(3) by (simp add: wfIndex_retractTerm)
  }
qed auto

lemma rep_retract:
  assumes "rep c T A"
  shows "rep (retract did c) (T(did := {})) A"
proof -
  let ?ts = "getd [] (ci_docTerms c) did"
  have ts: "set ?ts = T did" using assms by (simp add: rep_def)
  have frame: "ci_all (fold (retractTerm did) ?ts c) = ci_all c"
    "ci_docTerms (fold (retractTerm did) ?ts c) = ci_docTerms c"
    by (rule fold_frame, simp)+
  have dom: "f \<in> fst ` T did \<longleftrightarrow> (\<exists>v. (f, v) \<in> T did)" for f by force
  have upd: "postOf (x\<lparr>ci_docTerms := y\<rparr>) = postOf x" "docsWith (x\<lparr>ci_docTerms := y\<rparr>) = docsWith x"
    "wfIndex (x\<lparr>ci_docTerms := y\<rparr>) = wfIndex x" for x y
    by (auto simp: postOf_def docsWith_def wfIndex_def intro!: ext)
  show ?thesis
    using assms
    by (auto simp: rep_def retract_def Let_def frame upd retract_fold ts dom)
qed

subsection \<open>Indexing\<close>

definition termsOf :: "fields \<Rightarrow> iterm set" where
  "termsOf fs = set (fieldTerms fs)"

lemma termsOf_iff: "wfFields fs \<Longrightarrow> (f, v) \<in> termsOf fs \<longleftrightarrow> v \<in> set (getd [] fs f)"
proof -
  assume "wfFields fs"
  then have d: "distinct (map fst fs)" by (simp add: wfFields_def)
  have "(f, v) \<in> termsOf fs \<longleftrightarrow> (\<exists>vs. (f, vs) \<in> set fs \<and> v \<in> set vs)"
    by (auto simp: termsOf_def fieldTerms_def)
  also have "\<dots> \<longleftrightarrow> (\<exists>vs. map_of fs f = Some vs \<and> v \<in> set vs)"
    using d by simp
  finally show ?thesis by (auto simp: getd_def split: option.splits)
qed

lemma postOf_putField:
  "postOf (putField did (f, vs) c) f' v' = postOf c f' v' \<union> (if f' = f \<and> v' \<in> set vs then {did} else {})"
  by (auto simp: postOf_def putField_def Let_def getd_fold_addId)

lemma docsWith_putField:
  "docsWith (putField did (f, vs) c) f' = docsWith c f' \<union> (if f' = f then {did} else {})"
  by (simp add: docsWith_def putField_def Let_def getd_addId)

lemma wfIndex_putField: "wfIndex c \<Longrightarrow> vs \<noteq> [] \<Longrightarrow> wfIndex (putField did (f, vs) c)"
proof -
  assume c: "wfIndex c" and vs: "vs \<noteq> []"
  have "pruned (getd [] (ci_postings c) f)"
    using c getd_Nil_cases[of "ci_postings c" f] by (auto simp: wfIndex_def pruned_def)
  with vs have "fold (addId did) vs (getd [] (ci_postings c) f) \<noteq> []"
    "pruned (fold (addId did) vs (getd [] (ci_postings c) f))"
    by (simp_all add: fold_addId_nonempty pruned_fold_addId)
  with c show ?thesis
    by (auto simp: wfIndex_def putField_def Let_def pruned_addId dest!: update_range)
qed

lemma put_fold:
  "postOf (fold (putField did) fs c) f v = postOf c f v \<union> (if (f, v) \<in> termsOf fs then {did} else {})"
  "docsWith (fold (putField did) fs c) f = docsWith c f \<union> (if f \<in> fst ` set fs then {did} else {})"
  "wfIndex c \<Longrightarrow> \<forall>(k, vs) \<in> set fs. vs \<noteq> [] \<Longrightarrow> wfIndex (fold (putField did) fs c)"
proof (induction fs arbitrary: c)
  case (Cons x fs)
  {
    case 1
    show ?case using Cons(1)[of "putField did x c"]
      by (cases x) (auto simp: postOf_putField termsOf_def fieldTerms_def)
  next
    case 2
    show ?case using Cons(2)[of "putField did x c"] by (cases x) (auto simp: docsWith_putField)
  next
    case 3
    then show ?case using Cons(3) by (cases x) (simp add: wfIndex_putField)
  }
qed (auto simp: termsOf_def fieldTerms_def)

lemma fields_with_terms: "wfFields fs \<Longrightarrow> f \<in> fst ` set fs \<longleftrightarrow> (\<exists>v. (f, v) \<in> termsOf fs)"
proof -
  assume "wfFields fs"
  then have "\<forall>(k, vs) \<in> set fs. vs \<noteq> []" by (simp add: wfFields_def)
  then show ?thesis
    by (force simp: termsOf_def fieldTerms_def neq_Nil_conv)
qed

lemma rep_indexPut:
  assumes "rep c T A" and fs: "wfFields fs"
  shows "rep (indexPut did fs c) (T(did := termsOf fs)) (insert did A)"
proof -
  have r: "rep (retract did c) (T(did := {})) A" by (rule rep_retract[OF assms(1)])
  have frame: "ci_all (fold (putField did) fs x) = ci_all x" "ci_docTerms (fold (putField did) fs x) = ci_docTerms x" for x
    by (rule fold_frame, simp)+
  have upd: "postOf (x\<lparr>ci_docTerms := y, ci_all := z\<rparr>) = postOf x" "docsWith (x\<lparr>ci_docTerms := y, ci_all := z\<rparr>) = docsWith x"
    "wfIndex (x\<lparr>ci_docTerms := y, ci_all := z\<rparr>) = wfIndex x" for x y z
    by (auto simp: postOf_def docsWith_def wfIndex_def intro!: ext)
  have ne: "\<forall>(k, vs) \<in> set fs. vs \<noteq> []" using fs by (simp add: wfFields_def)
  show ?thesis
    using r ne
    by (auto simp: rep_def indexPut_def Let_def frame upd put_fold fields_with_terms[OF fs] termsOf_def[symmetric])
qed

lemma rep_indexRemove:
  assumes "rep c T A"
  shows "rep (indexRemove did c) (T(did := {})) (A - {did})"
  using rep_retract[OF assms, of did]
  by (auto simp: rep_def indexRemove_def Let_def postOf_def docsWith_def wfIndex_def)

section \<open>The index represents the collection\<close>

definition docsOf :: "bool \<Rightarrow> (string \<Rightarrow> body option) \<Rightarrow> string \<Rightarrow> fields option" where
  "docsOf merge m did = (case m did of None \<Rightarrow> None | Some raw \<Rightarrow> searchFields merge raw)"

definition termsAt :: "(string \<Rightarrow> fields option) \<Rightarrow> string \<Rightarrow> iterm set" where
  "termsAt D did = (case D did of None \<Rightarrow> {} | Some fs \<Rightarrow> termsOf fs)"

definition represents :: "collIndex \<Rightarrow> (string \<Rightarrow> fields option) \<Rightarrow> bool" where
  "represents c D = (rep c (termsAt D) {did. D did \<noteq> None} \<and> (\<forall>did fs. D did = Some fs \<longrightarrow> wfFields fs))"

lemma searchFields_wf: "searchFields merge raw = Some fs \<Longrightarrow> wfFields fs"
  by (auto simp: searchFields_def wfFields_Flatten split: option.splits)

lemma ci_merge_frame [simp]:
  "ci_merge (retract did c) = ci_merge c" "ci_merge (indexPut did fs c) = ci_merge c"
  "ci_merge (indexRemove did c) = ci_merge c" "ci_merge (putRaw did raw c) = ci_merge c"
proof -
  have f: "ci_merge (fold (retractTerm did) ts c) = ci_merge c" "ci_merge (fold (putField did) fs c) = ci_merge c" for ts fs c
    by (rule fold_frame, simp)+
  show r: "ci_merge (retract did c) = ci_merge c" for c by (simp add: retract_def Let_def f)
  show p: "ci_merge (indexPut did fs c) = ci_merge c" for fs by (simp add: indexPut_def Let_def f r)
  show "ci_merge (indexRemove did c) = ci_merge c" by (simp add: indexRemove_def Let_def r)
  then show "ci_merge (putRaw did raw c) = ci_merge c" by (simp add: putRaw_def p split: option.split)
qed

lemma represents_put:
  assumes "represents c D" and "wfFields fs"
  shows "represents (indexPut did fs c) (D(did := Some fs))"
proof -
  have "termsAt (D(did := Some fs)) = (termsAt D)(did := termsOf fs)"
    "{x. (D(did := Some fs)) x \<noteq> None} = insert did {x. D x \<noteq> None}"
    by (auto simp: termsAt_def fun_eq_iff)
  with assms show ?thesis
    using rep_indexPut[of c "termsAt D" _ fs did] by (auto simp: represents_def)
qed

lemma represents_remove:
  assumes "represents c D"
  shows "represents (indexRemove did c) (D(did := None))"
proof -
  have "termsAt (D(did := None)) = (termsAt D)(did := {})" "{x. (D(did := None)) x \<noteq> None} = {x. D x \<noteq> None} - {did}"
    by (auto simp: termsAt_def fun_eq_iff)
  with assms show ?thesis
    using rep_indexRemove[of c "termsAt D" _ did] by (auto simp: represents_def)
qed

lemma represents_putRaw:
  "represents c D \<Longrightarrow> represents (putRaw did raw c) (D(did := searchFields (ci_merge c) raw))"
  by (cases "searchFields (ci_merge c) raw")
    (auto simp: putRaw_def intro: represents_put represents_remove searchFields_wf)

lemma represents_new: "represents (newCollIndex merge) (\<lambda>_. None)"
proof -
  have "termsAt (\<lambda>_. None) = (\<lambda>_. {})" by (simp add: termsAt_def fun_eq_iff)
  with rep_new show ?thesis by (simp add: represents_def)
qed

definition builtDocs :: "bool \<Rightarrow> (string \<times> body) list \<Rightarrow> string \<Rightarrow> fields option" where
  "builtDocs merge es = fold (\<lambda>(did, raw) D. D(did := searchFields merge raw)) es (\<lambda>_. None)"

lemma represents_fold:
  "represents c D \<Longrightarrow> ci_merge c = merge \<Longrightarrow>
   represents (fold (\<lambda>(did, raw) c. putRaw did raw c) es c)
     (fold (\<lambda>(did, raw) D. D(did := searchFields merge raw)) es D) \<and>
   ci_merge (fold (\<lambda>(did, raw) c. putRaw did raw c) es c) = merge"
proof (induction es arbitrary: c D)
  case (Cons e es)
  obtain did raw where e: "e = (did, raw)" by fastforce
  show ?case
    using Cons.IH[OF represents_putRaw[OF Cons.prems(1), of did raw]] Cons.prems(2) by (simp add: e)
qed simp

lemma represents_build: "represents (buildIndex merge es) (builtDocs merge es)"
  "ci_merge (buildIndex merge es) = merge"
  using represents_fold[OF represents_new[of merge], of merge es]
  by (simp_all add: buildIndex_def builtDocs_def newCollIndex_def)

lemma builtDocs_distinct:
  assumes "distinct (map fst es)"
  shows "builtDocs merge es = docsOf merge (map_of es)"
proof -
  have "fold (\<lambda>(did, raw) D. D(did := searchFields merge raw)) es D =
      (\<lambda>did. case map_of es did of None \<Rightarrow> D did | Some raw \<Rightarrow> searchFields merge raw)" for D
    using assms
  proof (induction es arbitrary: D)
    case (Cons e es)
    obtain did raw where e: "e = (did, raw)" by fastforce
    with Cons.prems have "map_of es did = None" by (simp add: map_of_eq_None_iff)
    with Cons e show ?case by (auto split: option.split)
  qed simp
  then show ?thesis by (simp add: builtDocs_def docsOf_def[abs_def])
qed

subsection \<open>The index implements the planner's interface\<close>

locale coll_index =
  fixes c :: collIndex and D :: "string \<Rightarrow> fields option"
  assumes represented: "represents c D"

lemma represents_postings:
  assumes "represents c D"
  shows "postOf c f v = {did. \<exists>fs. D did = Some fs \<and> v \<in> set (getd [] fs f)}"
    and "docsWith c f = {did. \<exists>fs. D did = Some fs \<and> getd [] fs f \<noteq> []}"
    and "set (ci_all c) = {did. D did \<noteq> None}"
proof -
  have wf: "D did = Some fs \<Longrightarrow> wfFields fs" for did fs using assms by (simp add: represents_def)
  have t: "(f, v) \<in> termsAt D did \<longleftrightarrow> (\<exists>fs. D did = Some fs \<and> v \<in> set (getd [] fs f))" for f v did
    by (auto simp: termsAt_def termsOf_iff wf split: option.splits)
  show "postOf c f v = {did. \<exists>fs. D did = Some fs \<and> v \<in> set (getd [] fs f)}"
    using assms by (simp add: represents_def rep_def t)
  have "docsWith c f = {did. \<exists>v. \<exists>fs. D did = Some fs \<and> v \<in> set (getd [] fs f)}"
    using assms by (simp add: represents_def rep_def t)
  also have "\<dots> = {did. \<exists>fs. D did = Some fs \<and> getd [] fs f \<noteq> []}"
    by (metis (no_types, opaque_lifting) list.set_intros(1) list.exhaust empty_iff empty_set)
  finally show "docsWith c f = {did. \<exists>fs. D did = Some fs \<and> getd [] fs f \<noteq> []}" .
  show "set (ci_all c) = {did. D did \<noteq> None}"
    using assms by (simp add: represents_def rep_def)
qed

lemma in_getd: "x \<in> set (getd [] m k) \<longleftrightarrow> (\<exists>ys. map_of m k = Some ys \<and> x \<in> set ys)"
  by (cases "map_of m k") (auto simp: getd_def)

lemma set_matchIds:
  assumes "pruned m"
  shows "set (matchIds pr m) = {x. \<exists>v. pr v \<and> x \<in> set (getd [] m v)}"
proof -
  have "set (matchIds pr m) = {x. \<exists>v ids. (v, ids) \<in> set m \<and> pr v \<and> x \<in> set ids}"
    by (auto simp: matchIds_def split: if_splits)
  also have "\<dots> = {x. \<exists>v ids. map_of m v = Some ids \<and> pr v \<and> x \<in> set ids}"
    using assms by (simp add: pruned_def)
  finally show ?thesis unfolding in_getd by blast
qed

lemma in_postOf:
  "did \<in> postOf c f v \<longleftrightarrow> (\<exists>bv. map_of (ci_postings c) f = Some bv \<and> did \<in> set (getd [] bv v))"
  by (cases "map_of (ci_postings c) f") (simp_all add: postOf_def getd_map_of)

lemma set_matchAny:
  assumes "wfIndex c"
  shows "set (concat (map (\<lambda>(field, byValue). matchIds pr byValue) (ci_postings c))) =
    {did. \<exists>f v. pr v \<and> did \<in> postOf c f v}"
proof -
  have d: "(f, bv) \<in> set (ci_postings c) \<longleftrightarrow> map_of (ci_postings c) f = Some bv" for f bv
    using assms by (simp add: wfIndex_def)
  have m: "did \<in> set (matchIds pr bv) \<longleftrightarrow> (\<exists>v. pr v \<and> did \<in> set (getd [] bv v))"
    if "map_of (ci_postings c) f = Some bv" for f bv did
    using assms map_of_SomeD[OF that] set_matchIds[of bv pr] by (auto simp: wfIndex_def)
  have "did \<in> set (concat (map (\<lambda>(field, byValue). matchIds pr byValue) (ci_postings c))) \<longleftrightarrow>
      (\<exists>f bv. map_of (ci_postings c) f = Some bv \<and> did \<in> set (matchIds pr bv))" for did
    unfolding d[symmetric] by auto
  then show ?thesis
    unfolding set_eq_iff mem_Collect_eq in_postOf using m by blast
qed

sublocale coll_index \<subseteq> postings_spec "postingsView c" D
proof (unfold_locales, goal_cases)
  case 1
  show ?case by (simp add: postingsView_def represents_postings[OF represented])
next
  case (2 field v)
  show ?case
    using represents_postings(1)[OF represented] by (simp add: postingsView_def postOf_def)
next
  case (3 field)
  show ?case
    using represents_postings(2)[OF represented] by (simp add: postingsView_def docsWith_def)
next
  case (4 field pr)
  have "pruned (getd [] (ci_postings c) field)"
    using represented getd_Nil_cases[of "ci_postings c" field]
    by (auto simp: represents_def rep_def wfIndex_def pruned_def)
  then have "p_Match (postingsView c) field pr = {did. \<exists>v. pr v \<and> did \<in> postOf c field v}"
    by (simp add: postingsView_def postOf_def set_matchIds)
  then show ?case by (auto simp: represents_postings(1)[OF represented])
next
  case (5 pr)
  have "wfIndex c" using represented by (simp add: represents_def rep_def)
  then have any: "p_MatchAny (postingsView c) pr = {did. \<exists>f v. pr v \<and> did \<in> postOf c f v}"
    using set_matchAny[of c pr] by (simp add: postingsView_def)
  have fields: "v \<in> set (getd [] fs f) \<longleftrightarrow> (\<exists>vs. (f, vs) \<in> set fs \<and> v \<in> set vs)"
    if "D did = Some fs" for did fs f v
    using represented that by (auto simp: represents_def wfFields_def in_getd)
  show ?case
    unfolding any represents_postings(1)[OF represented] using fields by blast
qed

interpretation built: coll_index "buildIndex merge es" "builtDocs merge es"
  for merge es
  by unfold_locales (rule represents_build)

section \<open>The registry follows the store\<close>

text \<open>Only the node index merges attribute levels (\<^verbatim>\<open>resolveIndex\<close>).\<close>

definition mergeFor :: "string \<Rightarrow> bool" where
  "mergeFor coll = (coll = ''nodes'')"

text \<open>Organization names contain no NUL byte, the separator of the registry's keys.\<close>

abbreviation plainOrg :: "string \<Rightarrow> bool" where
  "plainOrg og \<equiv> CHR 0x00 \<notin> set og"

definition coherent :: "registry \<Rightarrow> body mirror \<Rightarrow> bool" where
  "coherent reg M = (\<forall>og coll idx. plainOrg og \<longrightarrow> map_of reg (indexKey og coll) = Some idx \<longrightarrow>
     ci_merge idx = mergeFor coll \<and> represents idx (docsOf (mergeFor coll) (M og coll)))"

lemma indexKey_split: "plainOrg og \<Longrightarrow> takeWhile (\<lambda>c. c \<noteq> CHR 0x00) (indexKey og coll) = og"
  by (auto simp: indexKey_def takeWhile_append2 takeWhile_tail)

lemma indexKey_inj:
  assumes "plainOrg og" "plainOrg og'"
  shows "indexKey og coll = indexKey og' coll' \<longleftrightarrow> og = og' \<and> coll = coll'"
  using indexKey_split[OF assms(1), of coll] indexKey_split[OF assms(2), of coll']
  by (auto simp: indexKey_def)

lemma indexKey_prefix:
  assumes "plainOrg og" "plainOrg og'"
  shows "hasPrefix (indexKey og coll) (og' @ [CHR 0x00]) \<longleftrightarrow> og = og'"
proof
  assume "hasPrefix (indexKey og coll) (og' @ [CHR 0x00])"
  then obtain t where "indexKey og coll = indexKey og' t" by (auto simp: hasPrefix_iff indexKey_def)
  then show "og = og'" using assms by (simp add: indexKey_inj)
qed (simp add: hasPrefix_iff indexKey_def)

lemma map_of_filter_keys: "map_of (filter (\<lambda>(k, _). P k) m) k = (if P k then map_of m k else None)"
  by (induction m) auto

lemma map_of_dropOrg:
  "plainOrg og \<Longrightarrow> plainOrg og' \<Longrightarrow>
   map_of (dropOrg og' m) (indexKey og coll) = (if og = og' then None else map_of m (indexKey og coll))"
  using map_of_filter_keys[of "\<lambda>key. \<not> hasPrefix key (og' @ [CHR 0x00])" m]
  by (simp add: dropOrg_def indexKey_prefix)

lemma docsOf_upd: "docsOf merge (m(k := x)) = (docsOf merge m)(k := (case x of None \<Rightarrow> None | Some raw \<Rightarrow> searchFields merge raw))"
  by (auto simp: docsOf_def)

lemma replay1_coll:
  "\<not> (ev_deleted ev \<and> ev_coll ev = []) \<Longrightarrow>
   replay1 ev M og coll = (if og = ev_org ev \<and> coll = ev_coll ev
     then (M og coll)(ev_key ev := (if ev_deleted ev then None else ev_value ev)) else M og coll)"
  by (auto simp: replay1_def)

lemma coherent_observe:
  assumes c: "coherent reg M" and ev: "plainOrg (ev_org ev)"
  shows "coherent (observe ev reg) (replay1 ev M)"
proof (cases "ev_deleted ev \<and> ev_coll ev = []")
  case True
  then show ?thesis
    using c ev by (auto simp: coherent_def observe_def map_of_dropOrg replay1_def[abs_def] split: if_splits)
next
  case False
  let ?key = "indexKey (ev_org ev) (ev_coll ev)"
  show ?thesis
    unfolding coherent_def
  proof (intro allI impI)
    fix og coll idx
    assume og: "plainOrg og" and idx: "map_of (observe ev reg) (indexKey og coll) = Some idx"
    show "ci_merge idx = mergeFor coll \<and> represents idx (docsOf (mergeFor coll) (replay1 ev M og coll))"
    proof (cases "og = ev_org ev \<and> coll = ev_coll ev")
      case True
      with idx False obtain i where i: "map_of reg ?key = Some i"
        and idx': "idx = (if ev_deleted ev then indexRemove (ev_key ev) i
          else case ev_value ev of None \<Rightarrow> indexRemove (ev_key ev) i | Some raw \<Rightarrow> putRaw (ev_key ev) raw i)"
        by (auto simp: observe_def Let_def map_of_update split: option.splits if_splits)
      from c ev i have "ci_merge i = mergeFor coll" "represents i (docsOf (mergeFor coll) (M og coll))"
        using True unfolding coherent_def by blast+
      then show ?thesis
        using represents_remove[of i _ "ev_key ev"] represents_putRaw[of i _ "ev_key ev"]
        by (auto simp: idx' replay1_coll[OF False] True docsOf_upd split: option.split)
    next
      case other: False
      then have "indexKey og coll \<noteq> ?key" using og ev by (auto simp: indexKey_inj)
      with idx False have "map_of reg (indexKey og coll) = Some idx"
        by (auto simp: observe_def Let_def map_of_update split: option.splits if_splits)
      with c og other show ?thesis by (auto simp: coherent_def replay1_coll[OF False])
    qed
  qed
qed

lemma coherent_fold:
  "coherent reg M \<Longrightarrow> list_all (\<lambda>ev. plainOrg (ev_org ev)) es \<Longrightarrow>
   coherent (fold observe es reg) (fold replay1 es M)"
  by (induction es arbitrary: reg M) (auto simp: coherent_observe)

lemma coherent_indexGet:
  assumes "coherent reg (stored s)" and "plainOrg og" and "wf_backend (backend s)"
  shows "wpE (indexGet og coll (mergeFor coll) reg)
     (\<lambda>(idx, reg') s'. same s s' \<and> coherent reg' (stored s) \<and> map_of reg' (indexKey og coll) = Some idx)
     (\<lambda>_ s'. same s s') s"
proof (cases "map_of reg (indexKey og coll)")
  case None
  let ?es = "coll_of (backend s) og coll"
  have "docsOf (mergeFor coll) (stored s og coll) = builtDocs (mergeFor coll) ?es"
    using builtDocs_distinct[OF distinct_coll_of[OF assms(3)], of "mergeFor coll" og coll]
    by (simp add: kv_def[abs_def])
  then have "coherent (AList.update (indexKey og coll) (buildIndex (mergeFor coll) ?es) reg) (stored s)"
    using assms(1,2) represents_build[of "mergeFor coll" ?es]
    by (auto simp: coherent_def map_of_update indexKey_inj)
  with None show ?thesis
    by (auto simp: indexGet_def wp Let_def map_of_update intro!: wpI)
qed (simp add: indexGet_def wp assms)

lemma coherent_new:
  assumes "plainOrg og"
  shows "coherent [(indexKey og coll, newCollIndex (mergeFor coll))] (kv NewMemoryBackend)"
proof -
  have "docsOf merge (kv NewMemoryBackend og c) = (\<lambda>_. None)" for merge og c
    by (rule ext) (simp add: docsOf_def kv_def coll_of_def NewMemoryBackend_def)
  then show ?thesis
    using assms represents_new[of "mergeFor coll"]
    by (auto simp: coherent_def newCollIndex_def indexKey_inj split: if_splits)
qed

section \<open>Properties\<close>

text \<open>C12. Planning is evaluation: for every query string that parses and every collection content,
  resolving the query through the inverted index built from the collection yields exactly the
  documents the query matches, for any reading of floating-point bounds.\<close>

theorem Plan_agrees_with_Matches:
  assumes "ParseQuery str = Inr q"
  shows "Plan fl q (postingsView (buildIndex merge es)) =
    Some {did. \<exists>f. builtDocs merge es did = Some f \<and> Matches fl q f}"
  using ParseQuery_total[of str] assms by (intro built.plan_agrees) simp

theorem Plan_agrees_with_Matches_witness:
  "ParseQuery ''name:web* OR role:db'' =
     Inr (OrQ (TermQ ''name'' ''web*'' False (Some [GLit ''w'', GLit ''e'', GLit ''b'', GStar])) (TermQ ''role'' ''db'' False None)) \<and>
   Plan \<lparr>parseFloat = (\<lambda>_. None :: int option), flt = (<), feq = (=)\<rparr>
     (OrQ (TermQ ''name'' ''web*'' False (Some [GLit ''w'', GLit ''e'', GLit ''b'', GStar])) (TermQ ''role'' ''db'' False None))
     (postingsView (buildIndex False [(''a'', Doc (JObj [(''name'', JStr ''Web1'')]))])) =
   Some {did. \<exists>f. builtDocs False [(''a'', Doc (JObj [(''name'', JStr ''Web1'')]))] did = Some f \<and>
     Matches \<lparr>parseFloat = (\<lambda>_. None :: int option), flt = (<), feq = (=)\<rparr>
       (OrQ (TermQ ''name'' ''web*'' False (Some [GLit ''w'', GLit ''e'', GLit ''b'', GStar])) (TermQ ''role'' ''db'' False None)) f}"
proof -
  have p: "ParseQuery ''name:web* OR role:db'' =
     Inr (OrQ (TermQ ''name'' ''web*'' False (Some [GLit ''w'', GLit ''e'', GLit ''b'', GStar])) (TermQ ''role'' ''db'' False None))"
    by code_simp
  show ?thesis using p Plan_agrees_with_Matches[OF p] by blast
qed

text \<open>C24. The search indexes follow the store: if every registered index represents its collection,
  then after any sequence of writes, transactions and organization deletions (with any backend
  failures), applying the emitted events leaves every registered index representing the current
  content of its collection.\<close>

theorem indexes_follow_store:
  assumes "coherent reg (kv (backend s))"
    and "list_all (op_ok (\<lambda>ev. plainOrg (ev_org ev))) ops"
  shows "coherent (fold observe (drop (length (emitted s)) (emitted (run_ops ops s))) reg)
           (kv (backend (run_ops ops s)))"
proof -
  obtain es where "emitted (run_ops ops s) = emitted s @ es" "list_all (\<lambda>ev. plainOrg (ev_org ev)) es"
    "stored (run_ops ops s) = fold replay1 es (stored s)"
    using run_ops_described[OF assms(2), of s] by (auto simp: described_def)
  then show ?thesis using coherent_fold[OF assms(1)] by simp
qed

theorem indexes_follow_store_witness:
  "coherent (fold observe (drop (length (emitted (NewWithBackend NewMemoryBackend :: body store)))
       (emitted (run_ops [OpPut ''o'' ''nodes'' ''n'' (Doc JNull), OpDeleteOrg ''o''] (NewWithBackend NewMemoryBackend))))
       [(indexKey ''o'' ''nodes'', newCollIndex (mergeFor ''nodes''))])
     (kv (backend (run_ops [OpPut ''o'' ''nodes'' ''n'' (Doc JNull), OpDeleteOrg ''o''] (NewWithBackend NewMemoryBackend))))"
  by (rule indexes_follow_store)
    (simp_all add: coherent_new event_of_def drop_event_def NewWithBackend_def)

end
