(* ===== verification/Group_Membership.thy ===== *)
theory Group_Membership
  imports Chef_Json Store_Facade
begin

text \<open>Groups: documents, incremental membership rows and the reverse index that authorization uses
  (\<^verbatim>\<open>src/internal/api/groupmembers.go\<close>, \<^verbatim>\<open>groupindex.go\<close>, \<^verbatim>\<open>authzdoc.go\<close> and the document
  functions of \<^verbatim>\<open>authz.go\<close>).

  A group's effective membership is what its document lists plus the rows
  \<open>group NUL kind NUL actor\<close>. The index inverts it; \<open>membership\<close> expands nesting by a work list,
  which terminates on cycles because a group enters the list once.\<close>

record Actor =
  a_Name :: string
  a_IsClient :: bool
  a_IsGlobalAdmin :: bool
  a_ViaWebUI :: bool

definition groupMembersColl :: string where "groupMembersColl = ''group_members''"
definition memberUsers :: string where "memberUsers = ''users''"
definition memberClients :: string where "memberClients = ''clients''"
definition memberGroups :: string where "memberGroups = ''groups''"

lemmas member_kinds = memberUsers_def memberClients_def memberGroups_def groupMembersColl_def groupsColl_def

section \<open>Rows\<close>

definition memberKey :: "string \<Rightarrow> string \<Rightarrow> string \<Rightarrow> string" where
  "memberKey grp kind actor = grp @ [CHR 0x00] @ kind @ [CHR 0x00] @ actor"

definition splitMemberKey :: "string \<Rightarrow> (string \<times> string \<times> string) option" where
  "splitMemberKey key = (case splitOn CHR 0x00 key of [g, k, a] \<Rightarrow> Some (g, k, a) | _ \<Rightarrow> None)"

definition addMember :: "string \<Rightarrow> string \<Rightarrow> string \<Rightarrow> string \<Rightarrow> (body store, serr, unit) act" where
  "addMember og grp kind actor = org_Put og groupMembersColl (memberKey grp kind actor) (Doc (JObj []))"

definition clearMembers :: "string \<Rightarrow> string \<Rightarrow> (body store, serr, unit) act" where
  "clearMembers og grp =
     bindE (org_Range og groupMembersColl) (\<lambda>es.
       forE (filter (\<lambda>key. hasPrefix key (grp @ [CHR 0x00])) (map fst es))
         (\<lambda>key. bindE (org_Delete og groupMembersColl key) (\<lambda>_. ret ())))"

definition removeMemberRows :: "string \<Rightarrow> string \<Rightarrow> string \<Rightarrow> (body store, serr, unit) act" where
  "removeMemberRows og kind actor =
     bindE (org_Range og groupMembersColl) (\<lambda>es.
       forE (filter (\<lambda>key. hasSuffix key ([CHR 0x00] @ kind @ [CHR 0x00] @ actor)) (map fst es))
         (\<lambda>key. bindE (org_Delete og groupMembersColl key) (\<lambda>_. ret ())))"

section \<open>Documents\<close>

definition groupMembers :: "members \<Rightarrow> string list \<times> string list \<times> string list" where
  "groupMembers obj =
     (let src = (case map_of obj ''actors'' of Some (JObj nested) \<Rightarrow> nested | _ \<Rightarrow> obj)
      in (jsonStrings (map_of src ''users''), jsonStrings (map_of src ''clients''), jsonStrings (map_of src ''groups'')))"

definition strs :: "string list \<Rightarrow> json list" where
  "strs ss = map JStr ss"

definition groupJSON :: "string \<Rightarrow> string \<Rightarrow> string list \<Rightarrow> string list \<Rightarrow> string list \<Rightarrow> body" where
  "groupJSON name orgname users clients groups =
     Doc (JObj ([(''actors'', JArr (strs clients @ strs users)), (''users'', JArr (strs users)),
                 (''clients'', JArr (strs clients)), (''groups'', JArr (strs groups))] @
                (if orgname \<noteq> [] then [(''orgname'', JStr orgname)] else []) @
                [(''name'', JStr name), (''groupname'', JStr name)]))"

definition without :: "string list \<Rightarrow> string \<Rightarrow> string list \<times> bool" where
  "without ss v = (let out = filter (\<lambda>e. e \<noteq> v) ss in (out, length out \<noteq> length ss))"

definition withoutKind :: "string \<Rightarrow> string \<Rightarrow> string list \<times> string list \<times> string list \<Rightarrow>
    (string list \<times> string list \<times> string list) \<times> bool" where
  "withoutKind kind actor m =
     (let (users, clients, groups) = m in
      if kind = memberUsers then (let (u, ch) = without users actor in ((u, clients, groups), ch))
      else if kind = memberClients then (let (c, ch) = without clients actor in ((users, c, groups), ch))
      else if kind = memberGroups then (let (g, ch) = without groups actor in ((users, clients, g), ch))
      else (m, False))"

definition removeFromGroupDoc :: "string \<Rightarrow> string \<Rightarrow> string \<Rightarrow> string \<Rightarrow> (body store, serr, unit) act" where
  "removeFromGroupDoc og kind actor name =
     bindE (org_Get og groupsColl name) (\<lambda>raw.
       case raw of
         None \<Rightarrow> ret ()
       | Some b \<Rightarrow>
           (case UnmarshalMap b of
              None \<Rightarrow> ret ()
            | Some g \<Rightarrow>
                (let ((users, clients, groups), changed) = withoutKind kind actor (groupMembers g) in
                 if \<not> changed then ret ()
                 else org_Put og groupsColl name (groupJSON name [] users clients groups))))"

definition removeFromGroupDocs :: "string \<Rightarrow> string \<Rightarrow> string \<Rightarrow> (body store, serr, unit) act" where
  "removeFromGroupDocs og kind actor =
     bindE (org_Keys og groupsColl) (\<lambda>names. forE names (removeFromGroupDoc og kind actor))"

definition removeActorFromAllGroups :: "string \<Rightarrow> string \<Rightarrow> string \<Rightarrow> (body store, serr, unit) act" where
  "removeActorFromAllGroups og kind actor =
     bindE (removeMemberRows og kind actor) (\<lambda>_. removeFromGroupDocs og kind actor)"

text \<open>Folding one row into the lists read from the document.\<close>

definition foldRow :: "string \<Rightarrow> string \<Rightarrow> string list \<times> string list \<times> string list \<Rightarrow>
    string list \<times> string list \<times> string list" where
  "foldRow grp key m =
     (if \<not> hasPrefix key (grp @ [CHR 0x00]) then m
      else (case splitMemberKey key of
          None \<Rightarrow> m
        | Some (_, kind, actor) \<Rightarrow>
            (let (users, clients, groups) = m;
                 add = (\<lambda>xs. if actor \<in> set xs then xs else xs @ [actor])
             in if kind = memberUsers then (add users, clients, groups)
                else if kind = memberClients then (users, add clients, groups)
                else if kind = memberGroups then (users, clients, add groups)
                else m)))"

definition docMembers :: "body option \<Rightarrow> string list \<times> string list \<times> string list" where
  "docMembers raw = (case raw of None \<Rightarrow> ([], [], [])
     | Some b \<Rightarrow> (case UnmarshalMap b of None \<Rightarrow> ([], [], []) | Some g \<Rightarrow> groupMembers g))"

definition groupMembership :: "string \<Rightarrow> string \<Rightarrow> (body store, serr, string list \<times> string list \<times> string list) act" where
  "groupMembership og grp =
     bindE (org_Get og groupsColl grp) (\<lambda>raw.
     bindE (org_Range og groupMembersColl) (\<lambda>es.
       ret (fold (foldRow grp) (map fst es) (docMembers raw))))"

section \<open>The reverse index\<close>

record groupIndex =
  gi_gen :: nat
  gi_users :: "(string \<times> string list) list"
  gi_clients :: "(string \<times> string list) list"
  gi_nests :: "(string \<times> string list) list"

definition decodeMembers :: "body \<Rightarrow> (string list \<times> string list \<times> string list) option" where
  "decodeMembers raw = (case raw of
     Doc (JObj ms) \<Rightarrow>
       (case (typedField ms ''users'', typedField ms ''clients'', typedField ms ''groups'') of
          (Some u, Some c, Some g) \<Rightarrow> Some (u, c, g)
        | _ \<Rightarrow> None)
   | Doc JNull \<Rightarrow> Some ([], [], [])
   | _ \<Rightarrow> None)"

definition indexMembers :: "body \<Rightarrow> string list \<times> string list \<times> string list" where
  "indexMembers raw = (case decodeMembers raw of
     Some m \<Rightarrow> m
   | None \<Rightarrow> (case UnmarshalMap raw of
        None \<Rightarrow> ([], [], [])
      | Some g \<Rightarrow> (jsonStrings (map_of g ''users''), jsonStrings (map_of g ''clients''), jsonStrings (map_of g ''groups''))))"

definition appendTo :: "string \<Rightarrow> string \<Rightarrow> (string \<times> string list) list \<Rightarrow> (string \<times> string list) list" where
  "appendTo grp who m = AList.update who (getd [] m who @ [grp]) m"

definition addAll :: "string \<Rightarrow> string list \<times> string list \<times> string list \<Rightarrow> groupIndex \<Rightarrow> groupIndex" where
  "addAll grp m idx =
     (let (users, clients, nested) = m in
      idx\<lparr>gi_users := fold (appendTo grp) users (gi_users idx),
          gi_clients := fold (appendTo grp) clients (gi_clients idx),
          gi_nests := fold (appendTo grp) nested (gi_nests idx)\<rparr>)"

definition addUnique :: "string \<Rightarrow> string \<Rightarrow> (string \<times> string list) list \<Rightarrow> (string \<times> string list) list" where
  "addUnique grp who m = (if grp \<in> set (getd [] m who) then m else appendTo grp who m)"

definition addOne :: "string \<Rightarrow> string \<Rightarrow> string \<Rightarrow> groupIndex \<Rightarrow> groupIndex" where
  "addOne grp kind actor idx =
     (if kind = memberUsers then idx\<lparr>gi_users := addUnique grp actor (gi_users idx)\<rparr>
      else if kind = memberClients then idx\<lparr>gi_clients := addUnique grp actor (gi_clients idx)\<rparr>
      else if kind = memberGroups then idx\<lparr>gi_nests := addUnique grp actor (gi_nests idx)\<rparr>
      else idx)"

definition addRow :: "string \<Rightarrow> groupIndex \<Rightarrow> groupIndex" where
  "addRow key idx = (case splitMemberKey key of None \<Rightarrow> idx | Some (g, k, a) \<Rightarrow> addOne g k a idx)"

definition newGroupIndex :: "nat \<Rightarrow> groupIndex" where
  "newGroupIndex gen = \<lparr>gi_gen = gen, gi_users = [], gi_clients = [], gi_nests = []\<rparr>"

definition groupsGeneration :: "(body store, serr, nat) act" where
  "groupsGeneration s = (Inr (groupsGen s), s)"

definition buildGroupIndex :: "string \<Rightarrow> (body store, serr, groupIndex) act" where
  "buildGroupIndex og =
     bindE groupsGeneration (\<lambda>gen.
     bindE (org_Range og groupsColl) (\<lambda>docs.
     bindE (org_Range og groupMembersColl) (\<lambda>rows.
       ret (fold addRow (map fst rows)
         (fold (\<lambda>(name, raw). addAll name (indexMembers raw)) docs (newGroupIndex gen))))))"

section \<open>Transitive membership\<close>

definition enqueue :: "string \<Rightarrow> string list \<Rightarrow> string list" where
  "enqueue name queue = (if name \<in> set queue then queue else queue @ [name])"

text \<open>The work list is the set of groups found so far; \<open>i\<close> is the next one to expand.\<close>

function expandFrom :: "(string \<times> string list) list \<Rightarrow> string list \<Rightarrow> nat \<Rightarrow> string list" where
  "expandFrom nests queue i =
     (if i < length queue then expandFrom nests (fold enqueue (getd [] nests (queue ! i)) queue) (Suc i)
      else queue)"
  by pat_completeness auto

lemma fold_enqueue_measure:
  "set xs \<subseteq> U \<Longrightarrow> finite U \<Longrightarrow>
   length (fold enqueue xs q) + card (U - set (fold enqueue xs q)) = length q + card (U - set q)"
proof (induction xs arbitrary: q)
  case (Cons x xs)
  have "length (enqueue x q) + card (U - set (enqueue x q)) = length q + card (U - set q)"
  proof (cases "x \<in> set q")
    case False
    have "U - set (q @ [x]) = (U - set q) - {x}" by auto
    moreover have "x \<in> U - set q" using Cons.prems False by simp
    ultimately show ?thesis
      using card_Suc_Diff1[of "U - set q" x] Cons.prems False by (simp add: enqueue_def)
  qed (simp add: enqueue_def)
  with Cons show ?case by simp
qed simp

termination expandFrom
proof (relation "measure (\<lambda>(nests, queue, i). length queue + card (set (concat (map snd nests)) - set queue) - i)")
  fix nests :: "(string \<times> string list) list" and queue :: "string list" and i :: nat
  assume i: "i < length queue"
  let ?U = "set (concat (map snd nests))"
  let ?xs = "getd [] nests (queue ! i)"
  have "set ?xs \<subseteq> ?U"
    using getd_Nil_cases[of nests "queue ! i"] by force
  then have "length (fold enqueue ?xs queue) + card (?U - set (fold enqueue ?xs queue)) = length queue + card (?U - set queue)"
    by (rule fold_enqueue_measure) simp
  with i show "((nests, fold enqueue ?xs queue, Suc i), nests, queue, i)
      \<in> measure (\<lambda>(nests, queue, i). length queue + card (set (concat (map snd nests)) - set queue) - i)"
    by simp
qed simp

declare expandFrom.simps [simp del]

definition membership :: "groupIndex \<Rightarrow> Actor \<Rightarrow> string list" where
  "membership idx actor =
     (let direct = getd [] (if a_IsClient actor then gi_clients idx else gi_users idx) (a_Name actor)
      in expandFrom (gi_nests idx) (fold enqueue direct []) 0)"

section \<open>The cache\<close>

type_synonym groupCache = "(string \<times> groupIndex) list"

definition cacheGet :: "string \<Rightarrow> groupCache \<Rightarrow> (body store, serr, groupIndex \<times> groupCache) act" where
  "cacheGet og cache =
     bindE groupsGeneration (\<lambda>gen.
       case map_of cache og of
         Some idx \<Rightarrow>
           if gi_gen idx = gen then ret (idx, cache)
           else bindE (buildGroupIndex og) (\<lambda>built. ret (built, AList.update og built cache))
       | None \<Rightarrow> bindE (buildGroupIndex og) (\<lambda>built. ret (built, AList.update og built cache)))"

definition cacheObserve :: "body event \<Rightarrow> groupCache \<Rightarrow> groupCache" where
  "cacheObserve ev cache =
     (if ev_coll ev \<noteq> groupMembersColl then cache
      else (case splitMemberKey (ev_key ev) of
          None \<Rightarrow> cache
        | Some (grp, kind, actor) \<Rightarrow>
            (case map_of cache (ev_org ev) of
               None \<Rightarrow> cache
             | Some idx \<Rightarrow>
                 if ev_deleted ev then AList.delete (ev_org ev) cache
                 else AList.update (ev_org ev) (addOne grp kind actor idx) cache)))"

definition cachedActorGroups :: "groupCache \<Rightarrow> string \<Rightarrow> Actor \<Rightarrow> (body store, serr, string list \<times> groupCache) act" where
  "cachedActorGroups cache og actor =
     bindE (cacheGet og cache) (\<lambda>(idx, cache'). ret (membership idx actor, cache'))"

definition actorGroups :: "string \<Rightarrow> Actor \<Rightarrow> (body store, serr, string list) act" where
  "actorGroups og actor = bindE (buildGroupIndex og) (\<lambda>idx. ret (membership idx actor))"

section \<open>Expansion is reachability\<close>

definition nestEdges :: "(string \<times> string list) list \<Rightarrow> (string \<times> string) set" where
  "nestEdges nests = {(g, outer). outer \<in> set (getd [] nests g)}"

lemma set_fold_enqueue [simp]: "set (fold enqueue xs q) = set q \<union> set xs"
  by (induction xs arbitrary: q) (auto simp: enqueue_def)

lemma fold_enqueue_append: "\<exists>ys. fold enqueue xs q = q @ ys"
proof (induction xs arbitrary: q)
  case (Cons x xs)
  obtain ys where "fold enqueue xs (enqueue x q) = enqueue x q @ ys" using Cons by blast
  then show ?case by (cases "x \<in> set q") (auto simp: enqueue_def[of x])
qed simp

lemma expandFrom_reach:
  "(\<And>j. j < i \<Longrightarrow> j < length queue \<Longrightarrow> nestEdges nests `` {queue ! j} \<subseteq> set queue) \<Longrightarrow>
   set (expandFrom nests queue i) = (nestEdges nests)\<^sup>* `` set queue"
proof (induction nests queue i rule: expandFrom.induct)
  case (1 nests queue i)
  show ?case
  proof (cases "i < length queue")
    case True
    let ?xs = "getd [] nests (queue ! i)"
    obtain ys where q': "fold enqueue ?xs queue = queue @ ys" using fold_enqueue_append by blast
    have xs: "set ?xs = nestEdges nests `` {queue ! i}" by (auto simp: nestEdges_def)
    have "set (expandFrom nests (fold enqueue ?xs queue) (Suc i)) = (nestEdges nests)\<^sup>* `` set (fold enqueue ?xs queue)"
    proof (rule "1.IH"[OF True])
      fix j assume j: "j < Suc i" "j < length (fold enqueue ?xs queue)"
      with True have "(fold enqueue ?xs queue) ! j = queue ! j" by (simp add: q' nth_append)
      then show "nestEdges nests `` {fold enqueue ?xs queue ! j} \<subseteq> set (fold enqueue ?xs queue)"
        using "1.prems"[of j] j True xs by (cases "j = i") auto
    qed
    also have "\<dots> = (nestEdges nests)\<^sup>* `` (set queue \<union> nestEdges nests `` {queue ! i})"
      by (simp add: xs)
    also have "\<dots> = (nestEdges nests)\<^sup>* `` set queue"
    proof -
      have "(nestEdges nests)\<^sup>* `` (nestEdges nests `` {queue ! i}) \<subseteq> (nestEdges nests)\<^sup>* `` set queue"
        using nth_mem[OF True] by (auto intro: converse_rtrancl_into_rtrancl)
      then show ?thesis unfolding Image_Un by (rule Un_absorb2)
    qed
    finally show ?thesis using True by (subst expandFrom.simps) simp
  next
    case False
    have "nestEdges nests `` {x} \<subseteq> set queue" if x: "x \<in> set queue" for x
    proof -
      obtain j where j: "j < length queue" "x = queue ! j" using x by (auto simp: in_set_conv_nth)
      with False have "j < i" by simp
      from "1.prems"[OF this j(1)] j(2) show ?thesis by simp
    qed
    then have "nestEdges nests `` set queue \<subseteq> set queue" by blast
    then have "(nestEdges nests)\<^sup>* `` set queue = set queue" by (rule Image_closed_trancl)
    with False show ?thesis by (subst expandFrom.simps) simp
  qed
qed

lemma set_membership:
  "set (membership idx actor) = (nestEdges (gi_nests idx))\<^sup>* ``
     set (getd [] (if a_IsClient actor then gi_clients idx else gi_users idx) (a_Name actor))"
  by (simp add: membership_def Let_def expandFrom_reach)

section \<open>What an index holds\<close>

text \<open>The pairs (member, group) of one kind an index records, and those a store content holds.\<close>

definition listed :: "(string \<times> string list) list \<Rightarrow> (string \<times> string) set" where
  "listed m = {(who, g). g \<in> set (getd [] m who)}"

definition selectKind :: "string \<Rightarrow> 'a \<times> 'a \<times> 'a \<Rightarrow> 'a \<Rightarrow> 'a" where
  "selectKind kind m none = (if kind = memberUsers then fst m else if kind = memberClients then fst (snd m)
     else if kind = memberGroups then snd (snd m) else none)"

definition indexed_kind :: "string \<Rightarrow> groupIndex \<Rightarrow> (string \<times> string) set" where
  "indexed_kind kind idx = selectKind kind (listed (gi_users idx), listed (gi_clients idx), listed (gi_nests idx)) {}"

definition docPairs :: "string \<Rightarrow> string \<Rightarrow> body \<Rightarrow> (string \<times> string) set" where
  "docPairs kind g raw = {(who, g') | who g'. g' = g \<and> who \<in> set (selectKind kind (indexMembers raw) [])}"

definition rowPairs :: "string \<Rightarrow> string \<Rightarrow> (string \<times> string) set" where
  "rowPairs kind key = {(who, g). splitMemberKey key = Some (g, kind, who)}"

definition heldPairs :: "string \<Rightarrow> body mirror \<Rightarrow> string \<Rightarrow> (string \<times> string) set" where
  "heldPairs kind M og =
     {(who, g). \<exists>raw. M og groupsColl g = Some raw \<and> who \<in> set (selectKind kind (indexMembers raw) [])} \<union>
     {(who, g). \<exists>key. M og groupMembersColl key \<noteq> None \<and> splitMemberKey key = Some (g, kind, who)}"

definition isKind :: "string \<Rightarrow> bool" where
  "isKind kind = (kind = memberUsers \<or> kind = memberClients \<or> kind = memberGroups)"

lemma kinds_distinct [simp]:
  "memberUsers \<noteq> memberClients" "memberClients \<noteq> memberUsers" "memberUsers \<noteq> memberGroups"
  "memberGroups \<noteq> memberUsers" "memberClients \<noteq> memberGroups" "memberGroups \<noteq> memberClients"
  "groupMembersColl \<noteq> groupsColl" "groupsColl \<noteq> groupMembersColl" "groupsColl \<noteq> []" "groupMembersColl \<noteq> []"
  by (simp_all add: member_kinds)

lemma selectKind_simps [simp]:
  "selectKind memberUsers m d = fst m" "selectKind memberClients m d = fst (snd m)" "selectKind memberGroups m d = snd (snd m)"
  by (simp_all add: selectKind_def)

lemma listed_appendTo: "listed (appendTo g who m) = insert (who, g) (listed m)"
  by (auto simp: listed_def appendTo_def split: if_splits)

lemma listed_addUnique: "listed (addUnique g who m) = insert (who, g) (listed m)"
  by (auto simp: addUnique_def listed_appendTo) (auto simp: listed_def)

lemma listed_fold_appendTo: "listed (fold (appendTo g) ws m) = listed m \<union> {(w, g) | w. w \<in> set ws}"
  by (induction ws arbitrary: m) (auto simp: listed_appendTo)

lemma indexed_addAll:
  "indexed_kind kind (addAll g m idx) = indexed_kind kind idx \<union> {(w, g) | w. w \<in> set (selectKind kind m [])}"
  by (cases m) (auto simp: indexed_kind_def addAll_def selectKind_def listed_fold_appendTo)

lemma indexed_addOne:
  "indexed_kind kind (addOne g k a idx) = indexed_kind kind idx \<union> (if kind = k \<and> isKind kind then {(a, g)} else {})"
  by (auto simp: indexed_kind_def addOne_def selectKind_def listed_addUnique isKind_def)

lemma indexed_addRow:
  "indexed_kind kind (addRow key idx) = indexed_kind kind idx \<union> (if isKind kind then rowPairs kind key else {})"
  by (auto simp: addRow_def rowPairs_def indexed_addOne split: option.splits)

lemma indexed_fold_rows:
  "indexed_kind kind (fold addRow keys idx) =
     indexed_kind kind idx \<union> (if isKind kind then \<Union>(rowPairs kind ` set keys) else {})"
  by (induction keys arbitrary: idx) (auto simp: indexed_addRow)

lemma indexed_fold_docs:
  "indexed_kind kind (fold (\<lambda>(name, raw). addAll name (indexMembers raw)) docs idx) =
     indexed_kind kind idx \<union> (\<Union>(name, raw) \<in> set docs. {(w, name) | w. w \<in> set (selectKind kind (indexMembers raw) [])})"
  by (induction docs arbitrary: idx) (auto simp: indexed_addAll)

lemma indexed_new [simp]: "indexed_kind kind (newGroupIndex gen) = {}"
  by (simp add: indexed_kind_def newGroupIndex_def selectKind_def listed_def)

lemma gen_frame [simp]:
  "gi_gen (addAll g m idx) = gi_gen idx" "gi_gen (addOne g k a idx) = gi_gen idx" "gi_gen (addRow key idx) = gi_gen idx"
  by (auto simp: addAll_def addOne_def addRow_def split: prod.splits option.splits)

lemma fold_gen: "(\<And>x i. gi_gen (h x i) = gi_gen i) \<Longrightarrow> gi_gen (fold h xs idx) = gi_gen idx"
  by (induction xs arbitrary: idx) auto

text \<open>An index is exact for an organization when it lists what the store holds.\<close>

definition exact :: "groupIndex \<Rightarrow> body mirror \<Rightarrow> string \<Rightarrow> bool" where
  "exact idx M og = (\<forall>kind. isKind kind \<longrightarrow> indexed_kind kind idx = heldPairs kind M og)"

lemma build_exact:
  assumes "wf_backend b"
  shows "exact (fold addRow (map fst (coll_of b og groupMembersColl))
            (fold (\<lambda>(name, raw). addAll name (indexMembers raw)) (coll_of b og groupsColl) (newGroupIndex gen))) (kv b) og"
proof -
  have "(\<Union>(name, raw) \<in> set (coll_of b og groupsColl). {(w, name) | w. w \<in> set (selectKind kind (indexMembers raw) [])}) =
      {(who, g). \<exists>raw. kv b og groupsColl g = Some raw \<and> who \<in> set (selectKind kind (indexMembers raw) [])}" for kind
    using coll_of_kv[OF assms] by fastforce
  moreover have "\<Union>(rowPairs kind ` fst ` set (coll_of b og groupMembersColl)) =
      {(who, g). \<exists>key. kv b og groupMembersColl key \<noteq> None \<and> splitMemberKey key = Some (g, kind, who)}" for kind
    unfolding set_keys_kv by (auto simp: rowPairs_def)
  ultimately show ?thesis
    by (simp add: exact_def indexed_fold_rows indexed_fold_docs heldPairs_def)
qed

lemma wpE_groupsGeneration [wp]: "wpE groupsGeneration Q E s = Q (groupsGen s) s"
  by (simp add: groupsGeneration_def wpE_def)

lemma wp_buildGroupIndex:
  assumes "wf_backend (backend s)"
    and "\<And>idx s'. same s s' \<Longrightarrow> gi_gen idx = groupsGen s \<Longrightarrow> exact idx (stored s) og \<Longrightarrow> Q idx s'"
    and "\<And>s'. same s s' \<Longrightarrow> E ErrBackend s'"
  shows "wpE (buildGroupIndex og) Q E s"
proof -
  let ?idx = "fold addRow (map fst (coll_of (backend s) og groupMembersColl))
     (fold (\<lambda>(name, raw). addAll name (indexMembers raw)) (coll_of (backend s) og groupsColl) (newGroupIndex (groupsGen s)))"
  have "gi_gen ?idx = groupsGen s"
    by (simp add: fold_gen split_def newGroupIndex_def)
  then have Q: "Q ?idx s'" if "same s s'" for s'
    using assms(2) build_exact[OF assms(1)] that by blast
  have rows: "wpE (org_Range og groupMembersColl) (\<lambda>rows. Q (fold addRow (map fst rows)
     (fold (\<lambda>(name, raw). addAll name (indexMembers raw)) (coll_of (backend s) og groupsColl) (newGroupIndex (groupsGen s))))) E s1"
    if s1: "same s s1" for s1
  proof (rule wp_Range)
    fix s' assume "same s1 s'"
    with s1 have s': "same s s'" "backend s1 = backend s" by (auto simp: same_def)
    show "Q (fold addRow (map fst (coll_of (backend s1) og groupMembersColl))
       (fold (\<lambda>(name, raw). addAll name (indexMembers raw)) (coll_of (backend s) og groupsColl) (newGroupIndex (groupsGen s)))) s'"
      unfolding s'(2) by (rule Q[OF s'(1)])
    show "E ErrBackend s'" by (rule assms(3)[OF s'(1)])
  qed
  show ?thesis
    unfolding buildGroupIndex_def wp by (rule wp_Range) (rule rows assms(3), assumption)+
qed

section \<open>The cache follows the store\<close>

text \<open>A cached index of an organization is fresh when it was built at an earlier group generation,
  or is exact for the current content.\<close>

definition groupsFresh :: "string \<Rightarrow> nat \<Rightarrow> body mirror \<Rightarrow> groupCache \<Rightarrow> bool" where
  "groupsFresh og gen M cache = (\<forall>idx. map_of cache og = Some idx \<longrightarrow>
     gi_gen idx \<le> gen \<and> (gi_gen idx = gen \<longrightarrow> exact idx M og))"

text \<open>The events that the writes of the sources produce, other than the drop of the organization.\<close>

definition liveEvent :: "string \<Rightarrow> body event \<Rightarrow> bool" where
  "liveEvent og ev = ((ev_coll ev = [] \<longrightarrow> ev_org ev \<noteq> og) \<and> ev_deleted ev = (ev_value ev = None))"

lemma replay1_other_coll:
  "liveEvent og ev \<Longrightarrow> \<not> (ev_org ev = og \<and> ev_coll ev = c) \<Longrightarrow> replay1 ev M og c = M og c"
  by (auto simp: replay1_def liveEvent_def)

lemma replay1_this_coll:
  "ev_org ev = og \<Longrightarrow> ev_coll ev = c \<Longrightarrow> c \<noteq> [] \<Longrightarrow> liveEvent og ev \<Longrightarrow>
   replay1 ev M og c = (M og c)(ev_key ev := ev_value ev)"
  by (auto simp: replay1_def liveEvent_def)

lemma heldPairs_cong:
  "M og groupsColl = M' og groupsColl \<Longrightarrow> M og groupMembersColl = M' og groupMembersColl \<Longrightarrow>
   heldPairs kind M og = heldPairs kind M' og"
  by (simp add: heldPairs_def)

lemma heldPairs_row:
  assumes "M' og groupsColl = M og groupsColl" "M' og groupMembersColl = (M og groupMembersColl)(key := x)"
  shows "x \<noteq> None \<Longrightarrow> heldPairs kind M' og = heldPairs kind M og \<union> rowPairs kind key"
    and "splitMemberKey key = None \<Longrightarrow> heldPairs kind M' og = heldPairs kind M og"
proof -
  show "heldPairs kind M' og = heldPairs kind M og \<union> rowPairs kind key" if "x \<noteq> None"
    using that by (auto simp: heldPairs_def rowPairs_def assms)
  show "heldPairs kind M' og = heldPairs kind M og" if none: "splitMemberKey key = None"
  proof -
    have "(M' og groupMembersColl k \<noteq> None \<and> splitMemberKey k = Some z) = (M og groupMembersColl k \<noteq> None \<and> splitMemberKey k = Some z)" for k z
      using none by (cases "k = key") (simp_all add: assms)
    then show ?thesis by (simp only: heldPairs_def assms(1))
  qed
qed

lemma groupsFresh_observe:
  assumes fresh: "groupsFresh og gen M cache" and ev: "liveEvent og ev"
    and gen: "gen + (if ev_coll ev = groupsColl then 1 else 0) \<le> gen'"
  shows "groupsFresh og gen' (replay1 ev M) (cacheObserve ev cache)"
proof (cases "ev_org ev = og \<and> ev_coll ev = groupMembersColl")
  case False
  then have same: "map_of (cacheObserve ev cache) og = map_of cache og"
    by (auto simp: cacheObserve_def gomap split: option.split)
  show ?thesis
    unfolding groupsFresh_def same
  proof (intro allI impI)
    fix idx assume "map_of cache og = Some idx"
    with fresh have idx: "gi_gen idx \<le> gen" "gi_gen idx = gen \<Longrightarrow> exact idx M og"
      by (auto simp: groupsFresh_def)
    have "exact idx (replay1 ev M) og" if "gi_gen idx = gen'"
    proof -
      from that gen idx have "ev_coll ev \<noteq> groupsColl" "exact idx M og" by (auto split: if_splits)
      with False show ?thesis
        using heldPairs_cong[of "replay1 ev M" og M] replay1_other_coll[OF ev]
        by (simp add: exact_def)
    qed
    with idx gen show "gi_gen idx \<le> gen' \<and> (gi_gen idx = gen' \<longrightarrow> exact idx (replay1 ev M) og)" by auto
  qed
next
  case True
  then have M': "replay1 ev M og groupsColl = M og groupsColl"
    "replay1 ev M og groupMembersColl = (M og groupMembersColl)(ev_key ev := ev_value ev)"
    using replay1_other_coll[OF ev] replay1_this_coll[OF _ _ _ ev] by auto
  show ?thesis
    unfolding groupsFresh_def
  proof (intro allI impI)
    fix idx assume idx: "map_of (cacheObserve ev cache) og = Some idx"
    then obtain old where old: "map_of cache og = Some old"
      using True by (auto simp: cacheObserve_def gomap split: option.splits if_splits)
    with fresh have g: "gi_gen old \<le> gen" "gi_gen old = gen \<Longrightarrow> exact old M og" by (auto simp: groupsFresh_def)
    have "gi_gen idx = gi_gen old \<and> (exact old M og \<longrightarrow> exact idx (replay1 ev M) og)"
    proof (cases "splitMemberKey (ev_key ev)")
      case None
      with True idx old show ?thesis
        using heldPairs_row(2)[where M = M and M' = "replay1 ev M", OF M' None] by (simp add: cacheObserve_def exact_def)
    next
      case (Some p)
      obtain g k a where p: "p = (g, k, a)" by (cases p) auto
      with True idx old Some have "\<not> ev_deleted ev" "idx = addOne g k a old"
        by (auto simp: cacheObserve_def gomap split: if_splits)
      moreover from this have "ev_value ev \<noteq> None" using ev by (simp add: liveEvent_def)
      ultimately show ?thesis
        using heldPairs_row(1)[where M = M and M' = "replay1 ev M", OF M'] Some p
        by (auto simp: exact_def indexed_addOne rowPairs_def)
    qed
    with g gen show "gi_gen idx \<le> gen' \<and> (gi_gen idx = gen' \<longrightarrow> exact idx (replay1 ev M) og)" by auto
  qed
qed

lemma groupsFresh_fold:
  "groupsFresh og gen M cache \<Longrightarrow> list_all (liveEvent og) es \<Longrightarrow> gen + groupEvents es \<le> gen' \<Longrightarrow>
   groupsFresh og gen' (fold replay1 es M) (fold cacheObserve es cache)"
proof (induction es arbitrary: gen M cache)
  case Nil
  then show ?case by (auto simp: groupsFresh_def)
next
  case (Cons ev es)
  let ?gen = "gen + (if ev_coll ev = groupsColl then 1 else 0)"
  have "groupsFresh og ?gen (replay1 ev M) (cacheObserve ev cache)"
    using Cons.prems by (intro groupsFresh_observe[OF Cons.prems(1)]) auto
  then show ?case using Cons.prems by (auto intro!: Cons.IH split: if_splits)
qed

lemma op_ok_mono:
  "op_ok ok opr \<Longrightarrow> (\<And>og c k v. ok (event_of og c k v) \<Longrightarrow> ok' (event_of og c k v)) \<Longrightarrow>
   (\<And>name. ok (drop_event name) \<Longrightarrow> ok' (drop_event name)) \<Longrightarrow> op_ok ok' opr"
  by (induction ok opr rule: op_ok.induct) (auto simp: list_all_iff)

text \<open>What membership means: the groups that list the actor, and every group they are nested in.\<close>

definition effectiveGroups :: "body mirror \<Rightarrow> string \<Rightarrow> Actor \<Rightarrow> string set" where
  "effectiveGroups M og actor = (heldPairs memberGroups M og)\<^sup>* ``
     {g. (a_Name actor, g) \<in> heldPairs (if a_IsClient actor then memberClients else memberUsers) M og}"

lemma nestEdges_listed: "nestEdges nests = listed nests"
  by (simp add: nestEdges_def listed_def)

lemma membership_exact:
  assumes "exact idx M og"
  shows "set (membership idx actor) = effectiveGroups M og actor"
proof -
  have "listed (gi_nests idx) = heldPairs memberGroups M og"
    and "listed (if a_IsClient actor then gi_clients idx else gi_users idx) =
      heldPairs (if a_IsClient actor then memberClients else memberUsers) M og"
    using assms by (auto simp: exact_def isKind_def indexed_kind_def)
  moreover have "set (getd [] m who) = {g. (who, g) \<in> listed m}" for m who by (simp add: listed_def)
  ultimately show ?thesis
    by (simp add: set_membership nestEdges_listed effectiveGroups_def)
qed

lemma distinct_fold_enqueue: "distinct q \<Longrightarrow> distinct (fold enqueue xs q)"
  by (induction xs arbitrary: q) (auto simp: enqueue_def)

lemma distinct_expandFrom: "distinct queue \<Longrightarrow> distinct (expandFrom nests queue i)"
  by (induction nests queue i rule: expandFrom.induct) (subst expandFrom.simps, auto simp: distinct_fold_enqueue)

lemma distinct_membership: "distinct (membership idx actor)"
  by (simp add: membership_def Let_def distinct_expandFrom distinct_fold_enqueue)

lemma wp_cacheGet:
  assumes "wfS s" and fresh: "groupsFresh og (groupsGen s) (stored s) cache"
    and Q: "\<And>idx cache' s'. same s s' \<Longrightarrow> exact idx (stored s) og \<Longrightarrow>
      groupsFresh og (groupsGen s) (stored s) cache' \<Longrightarrow> Q (idx, cache') s'"
    and E: "\<And>s'. same s s' \<Longrightarrow> E ErrBackend s'"
  shows "wpE (cacheGet og cache) Q E s"
proof -
  have build: "wpE (buildGroupIndex og) (\<lambda>built. Q (built, AList.update og built cache)) E s"
  proof (rule wp_buildGroupIndex[OF assms(1)])
    fix idx s' assume "same s s'" "gi_gen idx = groupsGen s" "exact idx (stored s) og"
    then show "Q (idx, AList.update og idx cache) s'"
      by (intro Q) (auto simp: groupsFresh_def gomap)
  qed (rule E)
  show ?thesis
    unfolding cacheGet_def wp
    using fresh build by (auto simp: wp groupsFresh_def intro!: Q[OF same_refl] split: option.split)
qed

section \<open>Revoking an actor\<close>

lemma UnmarshalMap_groupJSON:
  "UnmarshalMap (groupJSON n o' u c g) = Some ([(''actors'', JArr (strs c @ strs u)), (''users'', JArr (strs u)),
     (''clients'', JArr (strs c)), (''groups'', JArr (strs g))] @ (if o' \<noteq> [] then [(''orgname'', JStr o')] else []) @
     [(''name'', JStr n), (''groupname'', JStr n)])"
proof -
  have "map lastMembers (strs xs) = strs xs" for xs by (simp add: strs_def)
  then show ?thesis by (simp add: UnmarshalMap_def groupJSON_def)
qed

lemma jsonStrings_strs: "jsonStrings (Some (JArr (strs xs))) = xs"
  by (induction xs) (auto simp: jsonStrings_def strs_def)

lemma groupMembers_groupJSON: "docMembers (Some (groupJSON n o' u c g)) = (u, c, g)"
  unfolding docMembers_def option.case UnmarshalMap_groupJSON
  by (simp add: groupMembers_def Let_def jsonStrings_strs)

lemma typedStrings_strs: "typedStrings (JArr (strs xs)) = Some xs"
  by (induction xs) (auto simp: strs_def)

lemma indexMembers_groupJSON: "indexMembers (groupJSON n o' u c g) = (u, c, g)"
proof -
  have "typedField (case groupJSON n o' u c g of Doc (JObj ms) \<Rightarrow> ms) f =
      Some (if f = ''users'' then u else if f = ''clients'' then c else g)"
    if "f = ''users'' \<or> f = ''clients'' \<or> f = ''groups''" for f
    using that by (auto simp: groupJSON_def typedField_def membersFold_def toLower_def lowerChar_def typedStrings_strs
        simp del: typedStrings.simps)
  then show ?thesis by (simp add: indexMembers_def decodeMembers_def groupJSON_def)
qed

text \<open>The documents the server writes, and the members of one kind a stored document lists.\<close>

definition isGroupDoc :: "body \<Rightarrow> bool" where
  "isGroupDoc raw = (\<exists>n o' u c g. raw = groupJSON n o' u c g)"

lemma isGroupDoc_groupJSON: "isGroupDoc (groupJSON n o' u c g)"
  unfolding isGroupDoc_def by blast

definition groupDocs :: "body mirror \<Rightarrow> string \<Rightarrow> bool" where
  "groupDocs M og = (\<forall>g raw. M og groupsColl g = Some raw \<longrightarrow> isGroupDoc raw)"

definition listedIn :: "body mirror \<Rightarrow> string \<Rightarrow> string \<Rightarrow> string \<Rightarrow> string set" where
  "listedIn M og kind g = (case M og groupsColl g of None \<Rightarrow> {} | Some raw \<Rightarrow> set (selectKind kind (indexMembers raw) []))"

definition revoked :: "string \<Rightarrow> string \<Rightarrow> string \<Rightarrow> string set \<Rightarrow> body store \<Rightarrow> body store \<Rightarrow> bool" where
  "revoked og kind actor D s s' =
     ((\<forall>og' c k. \<not> (og' = og \<and> c = groupsColl) \<longrightarrow> stored s' og' c k = stored s og' c k) \<and>
      (\<forall>g. (stored s' og groupsColl g = None) = (stored s og groupsColl g = None)) \<and>
      groupDocs (stored s') og \<and>
      (\<forall>g k. isKind k \<longrightarrow> listedIn (stored s') og k g =
         listedIn (stored s) og k g - (if k = kind \<and> g \<in> D then {actor} else {})))"

lemma revoked_refl: "groupDocs (stored s) og \<Longrightarrow> stored s' = stored s \<Longrightarrow> revoked og kind actor {} s s'"
  by (simp add: revoked_def)

lemma revoked_trans:
  "revoked og kind actor D s s1 \<Longrightarrow> revoked og kind actor D' s1 s2 \<Longrightarrow> revoked og kind actor (D \<union> D') s s2"
  unfolding revoked_def by (intro conjI; simp add: Diff_eq)

lemma selectKind_without:
  assumes "isKind kind" "withoutKind kind actor m = ((u, c, g), changed)" "isKind k"
  shows "set (selectKind k (u, c, g) []) = set (selectKind k m []) - (if k = kind then {actor} else {})"
    and "\<not> changed \<Longrightarrow> actor \<notin> set (selectKind kind m [])"
proof -
  have len: "length (filter (\<lambda>e. e \<noteq> actor) xs) = length xs \<Longrightarrow> actor \<notin> set xs" for xs
    by (metis (mono_tags, lifting) length_filter_less less_irrefl)
  show "set (selectKind k (u, c, g) []) = set (selectKind k m []) - (if k = kind then {actor} else {})"
    using assms by (cases m) (auto simp: withoutKind_def without_def isKind_def Let_def split: if_splits)
  show "actor \<notin> set (selectKind kind m [])" if "\<not> changed"
    using assms that by (cases m) (auto simp: withoutKind_def without_def isKind_def Let_def dest: len split: if_splits)
qed

lemma wp_removeFromGroupDoc:
  assumes docs: "groupDocs (stored s) og" and kind: "isKind kind"
  shows "wpE (removeFromGroupDoc og kind actor name) (\<lambda>_. revoked og kind actor {name} s)
     (\<lambda>e s'. e = ErrBackend \<and> revoked og kind actor {} s s') s"
  unfolding removeFromGroupDoc_def wpE_bindE
proof (rule wp_Get)
  fix s1 assume s1: "same s s1"
  then have st: "stored s1 = stored s" by (simp add: same_def)
  show "wpE (case stored s og groupsColl name of None \<Rightarrow> ret ()
      | Some b \<Rightarrow> (case UnmarshalMap b of None \<Rightarrow> ret () | Some g \<Rightarrow>
          let ((users, clients, groups), changed) = withoutKind kind actor (groupMembers g)
          in if \<not> changed then ret () else org_Put og groupsColl name (groupJSON name [] users clients groups)))
        (\<lambda>_. revoked og kind actor {name} s) (\<lambda>e s'. e = ErrBackend \<and> revoked og kind actor {} s s') s1"
  proof (cases "stored s og groupsColl name")
    case None
    with docs st show ?thesis by (auto simp: wp revoked_def listedIn_def)
  next
    case (Some b)
    with docs obtain n o' u c g where b: "b = groupJSON n o' u c g"
      unfolding groupDocs_def isGroupDoc_def by blast
    then obtain ms where ms: "UnmarshalMap b = Some ms" "groupMembers ms = (u, c, g)"
      using groupMembers_groupJSON[of n o' u c g] by (simp add: docMembers_def UnmarshalMap_groupJSON)
    obtain u' c' g' changed where w: "withoutKind kind actor (u, c, g) = ((u', c', g'), changed)"
      by (metis prod_cases4 surj_pair)
    note sel = selectKind_without[OF kind w]
    have here: "listedIn (stored s) og k name = set (selectKind k (u, c, g) [])" for k
      by (simp add: listedIn_def Some b indexMembers_groupJSON)
    have unchanged: "revoked og kind actor {name} s s1" if "\<not> changed"
      using docs st sel(2)[OF kind that] here[of kind] by (auto simp: revoked_def)
    have put: "revoked og kind actor {name} s s2" if "wrote og groupsColl name (groupJSON name [] u' c' g') s1 s2" for s2
    proof -
      from that have st2: "stored s2 = (\<lambda>og' c k. if og' = og \<and> c = groupsColl \<and> k = name
          then Some (groupJSON name [] u' c' g') else stored s og' c k)"
        unfolding st[symmetric] by (rule stored_wrote)
      then have "groupDocs (stored s2) og" using docs by (auto simp: groupDocs_def isGroupDoc_groupJSON)
      moreover have "listedIn (stored s2) og k name = listedIn (stored s) og k name - (if k = kind then {actor} else {})"
        if "isKind k" for k
        unfolding here using sel(1)[OF that] by (simp add: st2 listedIn_def indexMembers_groupJSON)
      moreover have "listedIn (stored s2) og k g = listedIn (stored s) og k g" if "g \<noteq> name" for k g
        using that by (simp add: st2 listedIn_def)
      ultimately have "listedIn (stored s2) og k g = listedIn (stored s) og k g - (if k = kind \<and> g \<in> {name} then {actor} else {})"
        if "isKind k" for k g
        using that by (cases "g = name") simp_all
      with \<open>groupDocs (stored s2) og\<close> Some show ?thesis
        unfolding revoked_def by (simp add: st2)
    qed
    have err: "revoked og kind actor {} s s2" if "same s1 s2" for s2
      using that docs st by (intro revoked_refl) (simp_all add: same_def)
    show ?thesis
      using unchanged put err by (auto simp: Some ms w wp intro!: wp_Put)
  qed
qed (use docs in \<open>simp add: revoked_refl same_def\<close>)

lemma wp_removeFromGroupDocs_loop:
  "groupDocs (stored s) og \<Longrightarrow> isKind kind \<Longrightarrow>
   wpE (forE names (removeFromGroupDoc og kind actor)) (\<lambda>_. revoked og kind actor (set names) s)
     (\<lambda>e s'. e = ErrBackend \<and> (\<exists>D. revoked og kind actor D s s')) s"
proof (induction names arbitrary: s)
  case (Cons name names)
  show ?case
    unfolding forE.simps wp
  proof (rule wpE_mono[OF wp_removeFromGroupDoc[OF Cons.prems]])
    fix s1 assume 1: "revoked og kind actor {name} s s1"
    then have docs: "groupDocs (stored s1) og" by (simp add: revoked_def)
    show "wpE (forE names (removeFromGroupDoc og kind actor)) (\<lambda>_. revoked og kind actor (set (name # names)) s)
       (\<lambda>e s'. e = ErrBackend \<and> (\<exists>D. revoked og kind actor D s s')) s1"
      by (rule wpE_mono[OF Cons.IH[OF docs Cons.prems(2)]]) (use revoked_trans[OF 1] in auto)
  qed blast
qed (simp add: wp revoked_refl)

lemma hasSuffix_iff: "hasSuffix s p \<longleftrightarrow> (\<exists>t. s = t @ p)"
proof
  assume "hasSuffix s p"
  then show "\<exists>t. s = t @ p" unfolding hasSuffix_def by (metis append_take_drop_id)
qed (auto simp: hasSuffix_def)

text \<open>Names never hold the separator, and then a row key determines its parts.\<close>

abbreviation plain :: "string \<Rightarrow> bool" where
  "plain s \<equiv> CHR 0x00 \<notin> set s"

lemma splitMemberKey_Some:
  "splitMemberKey key = Some (g, k, a) \<longleftrightarrow> key = memberKey g k a \<and> plain g \<and> plain k \<and> plain a"
proof
  assume "splitMemberKey key = Some (g, k, a)"
  then have s: "splitOn CHR 0x00 key = [g, k, a]"
    by (auto simp: splitMemberKey_def split: list.splits)
  then have "key = memberKey g k a"
    using joinWith_splitOn[of "CHR 0x00" key] by (simp add: memberKey_def)
  moreover have "plain g \<and> plain k \<and> plain a"
    using splitOn_no_sep[of _ "CHR 0x00" key] unfolding s by simp
  ultimately show "key = memberKey g k a \<and> plain g \<and> plain k \<and> plain a" by blast
qed (auto simp: splitMemberKey_def memberKey_def splitOn_append splitOn_id)

lemma last_part:
  assumes "x @ sep # y = x' @ sep # y'" "sep \<notin> set y" "sep \<notin> set y'"
  shows "y = y'" "x = x'"
proof -
  from assms(1) have "rev y @ sep # rev x = rev y' @ sep # rev x'"
    by (metis append.assoc append_Cons append_Nil rev.simps(2) rev_append)
  from arg_cong[OF this, of "takeWhile (\<lambda>c. c \<noteq> sep)"] assms(2,3) have "takeWhile (\<lambda>c. c \<noteq> sep) (rev y) = takeWhile (\<lambda>c. c \<noteq> sep) (rev y')"
    by (simp add: takeWhile_tail)
  moreover have "takeWhile (\<lambda>c. c \<noteq> sep) (rev z) = rev z" if "sep \<notin> set z" for z
    using that by (auto simp: takeWhile_eq_all_conv)
  ultimately have "rev y = rev y'" using assms(2,3) by metis
  then show "y = y'" by simp
  with assms(1) show "x = x'" by simp
qed

lemma row_suffix:
  assumes "splitMemberKey key = Some (g, k, a)" "plain kind" "plain actor"
  shows "hasSuffix key ([CHR 0x00] @ kind @ [CHR 0x00] @ actor) \<longleftrightarrow> k = kind \<and> a = actor"
proof
  assume "hasSuffix key ([CHR 0x00] @ kind @ [CHR 0x00] @ actor)"
  with assms(1) obtain t where
    "(g @ CHR 0x00 # k) @ CHR 0x00 # a = (t @ CHR 0x00 # kind) @ CHR 0x00 # actor"
    by (auto simp: splitMemberKey_Some memberKey_def hasSuffix_iff)
  from last_part[OF this] assms have "a = actor" "g @ CHR 0x00 # k = t @ CHR 0x00 # kind"
    by (auto simp: splitMemberKey_Some)
  with last_part(1)[OF this(2)] assms show "k = kind \<and> a = actor" by (auto simp: splitMemberKey_Some)
qed (use assms(1) in \<open>auto simp: splitMemberKey_Some memberKey_def hasSuffix_iff\<close>)

lemma row_prefix:
  assumes "splitMemberKey key = Some (g, k, a)" "plain grp"
  shows "hasPrefix key (grp @ [CHR 0x00]) \<longleftrightarrow> g = grp"
proof
  assume "hasPrefix key (grp @ [CHR 0x00])"
  with assms(1) obtain t where key: "key = grp @ CHR 0x00 # t" by (auto simp: hasPrefix_iff)
  then have "hd (splitOn CHR 0x00 key) = grp" using assms(2) by (simp add: splitOn_append)
  moreover have "hd (splitOn CHR 0x00 key) = g"
    using assms(1) by (simp add: splitMemberKey_Some memberKey_def splitOn_append)
  ultimately show "g = grp" by simp
qed (use assms(1) in \<open>auto simp: splitMemberKey_Some memberKey_def hasPrefix_iff\<close>)

lemma select_foldRow:
  assumes "plain grp" "isKind k"
  shows "set (selectKind k (foldRow grp key m) []) =
     set (selectKind k m []) \<union> {who. splitMemberKey key = Some (grp, k, who)}"
proof (cases "splitMemberKey key")
  case None
  then show ?thesis by (simp add: foldRow_def)
next
  case (Some p)
  obtain g kind a where p: "p = (g, kind, a)" by (cases p) auto
  show ?thesis
    using Some assms(2) row_prefix[OF Some[unfolded p] assms(1)]
    by (cases m) (auto simp: p foldRow_def isKind_def Let_def)
qed

lemma select_fold_foldRow:
  "plain grp \<Longrightarrow> isKind k \<Longrightarrow> set (selectKind k (fold (foldRow grp) keys m) []) =
     set (selectKind k m []) \<union> {who. \<exists>key \<in> set keys. splitMemberKey key = Some (grp, k, who)}"
  by (induction keys arbitrary: m) (auto simp: select_foldRow)

text \<open>The pairs held after both halves: the rows are swept, the documents rewritten.\<close>

lemma heldPairs_listedIn:
  "heldPairs kind M og = {(who, g). who \<in> listedIn M og kind g} \<union>
     {(who, g). \<exists>key. M og groupMembersColl key \<noteq> None \<and> splitMemberKey key = Some (g, kind, who)}"
  by (auto simp: heldPairs_def listedIn_def split: option.splits)

lemma heldPairs_sweeping:
  assumes "sweeping og groupMembersColl P s s'"
  shows "heldPairs k (stored s') og \<subseteq> heldPairs k (stored s) og"
proof -
  have "stored s' og c key = Some raw \<Longrightarrow> stored s og c key = Some raw" for c key raw
    using assms unfolding sweeping_def by (metis option.distinct(1))
  then show ?thesis by (fastforce simp: heldPairs_def)
qed

lemma heldPairs_rows_gone:
  assumes "swept og groupMembersColl (\<lambda>key. hasSuffix key ([CHR 0x00] @ kind @ [CHR 0x00] @ actor)) s s1"
    and "revoked og kind actor D s1 s2" and "plain kind" "plain actor" and k: "isKind k"
  shows "heldPairs k (stored s2) og =
     {(who, g) \<in> heldPairs k (stored s) og. \<not> (k = kind \<and> who = actor \<and>
        (g \<in> D \<or> who \<notin> listedIn (stored s) og k g))}"
proof -
  have rows: "stored s2 og groupMembersColl key \<noteq> None \<and> splitMemberKey key = Some (g, k, who) \<longleftrightarrow>
      stored s og groupMembersColl key \<noteq> None \<and> splitMemberKey key = Some (g, k, who) \<and> \<not> (k = kind \<and> who = actor)"
    for key g who
  proof -
    have "stored s2 og groupMembersColl key = stored s1 og groupMembersColl key"
      using assms(2) by (simp add: revoked_def)
    then show ?thesis
      using assms(1) row_suffix[OF _ assms(3,4), of key g k who] by (auto simp: swept_def)
  qed
  have "listedIn (stored s1) og k g = listedIn (stored s) og k g" for g
    using assms(1) by (simp add: swept_def listedIn_def)
  then have "listedIn (stored s2) og k g = listedIn (stored s) og k g - (if k = kind \<and> g \<in> D then {actor} else {})" for g
    using assms(2) k by (simp add: revoked_def)
  then show ?thesis
    unfolding heldPairs_listedIn rows by (auto split: if_splits)
qed

text \<open>What removing an actor leaves: the pairs of that actor are gone. \<open>regrouped\<close> is what a removal
  interrupted by the backend leaves.\<close>

definition regrouped :: "string \<Rightarrow> body store \<Rightarrow> body store \<Rightarrow> bool" where
  "regrouped og s s' =
     ((\<forall>k. isKind k \<longrightarrow> heldPairs k (stored s') og \<subseteq> heldPairs k (stored s) og) \<and>
      (\<forall>og' c key. og' \<noteq> og \<or> c \<notin> {groupsColl, groupMembersColl} \<longrightarrow> stored s' og' c key = stored s og' c key) \<and>
      (\<forall>g. (stored s' og groupsColl g = None) = (stored s og groupsColl g = None)) \<and>
      groupDocs (stored s') og)"

definition ungrouped :: "string \<Rightarrow> string \<Rightarrow> string \<Rightarrow> body store \<Rightarrow> body store \<Rightarrow> bool" where
  "ungrouped og kind actor s s' = (regrouped og s s' \<and>
     (\<forall>k. isKind k \<longrightarrow> heldPairs k (stored s') og =
        {(who, g) \<in> heldPairs k (stored s) og. \<not> (k = kind \<and> who = actor)}))"

lemma wp_removeActorFromAllGroups:
  assumes "wfS s" and "groupDocs (stored s) og" and "isKind kind" and "plain actor"
  shows "wpE (removeActorFromAllGroups og kind actor)
     (\<lambda>_. ungrouped og kind actor s) (\<lambda>e s'. e = ErrBackend \<and> regrouped og s s') s"
    (is "wpE _ ?Q ?E s")
proof -
  let ?P = "\<lambda>key. hasSuffix key ([CHR 0x00] @ kind @ [CHR 0x00] @ actor)"
  have plainKind: "plain kind" using assms(3) by (auto simp: isKind_def member_kinds)
  have docs: "wpE (removeFromGroupDocs og kind actor) ?Q ?E s1" if s1: "swept og groupMembersColl ?P s s1" for s1
    unfolding removeFromGroupDocs_def wp
  proof (rule wp_Keys)
    let ?names = "sort (map fst (coll_of (backend s1) og groupsColl))"
    have names: "g \<in> set ?names" if "who \<in> listedIn (stored s) og k g" for who k g
      using that s1 set_keys_kv[of "backend s1" og groupsColl]
      by (auto simp: listedIn_def swept_def split: option.splits)
    fix s2 assume s2: "same s1 s2"
    then have st: "stored s2 = stored s1" "groupDocs (stored s2) og"
      using assms(2) s1 by (auto simp: groupDocs_def swept_def same_def)
    have re: "regrouped og s s3" if r: "revoked og kind actor D s2 s3" for D s3
    proof -
      have r1: "revoked og kind actor D s1 s3" using r by (simp add: revoked_def st)
      have "heldPairs k (stored s3) og \<subseteq> heldPairs k (stored s) og" if "isKind k" for k
        unfolding heldPairs_rows_gone[OF s1 r1 plainKind assms(4) that] by blast
      moreover have "stored s3 og' c key = stored s og' c key"
        if "og' \<noteq> og \<or> c \<notin> {groupsColl, groupMembersColl}" for og' c key
        using that r1 s1 by (auto simp: revoked_def swept_def)
      ultimately show ?thesis using r1 s1 by (simp add: regrouped_def revoked_def swept_def)
    qed
    show "wpE (forE ?names (removeFromGroupDoc og kind actor)) ?Q ?E s2"
    proof (rule wpE_mono[OF wp_removeFromGroupDocs_loop[OF st(2) assms(3)]], goal_cases)
      case (1 x s3)
      then have r1: "revoked og kind actor (set ?names) s1 s3" by (simp add: revoked_def st)
      have "heldPairs k (stored s3) og = {(who, g) \<in> heldPairs k (stored s) og. \<not> (k = kind \<and> who = actor)}"
        if "isKind k" for k
        unfolding heldPairs_rows_gone[OF s1 r1 plainKind assms(4) that] using names by blast
      with re[OF 1] show ?case unfolding ungrouped_def by blast
    next
      case (2 e s3)
      then show ?case using re by blast
    qed
  next
    fix s2 assume "same s1 s2"
    then show "?E ErrBackend s2"
      using s1 assms(2) by (auto simp: regrouped_def heldPairs_def groupDocs_def swept_def same_def split: if_splits)
  qed
  have "regrouped og s s1" if "sweeping og groupMembersColl ?P s s1" for s1
    using sweeping_other[OF that] heldPairs_sweeping[OF that] assms(2) by (simp add: regrouped_def groupDocs_def)
  then show ?thesis
    unfolding removeActorFromAllGroups_def removeMemberRows_def wpE_bindE[of "bindE _ _"]
    by (intro wp_sweep[OF assms(1)] docs) simp_all
qed

lemma keeps_removeActorFromAllGroups [keepsI]: "keeps wfS (removeActorFromAllGroups og kind actor)"
  unfolding removeActorFromAllGroups_def removeMemberRows_def removeFromGroupDocs_def removeFromGroupDoc_def Let_def
  by (intro keepsI)

lemma wp_groupMembership:
  assumes "wfS s" and "groupDocs (stored s) og" and "plain grp"
  shows "wpE (groupMembership og grp)
     (\<lambda>m s'. same s s' \<and> (\<forall>k. isKind k \<longrightarrow> set (selectKind k m []) = {who. (who, grp) \<in> heldPairs k (stored s) og}))
     (\<lambda>e s'. e = ErrBackend \<and> same s s') s"
proof -
  let ?res = "fold (foldRow grp) (map fst (coll_of (backend s) og groupMembersColl)) (docMembers (stored s og groupsColl grp))"
  have "set (selectKind k (docMembers (stored s og groupsColl grp)) []) = listedIn (stored s) og k grp" if "isKind k" for k
  proof (cases "stored s og groupsColl grp")
    case None
    then show ?thesis using that by (auto simp: listedIn_def docMembers_def isKind_def)
  next
    case (Some raw)
    with assms(2) obtain n o' u c g where "raw = groupJSON n o' u c g"
      unfolding groupDocs_def isGroupDoc_def by blast
    with Some show ?thesis by (simp add: listedIn_def groupMembers_groupJSON indexMembers_groupJSON)
  qed
  then have sel: "set (selectKind k ?res []) = {who. (who, grp) \<in> heldPairs k (stored s) og}" if "isKind k" for k
    using that set_keys_kv[of "backend s" og groupMembersColl]
    by (auto simp: select_fold_foldRow[OF assms(3)] heldPairs_listedIn)
  show ?thesis
    unfolding groupMembership_def wp
    by (rule wp_Get; (rule wp_Range)?) (use sel in \<open>auto simp: same_def wp\<close>)
qed

section \<open>Properties\<close>

text \<open>C25. Resolving an actor's groups computes the transitive closure: the answer lists, once each, the
  groups that name the actor directly (in their document or by a membership row) and every group
  these are nested in, however deep and whether or not the nesting is cyclic; the only failure is
  the backend's.\<close>

theorem actorGroups_is_closure:
  assumes "wf_backend (backend s)"
  shows "wpE (actorGroups og actor)
     (\<lambda>gs s'. distinct gs \<and> set gs = effectiveGroups (kv (backend s)) og actor \<and> backend s' = backend s)
     (\<lambda>e s'. e = ErrBackend \<and> backend s' = backend s) s"
  unfolding actorGroups_def wp
  by (rule wp_buildGroupIndex[OF assms])
    (auto simp: membership_exact distinct_membership same_def)

theorem actorGroups_is_closure_witness:
  "wpE (actorGroups ''o'' \<lparr>a_Name = ''pat'', a_IsClient = False, a_IsGlobalAdmin = False, a_ViaWebUI = False\<rparr>)
     (\<lambda>gs s'. distinct gs \<and> set gs = effectiveGroups (kv NewMemoryBackend) ''o''
        \<lparr>a_Name = ''pat'', a_IsClient = False, a_IsGlobalAdmin = False, a_ViaWebUI = False\<rparr> \<and> backend s' = NewMemoryBackend)
     (\<lambda>e s'. e = ErrBackend \<and> backend s' = NewMemoryBackend) (NewWithBackend NewMemoryBackend)"
  using actorGroups_is_closure[of "NewWithBackend NewMemoryBackend" "''o''"] wf_NewMemoryBackend
  by (simp add: NewWithBackend_def)

text \<open>C13. The group cache is never stale: starting from a cache that is fresh for an organization, after
  any writes, transactions and aborted transactions that do not drop that organization (with any
  backend failures), once the cache has observed the emitted events, the cached resolution yields
  the same groups as resolving against the current content, and the cache stays fresh.\<close>

theorem cached_groups_are_current:
  assumes "wf_backend (backend s)"
    and "groupsFresh og (groupsGen s) (kv (backend s)) cache"
    and "list_all (op_ok (\<lambda>ev. ev_coll ev = [] \<longrightarrow> ev_org ev \<noteq> og)) ops"
    and "s' = run_ops ops s"
    and "cache' = fold cacheObserve (drop (length (emitted s)) (emitted s')) cache"
  shows "wpE (cachedActorGroups cache' og actor)
     (\<lambda>(gs, cache'') s''. set gs = effectiveGroups (kv (backend s')) og actor \<and> backend s'' = backend s' \<and>
        groupsFresh og (groupsGen s'') (kv (backend s'')) cache'')
     (\<lambda>e s''. e = ErrBackend \<and> backend s'' = backend s') s'"
proof -
  have "list_all (op_ok (liveEvent og)) ops"
    using assms(3) by (auto simp: list_all_iff liveEvent_def event_of_def drop_event_def elim!: op_ok_mono)
  from run_ops_described[OF this, of s] obtain es where
    es: "emitted s' = emitted s @ es" "list_all (liveEvent og) es"
      "stored s' = fold replay1 es (stored s)" "groupsGen s + groupEvents es \<le> groupsGen s'"
    unfolding described_def assms(4) by blast
  then have "groupsFresh og (groupsGen s') (stored s') cache'"
    using groupsFresh_fold[OF assms(2)] assms(5) by simp
  moreover have "wfS s'" using wfS_run_ops assms(1,4) by blast
  ultimately show ?thesis
    unfolding cachedActorGroups_def wp
    by (intro wp_cacheGet) (auto simp: wp membership_exact same_def)
qed

theorem cached_groups_are_current_witness:
  "wpE (cachedActorGroups (fold cacheObserve (drop (length (emitted (NewWithBackend NewMemoryBackend :: body store)))
        (emitted (run_ops [OpPut ''o'' groupsColl ''ops'' (groupJSON ''ops'' [] [''pat''] [] []),
                           OpPut ''o'' groupMembersColl (memberKey ''all'' memberGroups ''ops'') (Doc (JObj []))]
          (NewWithBackend NewMemoryBackend)))) [(''o'', newGroupIndex 0)]) ''o''
       \<lparr>a_Name = ''pat'', a_IsClient = False, a_IsGlobalAdmin = False, a_ViaWebUI = False\<rparr>)
     (\<lambda>(gs, cache'') s''. set gs = effectiveGroups (kv (backend
          (run_ops [OpPut ''o'' groupsColl ''ops'' (groupJSON ''ops'' [] [''pat''] [] []),
                           OpPut ''o'' groupMembersColl (memberKey ''all'' memberGroups ''ops'') (Doc (JObj []))]
          (NewWithBackend NewMemoryBackend)))) ''o''
          \<lparr>a_Name = ''pat'', a_IsClient = False, a_IsGlobalAdmin = False, a_ViaWebUI = False\<rparr>)
     (\<lambda>e s''. e = ErrBackend)
     (run_ops [OpPut ''o'' groupsColl ''ops'' (groupJSON ''ops'' [] [''pat''] [] []),
               OpPut ''o'' groupMembersColl (memberKey ''all'' memberGroups ''ops'') (Doc (JObj []))]
       (NewWithBackend NewMemoryBackend))"
proof (rule wpE_mono[OF cached_groups_are_current[OF _ _ _ refl refl]])
  show "wf_backend (backend (NewWithBackend NewMemoryBackend :: body store))"
    using wf_NewMemoryBackend by (simp add: NewWithBackend_def)
  show "groupsFresh ''o'' (groupsGen (NewWithBackend NewMemoryBackend)) (kv (backend (NewWithBackend NewMemoryBackend)))
      [(''o'', newGroupIndex 0)]"
    by (simp add: groupsFresh_def exact_def heldPairs_def newGroupIndex_def NewWithBackend_def NewMemoryBackend_def
        kv_def coll_of_def indexed_kind_def selectKind_def listed_def)
qed (auto simp: event_of_def split: prod.splits)

text \<open>C14. Revocation is complete and touches nothing else: when removing an actor from all groups succeeds,
  no group document and no membership row of the organization names the actor any more, every other
  membership is as it was, and so is everything outside the two group collections; when it fails
  half way (only the backend can fail), no membership has been added.\<close>

theorem removeActorFromAllGroups_revokes:
  assumes "wf_backend (backend s)" and "groupDocs (kv (backend s)) og"
    and "isKind kind" and "CHR 0x00 \<notin> set actor"
  shows "wpE (removeActorFromAllGroups og kind actor)
     (\<lambda>_ s'. (\<forall>k. isKind k \<longrightarrow> heldPairs k (kv (backend s')) og =
            {(who, g) \<in> heldPairs k (kv (backend s)) og. \<not> (k = kind \<and> who = actor)}) \<and>
        (\<forall>og' c key. og' \<noteq> og \<or> c \<notin> {groupsColl, groupMembersColl} \<longrightarrow>
            kv (backend s') og' c key = kv (backend s) og' c key))
     (\<lambda>e s'. e = ErrBackend \<and> (\<forall>k. isKind k \<longrightarrow> heldPairs k (kv (backend s')) og \<subseteq> heldPairs k (kv (backend s)) og)) s"
  by (rule wpE_mono[OF wp_removeActorFromAllGroups[OF assms]]) (auto simp: ungrouped_def regrouped_def)

theorem removeActorFromAllGroups_revokes_witness:
  "wpE (removeActorFromAllGroups ''o'' memberUsers ''pat'')
     (\<lambda>_ s'. \<forall>k. isKind k \<longrightarrow> heldPairs k (kv (backend s')) ''o'' =
        {(who, g) \<in> heldPairs k (kv (mem_set ''o'' groupsColl ''ops'' (groupJSON ''ops'' [] [''pat''] [] []) NewMemoryBackend)) ''o''.
           \<not> (k = memberUsers \<and> who = ''pat'')})
     (\<lambda>e s'. e = ErrBackend)
     (NewWithBackend (mem_set ''o'' groupsColl ''ops'' (groupJSON ''ops'' [] [''pat''] [] []) NewMemoryBackend))"
proof (rule wpE_mono[OF removeActorFromAllGroups_revokes])
  show "wf_backend (backend (NewWithBackend (mem_set ''o'' groupsColl ''ops'' (groupJSON ''ops'' [] [''pat''] [] []) NewMemoryBackend)))"
    by (simp add: NewWithBackend_def wf_NewMemoryBackend)
  show "groupDocs (kv (backend (NewWithBackend (mem_set ''o'' groupsColl ''ops'' (groupJSON ''ops'' [] [''pat''] [] []) NewMemoryBackend)))) ''o''"
    by (auto simp: groupDocs_def NewWithBackend_def store_simps isGroupDoc_groupJSON split: if_splits)
qed (auto simp: isKind_def NewWithBackend_def)

text \<open>C27. The membership shown is the membership enforced: over the documents the server writes, the users,
  clients and nested groups that the group endpoint reports for a group are exactly the members for
  which the authorization index records that group.\<close>

theorem groupMembership_agrees_with_index:
  assumes "wf_backend (backend s)" and "groupDocs (kv (backend s)) og" and "CHR 0x00 \<notin> set grp"
  shows "wpE (groupMembership og grp)
     (\<lambda>(users, clients, groups) s'. backend s' = backend s \<and>
        set users = {who. (who, grp) \<in> heldPairs memberUsers (kv (backend s)) og} \<and>
        set clients = {who. (who, grp) \<in> heldPairs memberClients (kv (backend s)) og} \<and>
        set groups = {who. (who, grp) \<in> heldPairs memberGroups (kv (backend s)) og})
     (\<lambda>e s'. e = ErrBackend \<and> backend s' = backend s) s"
  by (rule wpE_mono[OF wp_groupMembership[OF assms]]) (auto simp: same_def isKind_def split: prod.splits)

theorem groupMembership_agrees_with_index_witness:
  "wpE (groupMembership ''o'' ''ops'')
     (\<lambda>(users, clients, groups) s'. set users = {who. (who, ''ops'') \<in> heldPairs memberUsers
        (kv (mem_set ''o'' groupsColl ''ops'' (groupJSON ''ops'' [] [''pat''] [] []) NewMemoryBackend)) ''o''})
     (\<lambda>e s'. e = ErrBackend)
     (NewWithBackend (mem_set ''o'' groupsColl ''ops'' (groupJSON ''ops'' [] [''pat''] [] []) NewMemoryBackend))"
proof (rule wpE_mono[OF groupMembership_agrees_with_index])
  show "wf_backend (backend (NewWithBackend (mem_set ''o'' groupsColl ''ops'' (groupJSON ''ops'' [] [''pat''] [] []) NewMemoryBackend)))"
    by (simp add: NewWithBackend_def wf_NewMemoryBackend)
  show "groupDocs (kv (backend (NewWithBackend (mem_set ''o'' groupsColl ''ops'' (groupJSON ''ops'' [] [''pat''] [] []) NewMemoryBackend)))) ''o''"
    by (auto simp: groupDocs_def NewWithBackend_def store_simps isGroupDoc_groupJSON split: if_splits)
qed (auto simp: NewWithBackend_def)

end
