(* ===== verification/Http_Reply.thy ===== *)
theory Http_Reply
  imports Group_Membership
begin

text \<open>Requests and responses (\<^verbatim>\<open>src/internal/api/respond.go\<close>, \<^verbatim>\<open>preread.go\<close>, \<^verbatim>\<open>api.go\<close>).

  A request carries what the handlers read of it: the method, the path, the body (one JSON value,
  or bytes that are not JSON; content after the first value, which some handlers refuse and some
  ignore, is not modelled), the authenticated actor, the base of the URLs handed back, the
  object the authorization layer already fetched, the value of the header
  \<^verbatim>\<open>X-Ops-Server-API-Version\<close> and the query parameters. A handler is a function from the store
  to a response and the store; \<open>Failure e\<close> is \<^verbatim>\<open>writeError(w, 500, err.Error())\<close>, whose text the
  backend or the decoder chooses, and \<open>Panicked\<close> a run-time panic, which the server turns into an aborted
  connection. Handlers are sequential; the membership lock only delimits what another request may
  not interleave with.\<close>

datatype response =
    Reply nat json
  | Raw nat body
  | Failure serr
  | Panicked

fun status :: "response \<Rightarrow> nat" where
  "status (Reply n _) = n"
| "status (Raw n _) = n"
| "status (Failure _) = 500"
| "status Panicked = 0"

record request =
  rq_Method :: string
  rq_Path :: string
  rq_body :: body
  rq_actor :: "Actor option"
  rq_base :: string
  rq_preread :: "(string \<times> string \<times> string \<times> body) option"
  rq_apiVersion :: string
  rq_query :: "(string \<times> string list) list"

type_synonym handler = "body store \<Rightarrow> response \<times> body store"

definition writeJSON :: "nat \<Rightarrow> json \<Rightarrow> handler" where
  "writeJSON code v s = (Reply code v, s)"

definition writeRaw :: "nat \<Rightarrow> body \<Rightarrow> handler" where
  "writeRaw code raw s = (Raw code raw, s)"

definition errorBody :: "string list \<Rightarrow> json" where
  "errorBody messages = JObj [(''error'', JArr (map JStr messages))]"

definition writeError :: "nat \<Rightarrow> string list \<Rightarrow> handler" where
  "writeError code messages = writeJSON code (errorBody messages)"

definition serverError :: "serr \<Rightarrow> handler" where
  "serverError e s = (Failure e, s)"

definition panic :: handler where
  "panic s = (Panicked, s)"

lemma wpH_replies [wp]:
  "wpH (writeJSON code v) Q = Q (Reply code v)"
  "wpH (writeRaw code raw) Q = Q (Raw code raw)"
  "wpH (writeError code ms) Q = Q (Reply code (errorBody ms))"
  "wpH (serverError e) Q = Q (Failure e)"
  "wpH panic Q = Q Panicked"
  by (rule ext, simp add: wpH_def writeJSON_def writeRaw_def writeError_def serverError_def panic_def)+

section \<open>The object the authorization layer read\<close>

definition withPreread :: "string \<Rightarrow> string \<Rightarrow> string \<Rightarrow> body \<Rightarrow> request \<Rightarrow> request" where
  "withPreread og coll key raw r = r\<lparr>rq_preread := Some (og, coll, key, raw)\<rparr>"

definition prereadFrom :: "request \<Rightarrow> string \<Rightarrow> string \<Rightarrow> string \<Rightarrow> body option" where
  "prereadFrom r og coll key = (case rq_preread r of
     None \<Rightarrow> None
   | Some (o', c', k', raw) \<Rightarrow> if o' \<noteq> og \<or> c' \<noteq> coll \<or> k' \<noteq> key then None else Some raw)"

definition viewObject :: "request \<Rightarrow> string \<Rightarrow> string \<Rightarrow> string \<Rightarrow> (body store, serr, body option) act" where
  "viewObject r og coll key = (case prereadFrom r og coll key of
     Some raw \<Rightarrow> ret (Some raw)
   | None \<Rightarrow> org_View og coll key)"

text \<open>\<^verbatim>\<open>exists\<close> answers 404 or 500 itself; \<open>k\<close> is the rest of the handler.\<close>

definition existsThen :: "request \<Rightarrow> string \<Rightarrow> string \<Rightarrow> string \<Rightarrow> string \<Rightarrow> handler \<Rightarrow> handler" where
  "existsThen r og coll key msg k =
     tryE (viewObject r og coll key) serverError (\<lambda>raw.
       if raw = None then writeError 404 [msg] else k)"

text \<open>\<^verbatim>\<open>API.org\<close>: resolve the organization of the path or answer 404.\<close>

definition withOrg :: "string \<Rightarrow> handler \<Rightarrow> handler" where
  "withOrg og k = tryE (store_Org og) serverError (\<lambda>ok.
     if \<not> ok then writeError 404 [''Cannot find org '' @ og] else k)"

lemma wp_withOrg:
  assumes "\<And>s'. same s s' \<Longrightarrow> og \<in> set (orgs (backend s)) \<Longrightarrow> wpH k R s'"
    and "\<And>s' m. same s s' \<Longrightarrow> og \<notin> set (orgs (backend s)) \<Longrightarrow> R (Reply 404 m) s'"
    and "\<And>s'. same s s' \<Longrightarrow> R (Failure ErrBackend) s'"
  shows "wpH (withOrg og k) R s"
  unfolding withOrg_def wpH_tryE wpH_if
  by (rule wp_Org) (use assms in \<open>auto simp: wpH_replies\<close>)

lemma wp_existsThen:
  assumes "\<And>s'. same s s' \<Longrightarrow> prereadFrom r og c key \<noteq> None \<or> stored s og c key \<noteq> None \<Longrightarrow> wpH k R s'"
    and "\<And>s' m. same s s' \<Longrightarrow> prereadFrom r og c key = None \<Longrightarrow> stored s og c key = None \<Longrightarrow> R (Reply 404 m) s'"
    and "\<And>s'. same s s' \<Longrightarrow> prereadFrom r og c key = None \<Longrightarrow> R (Failure ErrBackend) s'"
  shows "wpH (existsThen r og c key msg k) R s"
proof (cases "prereadFrom r og c key")
  case None
  then show ?thesis
    unfolding existsThen_def viewObject_def wpH_tryE wpH_if
    by simp (rule wp_View; use None assms in \<open>auto simp: wpH_replies\<close>)
next
  case (Some raw)
  then show ?thesis
    unfolding existsThen_def viewObject_def wpH_tryE wpH_if using assms(1)[OF same_refl] by (simp add: wp)
qed

definition objectURL :: "request \<Rightarrow> string \<Rightarrow> string \<Rightarrow> string \<Rightarrow> string" where
  "objectURL r og segment name =
     (if og = [] then rq_base r @ ''/'' @ segment @ ''/'' @ name
      else rq_base r @ ''/organizations/'' @ og @ ''/'' @ segment @ ''/'' @ name)"

text \<open>\<^verbatim>\<open>strings.TrimRight(p, "/")\<close> and \<^verbatim>\<open>strings.Trim(p, "/")\<close>; the outermost layer drops trailing
  slashes so that authorization and routing see the same path.\<close>

definition trimRightSlash :: "string \<Rightarrow> string" where
  "trimRightSlash p = rev (dropWhile (\<lambda>c. c = CHR ''/'') (rev p))"

definition trimSlash :: "string \<Rightarrow> string" where
  "trimSlash p = dropWhile (\<lambda>c. c = CHR ''/'') (trimRightSlash p)"

definition withoutTrailingSlash :: "string \<Rightarrow> string" where
  "withoutTrailingSlash p =
     (if length p \<le> 1 \<or> \<not> hasSuffix p ''/'' then p
      else (let q = trimRightSlash p in if q = [] then ''/'' else q))"

lemma trimRightSlash_idem [simp]: "trimRightSlash (trimRightSlash p) = trimRightSlash p"
  by (simp add: trimRightSlash_def dropWhile_idem)

lemma trimSlash_withoutTrailingSlash: "trimSlash (withoutTrailingSlash p) = trimSlash p"
proof (cases "trimRightSlash p = []")
  case True
  have "trimSlash ''/'' = []" by (simp add: trimSlash_def trimRightSlash_def)
  with True show ?thesis by (simp add: withoutTrailingSlash_def trimSlash_def)
qed (simp add: withoutTrailingSlash_def trimSlash_def Let_def)

end
