(* ===== verification/Acl.thy ===== *)
theory Acl
  imports Http_Reply
begin

text \<open>Access control lists (\<^verbatim>\<open>src/internal/api/acl.go\<close>, \<^verbatim>\<open>acl_policy.go\<close> and the evaluation half of
  \<^verbatim>\<open>authz_enforce.go\<close>).

  An ACL in memory is a Go \<^verbatim>\<open>map[string]any\<close>. Decoded from the store its lists are \<^verbatim>\<open>[]any\<close>; in the
  built-in fallback ACLs they are \<^verbatim>\<open>[]string\<close>. The sources tell the two apart (\<^verbatim>\<open>anyStrings\<close> reads
  both, \<^verbatim>\<open>jsonStrings\<close> only the first), so \<open>goany\<close> keeps the dynamic types. A \<open>None\<close> map is Go's nil
  map, which is what decoding the JSON value null yields.\<close>

datatype goany =
    GNull
  | GBool bool
  | GNum string
  | GStr string
  | GArr "goany list"
  | GMap "(string \<times> goany) list"
  | GStrs "string list"

type_synonym gomap = "(string \<times> goany) list"

fun ofJson :: "json \<Rightarrow> goany" where
  "ofJson JNull = GNull"
| "ofJson (JBool b) = GBool b"
| "ofJson (JNum n) = GNum n"
| "ofJson (JStr s) = GStr s"
| "ofJson (JArr es) = GArr (map ofJson es)"
| "ofJson (JObj ms) = GMap (map (\<lambda>(n, v). (n, ofJson v)) ms)"

text \<open>\<^verbatim>\<open>mustEncode\<close>: the encoder writes an object's members in the order of their names.\<close>

fun toJson :: "goany \<Rightarrow> json" where
  "toJson GNull = JNull"
| "toJson (GBool b) = JBool b"
| "toJson (GNum n) = JNum n"
| "toJson (GStr s) = JStr s"
| "toJson (GArr es) = JArr (map toJson es)"
| "toJson (GMap ms) = JObj (sort_key fst (map (\<lambda>(n, v). (n, toJson v)) ms))"
| "toJson (GStrs ss) = JArr (map JStr ss)"

definition mustEncode :: "gomap \<Rightarrow> body" where
  "mustEncode m = Doc (toJson (GMap m))"

text \<open>\<^verbatim>\<open>json.Unmarshal\<close> into a \<^verbatim>\<open>map[string]any\<close>.\<close>

definition unmarshalAny :: "body \<Rightarrow> gomap option option" where
  "unmarshalAny b = (case b of
     Bytes _ \<Rightarrow> None
   | Doc j \<Rightarrow> (case ofJson (lastMembers j) of GMap m \<Rightarrow> Some (Some m) | GNull \<Rightarrow> Some None | _ \<Rightarrow> None))"

definition nilGet :: "gomap option \<Rightarrow> string \<Rightarrow> goany option" where
  "nilGet m k = (case m of None \<Rightarrow> None | Some kvs \<Rightarrow> map_of kvs k)"

definition asMap :: "goany option \<Rightarrow> gomap option" where
  "asMap v = (case v of Some (GMap m) \<Rightarrow> Some m | _ \<Rightarrow> None)"

definition strElems :: "goany list \<Rightarrow> string list" where
  "strElems es = concat (map (\<lambda>e. case e of GStr s \<Rightarrow> [s] | _ \<Rightarrow> []) es)"

definition anyStrings :: "goany option \<Rightarrow> string list" where
  "anyStrings v = (case v of Some (GStrs ss) \<Rightarrow> ss | Some (GArr es) \<Rightarrow> strElems es | _ \<Rightarrow> [])"

definition jsonStringsAny :: "goany option \<Rightarrow> string list" where
  "jsonStringsAny v = (case v of Some (GArr es) \<Rightarrow> strElems es | _ \<Rightarrow> [])"

section \<open>The built-in ACLs\<close>

definition aclPerms :: "string list" where
  "aclPerms = [''create'', ''read'', ''update'', ''delete'', ''grant'']"

definition aclsColl :: string where "aclsColl = ''acls''"
definition dataBagsColl :: string where "dataBagsColl = ''data_bags''"

definition policyRevColl :: "string \<Rightarrow> string" where
  "policyRevColl policy = ''policy_revisions:'' @ policy"

definition aclKey :: "string \<Rightarrow> string \<Rightarrow> string" where
  "aclKey typ name = typ @ ''/'' @ name"

definition aclPutStatus :: "string \<Rightarrow> nat" where
  "aclPutStatus typ = (if typ = ''policy_groups'' then 201 else 200)"

definition entry :: "string list \<Rightarrow> string list \<Rightarrow> goany" where
  "entry actors groups = GMap [(''actors'', GStrs actors), (''groups'', GStrs groups)]"

definition defaultACL :: gomap where
  "defaultACL =
     [(''create'', entry [] [''admins'', ''users'']),
      (''read'', entry [] [''admins'', ''users'', ''clients'']),
      (''update'', entry [] [''admins'', ''users'']),
      (''delete'', entry [] [''admins'', ''users'']),
      (''grant'', entry [] [''admins''])]"

definition containerUserPerms :: "(string \<times> string list) list" where
  "containerUserPerms =
     [(''cookbooks'', [''create'', ''read'', ''update'', ''delete'']),
      (''data'', [''create'', ''read'', ''update'', ''delete'']),
      (''nodes'', [''create'', ''read'', ''update'', ''delete'']),
      (''roles'', [''create'', ''read'', ''update'', ''delete'']),
      (''environments'', [''create'', ''read'', ''update'', ''delete'']),
      (''policies'', [''create'', ''read'', ''update'', ''delete'']),
      (''policy_groups'', [''create'', ''read'', ''update'', ''delete'']),
      (''cookbook_artifacts'', [''create'', ''read'', ''update'', ''delete'']),
      (''clients'', [''read'', ''delete'']),
      (''groups'', [''read'']),
      (''containers'', [''read'']),
      (''sandboxes'', [''create''])]"

definition containerClientPerms :: "(string \<times> string list) list" where
  "containerClientPerms =
     [(''nodes'', [''create'', ''read'']),
      (''policies'', [''read'']),
      (''policy_groups'', [''read'']),
      (''cookbook_artifacts'', [''read'']),
      (''data'', [''read'']),
      (''cookbooks'', [''read'']),
      (''environments'', [''read'']),
      (''roles'', [''read''])]"

definition policyACL :: "(string \<times> string list) list \<Rightarrow> gomap" where
  "policyACL grants =
     map (\<lambda>p. (p, entry [] (map fst (filter (\<lambda>(g, perms). p \<in> set perms) grants)))) aclPerms"

definition containerACL :: "string \<Rightarrow> gomap" where
  "containerACL name =
     (let n = (if map_of containerUserPerms name = None then ''containers'' else name)
      in policyACL [(''admins'', aclPerms), (''users'', getd [] containerUserPerms n),
                    (''clients'', getd [] containerClientPerms n)])"

definition groupACL :: "string \<Rightarrow> gomap" where
  "groupACL name =
     (if name \<in> set [''admins'', ''clients'', ''users''] then policyACL [(''admins'', aclPerms)]
      else if name = ''billing-admins'' then policyACL [(''billing-admins'', [''read'', ''update''])]
      else if name = ''public_key_read_access'' then policyACL [(''admins'', [''read'', ''update''])]
      else containerACL ''groups'')"

definition orgACL :: gomap where
  "orgACL = policyACL [(''admins'', aclPerms), (''users'', [''read''])]"

definition validatorClientsACL :: "string \<Rightarrow> gomap" where
  "validatorClientsACL validator =
     (let acl = containerACL ''clients'' in
      case asMap (map_of acl ''create'') of
        None \<Rightarrow> acl
      | Some ace \<Rightarrow> AList.update ''create'' (GMap (AList.update ''actors'' (GStrs [validator]) ace)) acl)"

definition legacyClientsACL :: "string \<Rightarrow> gomap" where
  "legacyClientsACL validator =
     AList.update ''create'' (entry [validator] [''admins'', ''users'']) defaultACL"

definition fallbackACL :: "string \<Rightarrow> string \<Rightarrow> gomap" where
  "fallbackACL typ name =
     (if typ = ''organizations'' then orgACL
      else if typ = ''containers'' then containerACL name
      else if typ = ''groups'' then groupACL name
      else defaultACL)"

section \<open>Reading and evaluating an ACL\<close>

definition effectiveACL :: "body option \<Rightarrow> string \<Rightarrow> string \<Rightarrow> gomap option" where
  "effectiveACL raw typ name = (case raw of
     None \<Rightarrow> Some (fallbackACL typ name)
   | Some b \<Rightarrow> (case unmarshalAny b of Some m \<Rightarrow> m | None \<Rightarrow> Some (fallbackACL typ name)))"

definition loadACL :: "string \<Rightarrow> string \<Rightarrow> string \<Rightarrow> (body store, serr, gomap option) act" where
  "loadACL og typ name =
     bindE (org_Get og aclsColl (aclKey typ name)) (\<lambda>raw. ret (effectiveACL raw typ name))"

definition aceAllows :: "goany option \<Rightarrow> Actor \<Rightarrow> string list \<Rightarrow> bool" where
  "aceAllows ent actor member = (case asMap ent of
     None \<Rightarrow> False
   | Some ace \<Rightarrow>
       if a_Name actor \<in> set (anyStrings (map_of ace ''actors'')) then True
       else list_ex (\<lambda>g. g \<in> set member) (anyStrings (map_of ace ''groups'')))"

definition allowedWith :: "(string \<Rightarrow> Actor \<Rightarrow> (body store, serr, string list) act) \<Rightarrow>
    string \<Rightarrow> Actor \<Rightarrow> string \<Rightarrow> string \<Rightarrow> string \<Rightarrow> (body store, serr, bool) act" where
  "allowedWith groupsOf og actor aclType aclName perm =
     bindE (loadACL og aclType aclName) (\<lambda>acl.
       case asMap (nilGet acl perm) of
         None \<Rightarrow> ret False
       | Some ace \<Rightarrow>
           if a_Name actor \<in> set (anyStrings (map_of ace ''actors'')) then ret True
           else if anyStrings (map_of ace ''groups'') = [] then ret False
           else bindE (groupsOf og actor) (\<lambda>member. ret (aceAllows (Some (GMap ace)) actor member)))"

definition actorAllowed :: "string \<Rightarrow> Actor \<Rightarrow> string \<Rightarrow> string \<Rightarrow> string \<Rightarrow> (body store, serr, bool) act" where
  "actorAllowed = allowedWith actorGroups"

text \<open>The cached form, for a given cache content.\<close>

definition cachedGroupsOf :: "groupCache \<Rightarrow> string \<Rightarrow> Actor \<Rightarrow> (body store, serr, string list) act" where
  "cachedGroupsOf cache og actor = bindE (cachedActorGroups cache og actor) (\<lambda>(gs, _). ret gs)"

definition API_actorAllowed :: "groupCache \<Rightarrow> string \<Rightarrow> Actor \<Rightarrow> string \<Rightarrow> string \<Rightarrow> string \<Rightarrow> (body store, serr, bool) act" where
  "API_actorAllowed cache = allowedWith (cachedGroupsOf cache)"

section \<open>The endpoints\<close>

text \<open>\<^verbatim>\<open>hasVersion\<close> (\<^verbatim>\<open>cookbooks.go\<close>): some key of the collection is \<open>name/...\<close>.\<close>

definition hasVersion :: "string \<Rightarrow> string \<Rightarrow> string \<Rightarrow> (body store, serr, bool) act" where
  "hasVersion og coll name = bindE (org_Range og coll) (\<lambda>es.
     ret (list_ex (\<lambda>key. case cutAt ''/'' key of None \<Rightarrow> False | Some (cb, _) \<Rightarrow> cb = name) (map fst es)))"

definition aclObjectExists :: "string \<Rightarrow> string \<Rightarrow> string \<Rightarrow> (body store, serr, bool) act" where
  "aclObjectExists og typ name =
     (if typ = ''organizations'' then ret True
      else if typ = ''data'' then bindE (org_Get og dataBagsColl name) (\<lambda>raw. ret (raw \<noteq> None))
      else if typ = ''cookbooks'' \<or> typ = ''cookbook_artifacts'' then hasVersion og typ name
      else if typ = ''policies'' then bindE (org_Keys og (policyRevColl name)) (\<lambda>revs. ret (revs \<noteq> []))
      else bindE (org_Get og typ name) (\<lambda>raw. ret (raw \<noteq> None)))"

definition aclObjectFound :: "string \<Rightarrow> string \<Rightarrow> string \<Rightarrow> handler \<Rightarrow> handler" where
  "aclObjectFound og typ name k =
     tryE (aclObjectExists og typ name) serverError (\<lambda>ok.
       if \<not> ok then writeError 404 [''Cannot find '' @ typ @ '' '' @ name] else k)"

definition aclJson :: "gomap option \<Rightarrow> json" where
  "aclJson acl = (case acl of None \<Rightarrow> JNull | Some m \<Rightarrow> toJson (GMap m))"

definition writeACLDoc :: "string \<Rightarrow> string \<Rightarrow> string \<Rightarrow> handler" where
  "writeACLDoc og typ name = aclObjectFound og typ name
     (tryE (loadACL og typ name) serverError (\<lambda>acl. writeJSON 200 (aclJson acl)))"

definition writeACLPermDoc :: "string \<Rightarrow> string \<Rightarrow> string \<Rightarrow> string \<Rightarrow> handler" where
  "writeACLPermDoc og typ name perm =
     (if perm \<notin> set aclPerms then writeError 404 [''Cannot find ACL permission '' @ perm]
      else aclObjectFound og typ name
        (tryE (loadACL og typ name) serverError (\<lambda>acl.
           writeJSON 200 (JObj [(perm, case nilGet acl perm of None \<Rightarrow> JNull | Some v \<Rightarrow> toJson v)]))))"

definition removesAdminsFromGrant :: "request \<Rightarrow> string \<Rightarrow> string \<Rightarrow> string \<Rightarrow> string \<Rightarrow> gomap option \<Rightarrow>
    (body store, serr, bool) act" where
  "removesAdminsFromGrant r scope typ name perm ace =
     (if perm \<noteq> ''grant'' \<or> ''admins'' \<in> set (jsonStringsAny (nilGet ace ''groups'')) then ret False
      else (case rq_actor r of
          None \<Rightarrow> ret False
        | Some actor \<Rightarrow>
            if a_IsGlobalAdmin actor then ret False
            else bindE (loadACL scope typ name) (\<lambda>acl.
              ret (''admins'' \<in> set (jsonStringsAny (nilGet (asMap (nilGet acl ''grant'')) ''groups''))))))"

text \<open>Keep the names of a list whose lookup fails.\<close>

definition missingNames :: "(string \<Rightarrow> (body store, serr, bool) act) \<Rightarrow> string list \<Rightarrow> (body store, serr, string list) act" where
  "missingNames known names =
     foldE names (\<lambda>n acc. bindE (known n) (\<lambda>ok. ret (if ok then acc else acc @ [n]))) []"

definition actorKnown :: "string option \<Rightarrow> string \<Rightarrow> (body store, serr, bool) act" where
  "actorKnown og name = bindE (org_Get [] ''users'' name) (\<lambda>u.
     case og of
       None \<Rightarrow> ret (u \<noteq> None)
     | Some o' \<Rightarrow> if u \<noteq> None then ret True else bindE (org_Get o' ''clients'' name) (\<lambda>c. ret (c \<noteq> None)))"

definition groupKnown :: "string \<Rightarrow> string \<Rightarrow> (body store, serr, bool) act" where
  "groupKnown og name = bindE (org_Get og groupsColl name) (\<lambda>g. ret (g \<noteq> None))"

definition unknownACEMembers :: "string option \<Rightarrow> gomap option \<Rightarrow> (body store, serr, string list \<times> string list) act" where
  "unknownACEMembers og ace =
     bindE (missingNames (actorKnown og) (jsonStringsAny (nilGet ace ''actors''))) (\<lambda>actors.
       case og of
         None \<Rightarrow> ret (actors, [])
       | Some o' \<Rightarrow> bindE (missingNames (groupKnown o') (jsonStringsAny (nilGet ace ''groups''))) (\<lambda>groups.
           ret (actors, groups)))"

definition missingMessages :: "string list \<Rightarrow> string list \<Rightarrow> string list" where
  "missingMessages actors groups =
     (if actors \<noteq> [] then [''The actor(s) '' @ joinWith '', '' actors @ '' do not exist.''] else []) @
     (if groups \<noteq> [] then [''The group(s) '' @ joinWith '', '' groups @ '' do not exist in this organization.''] else [])"

text \<open>The last steps of the update, once the body has been accepted; assigning into a nil map
  panics.\<close>

definition storeACE :: "string \<Rightarrow> string \<Rightarrow> string \<Rightarrow> string \<Rightarrow> nat \<Rightarrow> gomap option \<Rightarrow> handler" where
  "storeACE scope typ name perm code ace =
     tryE (loadACL scope typ name) serverError (\<lambda>acl.
       case acl of
         None \<Rightarrow> panic
       | Some m \<Rightarrow>
           (let v = (case ace of None \<Rightarrow> GNull | Some e \<Rightarrow> GMap e) in
            tryE (org_Put scope aclsColl (aclKey typ name) (mustEncode (AList.update perm v m))) serverError
              (\<lambda>_. writeJSON code (JObj [(perm, toJson v)]))))"

text \<open>The body is either the entry itself or an object holding it under the permission's name.\<close>

definition bodyACE :: "string \<Rightarrow> gomap option \<Rightarrow> gomap option" where
  "bodyACE perm bdy = (case asMap (nilGet bdy perm) of Some inner \<Rightarrow> Some inner | None \<Rightarrow> bdy)"

definition acceptACE :: "string \<Rightarrow> string option \<Rightarrow> string \<Rightarrow> string \<Rightarrow> string \<Rightarrow> nat \<Rightarrow> gomap option \<Rightarrow> handler" where
  "acceptACE scope members typ name perm code ace =
     tryE (unknownACEMembers members ace) serverError (\<lambda>(actors, groups).
       if actors \<noteq> [] \<or> groups \<noteq> [] then writeError 400 (missingMessages actors groups)
       else storeACE scope typ name perm code ace)"

definition guardACE :: "request \<Rightarrow> string \<Rightarrow> string option \<Rightarrow> string \<Rightarrow> string \<Rightarrow> string \<Rightarrow> nat \<Rightarrow> gomap option \<Rightarrow> handler" where
  "guardACE r scope members typ name perm code ace =
     (if members \<noteq> None
      then tryE (removesAdminsFromGrant r scope typ name perm ace) serverError (\<lambda>removed.
             if removed then writeError 403 [''Admin group cannot be removed from the Grant ACE'']
             else acceptACE scope members typ name perm code ace)
      else acceptACE scope members typ name perm code ace)"

definition updateACLPermDoc :: "request \<Rightarrow> string \<Rightarrow> string option \<Rightarrow> string \<Rightarrow> string \<Rightarrow> string \<Rightarrow> nat \<Rightarrow> handler" where
  "updateACLPermDoc r scope members typ name perm code =
     (if perm \<notin> set aclPerms then writeError 404 [''Cannot find ACL permission '' @ perm]
      else aclObjectFound scope typ name
        (case unmarshalAny (rq_body r) of
           None \<Rightarrow> writeError 400 [''invalid JSON body'']
         | Some bdy \<Rightarrow> guardACE r scope members typ name perm code (bodyACE perm bdy)))"

definition getACL :: "string \<Rightarrow> string \<Rightarrow> string \<Rightarrow> handler" where
  "getACL typ og name = withOrg og (writeACLDoc og typ name)"

definition getACLPerm :: "string \<Rightarrow> string \<Rightarrow> string \<Rightarrow> string \<Rightarrow> handler" where
  "getACLPerm typ og name perm = withOrg og (writeACLPermDoc og typ name perm)"

definition putACLPerm :: "string \<Rightarrow> request \<Rightarrow> string \<Rightarrow> string \<Rightarrow> string \<Rightarrow> handler" where
  "putACLPerm typ r og name perm = withOrg og (updateACLPermDoc r og (Some og) typ name perm (aclPutStatus typ))"

definition getOrgACL :: "string \<Rightarrow> handler" where
  "getOrgACL og = withOrg og (writeACLDoc og ''organizations'' og)"

definition getOrgACLPerm :: "string \<Rightarrow> string \<Rightarrow> handler" where
  "getOrgACLPerm og perm = withOrg og (writeACLPermDoc og ''organizations'' og perm)"

definition putOrgACLPerm :: "request \<Rightarrow> string \<Rightarrow> string \<Rightarrow> handler" where
  "putOrgACLPerm r og perm = withOrg og (updateACLPermDoc r og (Some og) ''organizations'' og perm 200)"

definition getUserACL :: "string \<Rightarrow> handler" where
  "getUserACL name = writeACLDoc [] ''users'' name"

definition getUserACLPerm :: "string \<Rightarrow> string \<Rightarrow> handler" where
  "getUserACLPerm name perm = writeACLPermDoc [] ''users'' name perm"

definition putUserACLPerm :: "request \<Rightarrow> string \<Rightarrow> string \<Rightarrow> handler" where
  "putUserACLPerm r name perm = updateACLPermDoc r [] None ''users'' name perm 200"

definition creatorACL :: "string \<Rightarrow> gomap" where
  "creatorACL creator = map (\<lambda>(p, ent). (p, case asMap (Some ent) of
      None \<Rightarrow> ent
    | Some ace \<Rightarrow> GMap (AList.update ''actors'' (GStrs (anyStrings (map_of ace ''actors'') @ [creator])) ace))) defaultACL"

definition writeCreatorACL :: "string \<Rightarrow> string \<Rightarrow> string \<Rightarrow> string \<Rightarrow> (body store, serr, unit) act" where
  "writeCreatorACL og typ name creator = org_Put og aclsColl (aclKey typ name) (mustEncode (creatorACL creator))"

definition grantCreator :: "bool \<Rightarrow> request \<Rightarrow> string \<Rightarrow> string \<Rightarrow> string \<Rightarrow> (body store, serr, unit) act" where
  "grantCreator enforceACL r og typ name =
     (if \<not> enforceACL then ret ()
      else (case rq_actor r of None \<Rightarrow> ret () | Some actor \<Rightarrow> writeCreatorACL og typ name (a_Name actor)))"

definition deleteACL :: "string \<Rightarrow> string \<Rightarrow> string \<Rightarrow> (body store, serr, unit) act" where
  "deleteACL og typ name = bindE (org_Delete og aclsColl (aclKey typ name)) (\<lambda>_. ret ())"

definition UpgradeOrgACLs :: "string \<Rightarrow> (body store, serr, unit) act" where
  "UpgradeOrgACLs og =
     (let validator = og @ ''-validator''; key = aclKey ''containers'' ''clients'' in
      bindE (org_Get og aclsColl key) (\<lambda>raw.
        case raw of
          None \<Rightarrow> ret ()
        | Some b \<Rightarrow> if b \<noteq> mustEncode (legacyClientsACL validator) then ret ()
            else org_Put og aclsColl key (mustEncode (validatorClientsACL validator))))"

section \<open>Encoding and decoding\<close>

text \<open>Go maps have distinct keys, at every depth.\<close>

fun wfAny :: "goany \<Rightarrow> bool" where
  "wfAny (GArr es) = list_all wfAny es"
| "wfAny (GMap ms) = (distinct (map fst ms) \<and> list_all (\<lambda>(n, v). wfAny v) ms)"
| "wfAny _ = True"

abbreviation wfMap :: "gomap option \<Rightarrow> bool" where
  "wfMap m \<equiv> (case m of None \<Rightarrow> True | Some kvs \<Rightarrow> wfAny (GMap kvs))"

lemma fold_update_fresh:
  "distinct (map fst acc @ map fst ms) \<Longrightarrow>
   fold (\<lambda>(n, v) acc. AList.update n (h v) acc) ms acc = acc @ map (\<lambda>(n, v). (n, h v)) ms"
proof (induction ms arbitrary: acc)
  case (Cons m ms)
  obtain n v where m: "m = (n, v)" by (cases m)
  have "n \<notin> fst ` set acc" using Cons.prems by (auto simp: m)
  then have "AList.update n (h v) acc = acc @ [(n, h v)]"
    by (induction acc) auto
  with Cons show ?case by (simp add: m)
qed simp

lemma map_of_sort_fst: "distinct (map fst ms) \<Longrightarrow> map_of (sort_key fst ms) = map_of ms"
  by (subst map_of_inject_set) (simp_all add: distinct_map)

lemma distinct_fst_sort: "distinct (map fst (sort_key fst xs)) = distinct (map fst xs)"
  by (simp add: distinct_map)

lemma lastMembers_toJson: "wfAny v \<Longrightarrow> lastMembers (toJson v) = toJson v"
proof (induction v rule: toJson.induct)
  case (6 ms)
  let ?js = "sort_key fst (map (\<lambda>(n, v). (n, toJson v)) ms)"
  have fsts: "map fst (map (\<lambda>(n, v). (n, toJson v)) ms) = map fst ms" by (simp add: comp_def split_def)
  have "distinct (map fst ?js)" using 6 by (simp add: distinct_fst_sort fsts del: map_map)
  moreover have "\<forall>p \<in> set ?js. lastMembers (snd p) = snd p"
    using 6 by (fastforce simp: list_all_iff)
  then have "map (\<lambda>(n, v). (n, lastMembers v)) ?js = ?js"
    by (intro map_idI) (simp add: split_def del: set_sort)
  ultimately show ?case by (simp add: fold_update_fresh del: map_map)
qed (auto simp: list_all_iff intro!: map_idI)

lemma wfAny_ofJson: "wfAny (ofJson (lastMembers j))"
proof (induction j rule: lastMembers.induct)
  case (1 ms)
  have "distinct (map fst acc) \<Longrightarrow> list_all (\<lambda>(n, v). wfAny (ofJson v)) acc \<Longrightarrow>
      wfAny (ofJson (JObj (fold (\<lambda>(n, v) acc. AList.update n (lastMembers v) acc) ms acc)))" for acc
    using 1
  proof (induction ms arbitrary: acc)
    case Nil
    then show ?case by (auto simp: list_all_iff comp_def split_def)
  next
    case (Cons m ms)
    have "wfAny (ofJson (lastMembers (snd m)))" using Cons.prems(3)[of m "fst m" "snd m"] by simp
    then have "list_all (\<lambda>(n, v). wfAny (ofJson v)) (AList.update (fst m) (lastMembers (snd m)) acc)"
      using update_range[of _ _ "fst m" "lastMembers (snd m)" acc] Cons.prems(2)
      by (fastforce simp: list_all_iff)
    with Cons.prems Cons.IH[of "AList.update (fst m) (lastMembers (snd m)) acc"] show ?case
      by (auto simp: split_def)
  qed
  from this[of "[]"] show ?case by simp
qed (auto simp: list_all_iff)

text \<open>What the sources read of an entry: its actors and its groups.\<close>

definition aceLists :: "gomap option \<Rightarrow> string \<Rightarrow> (string list \<times> string list) option" where
  "aceLists acl perm = map_option (\<lambda>ace. (anyStrings (map_of ace ''actors''), anyStrings (map_of ace ''groups'')))
     (asMap (nilGet acl perm))"

definition reload :: "goany \<Rightarrow> goany" where
  "reload v = ofJson (toJson v)"

lemma map_of_map_snd: "map_of (map (\<lambda>(n, v). (n, h v)) xs) = (\<lambda>k. map_option h (map_of xs k))"
  by (rule ext, induction xs) auto

lemma reload_map:
  assumes "distinct (map fst ms)"
  obtains ms' where "reload (GMap ms) = GMap ms'" and "map_of ms' = (\<lambda>k. map_option reload (map_of ms k))"
proof -
  let ?js = "map (\<lambda>(n, v). (n, toJson v)) ms"
  have "distinct (map fst ?js)" using assms by (simp add: comp_def split_def)
  then have "map_of (sort_key fst ?js) = map_of ?js" by (rule map_of_sort_fst)
  then have "map_of (map (\<lambda>(n, v). (n, ofJson v)) (sort_key fst ?js)) = (\<lambda>k. map_option reload (map_of ms k))"
    by (simp add: map_of_map_snd reload_def[abs_def] option.map_comp comp_def del: map_map)
  then show thesis by (rule that[rotated]) (simp add: reload_def)
qed

lemma strElems_reload: "strElems (map reload es) = strElems es"
proof -
  have "(case reload e of GStr s \<Rightarrow> [s] | _ \<Rightarrow> []) = (case e of GStr s \<Rightarrow> [s] | _ \<Rightarrow> [])" for e
    by (cases e) (simp_all add: reload_def)
  then show ?thesis by (simp add: strElems_def comp_def)
qed

lemma anyStrings_reload [simp]: "anyStrings (map_option reload v) = anyStrings v"
proof (cases v)
  case (Some x)
  have "strElems (map (ofJson \<circ> JStr) ss) = ss" for ss by (induction ss) (simp_all add: strElems_def)
  moreover have "reload = ofJson \<circ> toJson" by (rule ext) (simp add: reload_def)
  ultimately show ?thesis
    using Some strElems_reload by (cases x) (simp_all add: anyStrings_def reload_def)
qed (simp add: anyStrings_def)

lemma asMap_reload:
  "wfAny v \<Longrightarrow> (case asMap (Some v) of None \<Rightarrow> asMap (Some (reload v)) = None
     | Some ms \<Rightarrow> (\<exists>ms'. asMap (Some (reload v)) = Some ms' \<and> map_of ms' = (\<lambda>k. map_option reload (map_of ms k))))"
proof (cases v)
  case (GMap ms)
  assume "wfAny v"
  with GMap show ?thesis by (auto simp: asMap_def elim!: reload_map[of ms])
qed (simp_all add: asMap_def reload_def)

lemma unmarshal_mustEncode:
  assumes "wfAny (GMap m)"
  obtains m' where "unmarshalAny (mustEncode m) = Some (Some m')" and "map_of m' = (\<lambda>k. map_option reload (map_of m k))"
proof -
  obtain m' where "reload (GMap m) = GMap m'" "map_of m' = (\<lambda>k. map_option reload (map_of m k))"
    using reload_map[of m] assms by auto
  moreover have "lastMembers (toJson (GMap m)) = toJson (GMap m)" using assms by (rule lastMembers_toJson)
  ultimately show thesis using that by (simp add: unmarshalAny_def mustEncode_def reload_def)
qed

lemma wfAny_map_of: "wfAny (GMap m) \<Longrightarrow> map_of m k = Some v \<Longrightarrow> wfAny v"
  by (auto simp: list_all_iff dest!: map_of_SomeD)

text \<open>Storing an ACL and reading it back preserves every entry.\<close>

lemma aceLists_stored:
  assumes "wfAny (GMap m)"
  shows "aceLists (effectiveACL (Some (mustEncode m)) typ name) p = aceLists (Some m) p"
proof -
  obtain m' where m': "unmarshalAny (mustEncode m) = Some (Some m')" "map_of m' = (\<lambda>k. map_option reload (map_of m k))"
    using unmarshal_mustEncode[OF assms] by blast
  show ?thesis
  proof (cases "map_of m p")
    case None
    then show ?thesis by (simp add: effectiveACL_def m' aceLists_def nilGet_def asMap_def)
  next
    case (Some v)
    then have "wfAny v" using assms by (rule wfAny_map_of[rotated])
    from asMap_reload[OF this] show ?thesis
      by (auto simp: effectiveACL_def m' aceLists_def nilGet_def Some split: option.splits)
  qed
qed

section \<open>Evaluation against the store's content\<close>

text \<open>What an actor holds, stated over the content of the store.\<close>

definition holds :: "body mirror \<Rightarrow> string \<Rightarrow> Actor \<Rightarrow> string \<Rightarrow> string \<Rightarrow> string \<Rightarrow> bool" where
  "holds M og actor typ name perm =
     (case aceLists (effectiveACL (M og aclsColl (aclKey typ name)) typ name) perm of
        None \<Rightarrow> False
      | Some (actors, groups) \<Rightarrow>
          a_Name actor \<in> set actors \<or> (\<exists>g \<in> set groups. g \<in> effectiveGroups M og actor))"

text \<open>The contract of group resolution, which the direct and the cached form both meet.\<close>

locale group_resolver =
  fixes ready :: "body store \<Rightarrow> bool"
    and groupsOf :: "string \<Rightarrow> Actor \<Rightarrow> (body store, serr, string list) act"
  assumes ready_same: "ready s \<Longrightarrow> same s s' \<Longrightarrow> ready s'"
    and resolves: "ready s \<Longrightarrow> wpE (groupsOf og actor)
      (\<lambda>gs s'. same s s' \<and> set gs = effectiveGroups (stored s) og actor) (\<lambda>e s'. same s s' \<and> e = ErrBackend) s"
begin

lemma allowedWith_holds:
  assumes "ready s"
  shows "wpE (allowedWith groupsOf og actor typ name perm)
    (\<lambda>b s'. same s s' \<and> b = holds (stored s) og actor typ name perm) (\<lambda>e s'. same s s' \<and> e = ErrBackend) s"
  unfolding allowedWith_def loadACL_def wpE_bindE
proof (rule wp_Get)
  fix s1 assume s1: "same s s1"
  let ?acl = "effectiveACL (stored s og aclsColl (aclKey typ name)) typ name"
  have res: "wpE (groupsOf og actor) (\<lambda>gs s'. same s s' \<and> set gs = effectiveGroups (stored s) og actor)
      (\<lambda>e s'. same s s' \<and> e = ErrBackend) s1"
    by (rule wpE_mono[OF resolves[OF ready_same[OF assms s1]]]) (use s1 in \<open>auto simp: stored_same dest: same_trans[OF s1]\<close>)
  show "wpE (ret ?acl) (\<lambda>acl. wpE (case asMap (nilGet acl perm) of
         None \<Rightarrow> ret False
       | Some ace \<Rightarrow>
           if a_Name actor \<in> set (anyStrings (map_of ace ''actors'')) then ret True
           else if anyStrings (map_of ace ''groups'') = [] then ret False
           else bindE (groupsOf og actor) (\<lambda>member. ret (aceAllows (Some (GMap ace)) actor member)))
      (\<lambda>b s'. same s s' \<and> b = holds (stored s) og actor typ name perm) (\<lambda>e s'. same s s' \<and> e = ErrBackend))
      (\<lambda>e s'. same s s' \<and> e = ErrBackend) s1"
  proof (cases "asMap (nilGet ?acl perm)")
    case None
    then show ?thesis using s1 by (simp add: wp holds_def aceLists_def)
  next
    case (Some ace)
    then have "aceLists ?acl perm = Some (anyStrings (map_of ace ''actors''), anyStrings (map_of ace ''groups''))"
      by (simp add: aceLists_def)
    then show ?thesis
      unfolding wpE_ret Some option.case
      using s1 by (auto simp: wp holds_def aceAllows_def asMap_def list_ex_iff intro!: wpE_mono[OF res])
  qed
qed simp

end

interpretation direct: group_resolver wfS actorGroups
  by unfold_locales
    (auto simp: wfS_same actorGroups_def wp membership_exact intro!: wp_buildGroupIndex)

interpretation cached: group_resolver
  "\<lambda>s. wfS s \<and> (\<forall>og. groupsFresh og (groupsGen s) (stored s) cache)" "cachedGroupsOf cache" for cache
  by unfold_locales
    (auto simp: same_def cachedGroupsOf_def cachedActorGroups_def wp membership_exact intro!: wp_cacheGet)

section \<open>Updating an entry\<close>

definition memberKnown :: "body mirror \<Rightarrow> string option \<Rightarrow> string \<Rightarrow> bool" where
  "memberKnown M og name = (M [] ''users'' name \<noteq> None \<or> (\<exists>o'. og = Some o' \<and> M o' ''clients'' name \<noteq> None))"

lemma wp_missingNames:
  assumes known: "\<And>n s'. same s s' \<Longrightarrow> wpE (known n) (\<lambda>b s''. same s s'' \<and> b = P n) (\<lambda>e s''. same s s'' \<and> e = ErrBackend) s'"
  shows "wpE (missingNames known names) (\<lambda>ms s'. same s s' \<and> (ms = [] \<longleftrightarrow> list_all P names))
    (\<lambda>e s'. same s s' \<and> e = ErrBackend) s"
  unfolding missingNames_def
  by (rule wpE_foldE[where I = "\<lambda>rest acc s'. same s s' \<and> (\<exists>done. names = done @ rest \<and> (acc = [] \<longleftrightarrow> list_all P done))"])
    (auto simp: wp intro!: wpE_mono[OF known])

lemma wp_actorKnown:
  "wpE (actorKnown og n) (\<lambda>b s'. same s s' \<and> b = memberKnown (stored s) og n) (\<lambda>e s'. same s s' \<and> e = ErrBackend) s"
  unfolding actorKnown_def wp
  by (rule wp_Get) (auto simp: wp memberKnown_def stored_same split: option.split intro!: wp_Get dest: same_trans)

lemma wp_groupKnown:
  "wpE (groupKnown og n) (\<lambda>b s'. same s s' \<and> b = (stored s og groupsColl n \<noteq> None)) (\<lambda>e s'. same s s' \<and> e = ErrBackend) s"
  unfolding groupKnown_def wp by (rule wp_Get) (auto simp: wp)

lemma wfAny_policyACL: "wfAny (GMap (policyACL grants))"
  by (simp add: policyACL_def aclPerms_def entry_def)

lemma wfAny_fallbackACL: "wfAny (GMap (fallbackACL typ name))"
proof -
  have "wfAny (GMap defaultACL)" by (simp add: defaultACL_def entry_def)
  then show ?thesis
    unfolding fallbackACL_def orgACL_def containerACL_def groupACL_def Let_def by (simp only: wfAny_policyACL split: if_split) simp
qed

lemma unmarshalAny_cases:
  assumes "unmarshalAny b = Some m"
  obtains "m = None" | ms where "m = Some (map (\<lambda>(n, v). (n, ofJson v)) ms)" "wfMap m"
proof (cases b)
  case (Doc j)
  with assms wfAny_ofJson[of j] show thesis
    by (cases "lastMembers j") (auto simp: unmarshalAny_def intro: that)
qed (use assms in \<open>simp add: unmarshalAny_def\<close>)

lemma wfMap_effectiveACL: "wfMap (effectiveACL raw typ name)"
proof -
  have "wfMap m" if "unmarshalAny b = Some m" for b m
    using that by (cases rule: unmarshalAny_cases) auto
  note um = this
  show ?thesis
  proof (cases raw)
    case (Some b)
    then show ?thesis
      using um[of b] wfAny_fallbackACL
      by (cases "unmarshalAny b") (simp_all only: effectiveACL_def option.case)
  qed (use wfAny_fallbackACL in \<open>simp only: effectiveACL_def option.case\<close>)
qed

text \<open>A decoded body holds no \<^verbatim>\<open>[]string\<close>, at the top level or in the nested entry.\<close>

lemma bodyACE_json:
  assumes "unmarshalAny b = Some bdy"
  shows "wfMap (bodyACE perm bdy)"
    and "anyStrings (nilGet (bodyACE perm bdy) k) = jsonStringsAny (nilGet (bodyACE perm bdy) k)"
proof -
  have json: "anyStrings (map_option ofJson v) = jsonStringsAny (map_option ofJson v)" for v
    by (cases v; cases "the v") (auto simp: anyStrings_def jsonStringsAny_def)
  have "wfMap (bodyACE perm bdy) \<and> anyStrings (nilGet (bodyACE perm bdy) k) = jsonStringsAny (nilGet (bodyACE perm bdy) k)"
    using assms
  proof (cases rule: unmarshalAny_cases)
    case 1
    then show ?thesis by (simp add: bodyACE_def nilGet_def asMap_def anyStrings_def jsonStringsAny_def)
  next
    case (2 ms)
    have get: "nilGet bdy k' = map_option ofJson (map_of ms k')" for k'
      by (simp add: 2 nilGet_def map_of_map_snd)
    show ?thesis
    proof (cases "asMap (nilGet bdy perm)")
      case None
      then show ?thesis using 2 get json by (simp add: bodyACE_def)
    next
      case (Some inner)
      then obtain x where x: "map_of ms perm = Some x" "asMap (Some (ofJson x)) = Some inner"
        by (cases "map_of ms perm") (simp_all add: get asMap_def)
      then obtain j where j: "map_of ms perm = Some (JObj j)" "inner = map (\<lambda>(n, v). (n, ofJson v)) j"
        by (cases x) (simp_all add: asMap_def)
      have "nilGet bdy perm = Some (GMap inner)" by (simp add: get j)
      then have "wfAny (GMap inner)" using 2 wfAny_map_of[where k = perm and v = "GMap inner"] by (simp only: nilGet_def option.case)
      then show ?thesis using Some j(2) json by (simp add: bodyACE_def nilGet_def map_of_map_snd)
    qed
  qed
  then show "wfMap (bodyACE perm bdy)"
    and "anyStrings (nilGet (bodyACE perm bdy) k) = jsonStringsAny (nilGet (bodyACE perm bdy) k)" by blast+
qed

abbreviation aclOf :: "body mirror \<Rightarrow> string \<Rightarrow> string \<Rightarrow> string \<Rightarrow> gomap option" where
  "aclOf M og typ name \<equiv> effectiveACL (M og aclsColl (aclKey typ name)) typ name"

definition onlyACL :: "string \<Rightarrow> string \<Rightarrow> string \<Rightarrow> body store \<Rightarrow> body store \<Rightarrow> bool" where
  "onlyACL og typ name s s' = (\<forall>og' c k. (og', c, k) \<noteq> (og, aclsColl, aclKey typ name) \<longrightarrow>
     stored s' og' c k = stored s og' c k)"

lemma wp_storeACE:
  assumes ace: "wfMap ace"
  shows "wpH (storeACE scope typ name perm code ace) (\<lambda>res s'.
     (\<exists>v. res = Reply code v) \<and> onlyACL scope typ name s s' \<and>
       (\<forall>p. aceLists (aclOf (stored s') scope typ name) p =
          (if p = perm then map_option (\<lambda>e. (anyStrings (nilGet ace ''actors''), anyStrings (nilGet ace ''groups''))) ace
           else aceLists (aclOf (stored s) scope typ name) p)) \<or>
     (res = Failure ErrBackend \<or> res = Panicked) \<and> stored s' = stored s) s"
    (is "wpH _ ?Q s")
  unfolding storeACE_def loadACL_def wpH_tryE wpE_bindE wpE_ret
proof (rule wp_Get)
  fix s1 assume s1: "same s s1"
  let ?acl = "aclOf (stored s) scope typ name"
  let ?v = "case ace of None \<Rightarrow> GNull | Some e \<Rightarrow> GMap e"
  have put: "?Q (Reply code v) s2"
    if acl: "?acl = Some m" and w: "wrote scope aclsColl (aclKey typ name) (mustEncode (AList.update perm ?v m)) s1 s2" for m s2 v
  proof -
    have "wfAny (GMap m)" using wfMap_effectiveACL acl by (metis option.simps(5))
    then have "wfAny (GMap (AList.update perm ?v m))"
      using ace update_range[of _ _ perm ?v m] by (fastforce simp: list_all_iff split: option.splits)
    from aceLists_stored[OF this] w have "aceLists (aclOf (stored s2) scope typ name) p = aceLists (Some (AList.update perm ?v m)) p" for p
      by (simp add: stored_wrote)
    moreover have "aceLists (Some (AList.update perm ?v m)) p =
      (if p = perm then map_option (\<lambda>e. (anyStrings (nilGet ace ''actors''), anyStrings (nilGet ace ''groups''))) ace
       else aceLists ?acl p)" for p
      by (cases ace) (auto simp: aceLists_def nilGet_def map_of_update asMap_def acl)
    moreover have "onlyACL scope typ name s s2"
      using w s1 by (auto simp: onlyACL_def stored_wrote stored_same)
    ultimately show ?thesis by simp
  qed
  show "wpH (case ?acl of None \<Rightarrow> panic
       | Some m \<Rightarrow> (let v = ?v in
            tryE (org_Put scope aclsColl (aclKey typ name) (mustEncode (AList.update perm v m))) serverError
              (\<lambda>_. writeJSON code (JObj [(perm, toJson v)])))) ?Q s1"
  proof (cases ?acl)
    case None
    then show ?thesis using s1 by (simp add: wp stored_same)
  next
    case (Some m)
    show ?thesis
      unfolding Some option.case Let_def wp
      by (rule wp_Put) (use put[OF Some] Some s1 in \<open>auto simp: stored_same\<close>)
  qed
qed (simp add: wp stored_same)

lemma reads_hasVersion [readsI]: "reads (hasVersion og coll name)"
  unfolding hasVersion_def by (intro readsI)

lemma reads_aclObjectExists [readsI]: "reads (aclObjectExists og typ name)"
  unfolding aclObjectExists_def by (intro readsI)

lemma reads_loadACL [readsI]: "reads (loadACL og typ name)"
  unfolding loadACL_def by (intro readsI)

lemma reads_removesAdmins [readsI]: "reads (removesAdminsFromGrant r scope typ name perm ace)"
  unfolding removesAdminsFromGrant_def by (intro readsI)

lemma wp_unknownACEMembers:
  "wpE (unknownACEMembers og ace)
     (\<lambda>(actors, groups) s'. same s s' \<and>
        (actors = [] \<longleftrightarrow> list_all (memberKnown (stored s) og) (jsonStringsAny (nilGet ace ''actors''))) \<and>
        (groups = [] \<longleftrightarrow> (\<forall>o'. og = Some o' \<longrightarrow>
           list_all (\<lambda>g. stored s o' groupsColl g \<noteq> None) (jsonStringsAny (nilGet ace ''groups'')))))
     (\<lambda>e s'. e = ErrBackend \<and> same s s') s"
proof -
  have actors: "wpE (missingNames (actorKnown og) names)
      (\<lambda>ms s'. same s s' \<and> (ms = [] \<longleftrightarrow> list_all (memberKnown (stored s) og) names)) (\<lambda>e s'. same s s' \<and> e = ErrBackend) s" for names
    by (rule wp_missingNames) (rule wpE_mono[OF wp_actorKnown], auto simp: stored_same dest: same_trans)
  have groups: "wpE (missingNames (groupKnown o') names)
      (\<lambda>ms s'. same s1 s' \<and> (ms = [] \<longleftrightarrow> list_all (\<lambda>g. stored s1 o' groupsColl g \<noteq> None) names))
      (\<lambda>e s'. same s1 s' \<and> e = ErrBackend) s1" for names o' s1
    by (rule wp_missingNames) (rule wpE_mono[OF wp_groupKnown], auto simp: stored_same dest: same_trans)
  show ?thesis
  proof (cases og)
    case None
    show ?thesis unfolding unknownACEMembers_def wp None option.case
      by (rule wpE_mono[OF actors[unfolded None]]) auto
  next
    case (Some o')
    show ?thesis unfolding unknownACEMembers_def wp Some option.case
      by (rule wpE_mono[OF actors[unfolded Some]])
        (auto simp: wp stored_same dest: same_trans intro!: wpE_mono[OF groups])
  qed
qed

text \<open>Reading the object first, as every endpoint does, leaves the store alone.\<close>

lemma wp_aclObjectFound:
  assumes "\<And>s'. same s s' \<Longrightarrow> wpH k Q s'"
    and "\<And>s'. same s s' \<Longrightarrow> Q (Failure ErrBackend) s'"
    and "\<And>s' msg. same s s' \<Longrightarrow> Q (Reply 404 msg) s'"
  shows "wpH (aclObjectFound og typ name k) Q s"
  unfolding aclObjectFound_def wpH_tryE
  by (rule wp_reads[OF reads_aclObjectExists]) (use assms in \<open>auto simp: wp\<close>)

definition aceAccepted :: "body mirror \<Rightarrow> string option \<Rightarrow> gomap option \<Rightarrow> bool" where
  "aceAccepted M members ace =
     (list_all (memberKnown M members) (anyStrings (nilGet ace ''actors'')) \<and>
      (\<forall>o'. members = Some o' \<longrightarrow> list_all (\<lambda>g. M o' groupsColl g \<noteq> None) (anyStrings (nilGet ace ''groups''))))"

definition aclUpdated :: "body store \<Rightarrow> string \<Rightarrow> string \<Rightarrow> string \<Rightarrow> string \<Rightarrow> gomap option \<Rightarrow> body store \<Rightarrow> bool" where
  "aclUpdated s scope typ name perm ace s' = (onlyACL scope typ name s s' \<and>
     (\<forall>p. aceLists (aclOf (stored s') scope typ name) p =
        (if p = perm then map_option (\<lambda>e. (anyStrings (nilGet ace ''actors''), anyStrings (nilGet ace ''groups''))) ace
         else aceLists (aclOf (stored s) scope typ name) p)))"

definition updSpec :: "nat \<Rightarrow> body store \<Rightarrow> string \<Rightarrow> string option \<Rightarrow> string \<Rightarrow> string \<Rightarrow> string \<Rightarrow> gomap option \<Rightarrow>
    response \<Rightarrow> body store \<Rightarrow> bool" where
  "updSpec code s scope members typ name perm ace res s' =
     (if status res = code
      then aclUpdated s scope typ name perm ace s' \<and> aceAccepted (stored s) members ace
      else stored s' = stored s)"

abbreviation okCode :: "nat \<Rightarrow> bool" where
  "okCode code \<equiv> code = 200 \<or> code = 201"

lemma updSpec_reject:
  assumes "okCode code" and "same s s'"
  shows "updSpec code s scope members typ name perm ace (Failure e) s'"
    and "updSpec code s scope members typ name perm ace Panicked s'"
    and "n \<in> {400, 403, 404} \<Longrightarrow> updSpec code s scope members typ name perm ace (Reply n v) s'"
  using assms by (auto simp: updSpec_def stored_same)

lemma updSpec_same: "same s s1 \<Longrightarrow> updSpec code s1 = updSpec code s"
  by (intro ext) (simp add: updSpec_def aclUpdated_def onlyACL_def stored_same)

lemma wp_acceptACE:
  assumes "okCode code" and "unmarshalAny b = Some bdy"
  shows "wpH (acceptACE scope members typ name perm code (bodyACE perm bdy))
    (updSpec code s scope members typ name perm (bodyACE perm bdy)) s"
  unfolding acceptACE_def wpH_tryE
proof (rule wpE_mono[OF wp_unknownACEMembers], goal_cases)
  case (1 p s2)
  note json = bodyACE_json[OF assms(2)]
  obtain actors groups where p: "p = (actors, groups)" by (cases p)
  show ?case
  proof (cases "actors \<noteq> [] \<or> groups \<noteq> []")
    case True
    with 1 show ?thesis unfolding p using updSpec_reject(3)[OF assms(1)] by (auto simp: wp)
  next
    case False
    with 1 have s2: "same s s2" and acc: "aceAccepted (stored s) members (bodyACE perm bdy)"
      by (auto simp: p aceAccepted_def json(2))
    from False show ?thesis
      unfolding p using assms(1)
      by (auto intro!: wpH_mono[OF wp_storeACE[OF json(1)]] simp: updSpec_def aclUpdated_def onlyACL_def stored_same[OF s2] acc)
  qed
qed (auto simp: wp updSpec_reject[OF assms(1)])

lemma wp_guardACE:
  assumes "okCode code" and "unmarshalAny b = Some bdy"
  shows "wpH (guardACE r scope members typ name perm code (bodyACE perm bdy))
    (updSpec code s scope members typ name perm (bodyACE perm bdy)) s"
proof (cases members)
  case (Some o')
  have accept: "wpH (acceptACE scope members typ name perm code (bodyACE perm bdy))
      (updSpec code s scope members typ name perm (bodyACE perm bdy)) s1" if "same s s1" for s1
    unfolding updSpec_same[OF that, symmetric] by (rule wp_acceptACE[OF assms])
  show ?thesis
    unfolding guardACE_def Some
    by (simp only: not_None_eq ex_simps simp_thms if_True wpH_tryE)
      (auto intro!: wp_reads[OF reads_removesAdmins] accept[unfolded Some] simp: wp updSpec_reject[OF assms(1)])
qed (simp add: guardACE_def wp_acceptACE[OF assms])

lemma aceLists_policyACL:
  "aceLists (Some (policyACL grants)) p =
     (if p \<in> set aclPerms then Some ([], map fst (filter (\<lambda>(g, perms). p \<in> set perms) grants)) else None)"
proof -
  have "map_of (map (\<lambda>q. (q, h q)) qs) p = (if p \<in> set qs then Some (h p) else None)" for h :: "string \<Rightarrow> goany" and qs
    by (induction qs) auto
  then show ?thesis by (simp add: aceLists_def nilGet_def policyACL_def asMap_def entry_def anyStrings_def)
qed

lemma validator_differs: "mustEncode (validatorClientsACL v) \<noteq> mustEncode (legacyClientsACL v)"
proof
  assume eq: "mustEncode (validatorClientsACL v) = mustEncode (legacyClientsACL v)"
  have V: "validatorClientsACL v = [(''create'', entry [v] [''admins'']), (''read'', entry [] [''admins'', ''users'']),
      (''update'', entry [] [''admins'']), (''delete'', entry [] [''admins'', ''users'']), (''grant'', entry [] [''admins''])]"
    by (simp add: validatorClientsACL_def containerACL_def policyACL_def aclPerms_def entry_def asMap_def
        containerUserPerms_def containerClientPerms_def getd_def)
  have "wfAny (GMap (validatorClientsACL v))" by (simp add: V entry_def)
  moreover have "wfAny (GMap (legacyClientsACL v))" by (simp add: legacyClientsACL_def defaultACL_def entry_def)
  ultimately have "aceLists (Some (validatorClientsACL v)) ''read'' = aceLists (Some (legacyClientsACL v)) ''read''"
    using aceLists_stored eq by metis
  then show False
    by (simp add: V legacyClientsACL_def defaultACL_def aceLists_def nilGet_def entry_def asMap_def anyStrings_def)
qed

lemma wp_replace:
  assumes "\<And>s'. (\<forall>og' c' k'. stored s' og' c' k' = (if og' = og \<and> c' = c \<and> k' = k \<and> stored s og c k = Some old
        then Some new else stored s og' c' k')) \<Longrightarrow> Q () s'"
    and "\<And>s'. same s s' \<Longrightarrow> E ErrBackend s'"
  shows "wpE (bindE (org_Get og c k) (\<lambda>raw. case raw of None \<Rightarrow> ret ()
      | Some b \<Rightarrow> if b \<noteq> old then ret () else org_Put og c k new)) Q E s"
  unfolding wpE_bindE
proof (rule wp_Get)
  fix s1 assume s1: "same s s1"
  have unchanged: "Q () s1" if "stored s og c k \<noteq> Some old"
    using that by (intro assms(1)) (auto simp: stored_same[OF s1])
  have written: "Q () s2" if "stored s og c k = Some old" "wrote og c k new s1 s2" for s2
    using that by (intro assms(1)) (auto simp: stored_wrote stored_same[OF s1])
  have err: "E ErrBackend s2" if "same s1 s2" for s2
    by (rule assms(2)[OF same_trans[OF s1 that]])
  show "wpE (case stored s og c k of None \<Rightarrow> ret () | Some b \<Rightarrow> if b \<noteq> old then ret () else org_Put og c k new) Q E s1"
    using unchanged written err by (auto simp: wp split: option.split intro!: wp_Put)
qed (rule assms(2))

lemma replace_skips:
  assumes "stored s og c k \<noteq> Some old"
  shows "wpE (bindE (org_Get og c k) (\<lambda>raw. case raw of None \<Rightarrow> ret ()
      | Some b \<Rightarrow> if b \<noteq> old then ret () else org_Put og c k new)) (\<lambda>_ s'. backend s' = backend s) (\<lambda>_ s'. backend s' = backend s) s"
  unfolding wpE_bindE by (rule wp_Get) (use assms in \<open>auto simp: wp same_def split: option.split\<close>)

lemma wp_UpgradeOrgACLs:
  "wpE (UpgradeOrgACLs og)
     (\<lambda>_ s'. onlyACL og ''containers'' ''clients'' s s' \<and>
        stored s' og aclsColl (aclKey ''containers'' ''clients'') =
          (if stored s og aclsColl (aclKey ''containers'' ''clients'') = Some (mustEncode (legacyClientsACL (og @ ''-validator'')))
           then Some (mustEncode (validatorClientsACL (og @ ''-validator'')))
           else stored s og aclsColl (aclKey ''containers'' ''clients'')))
     (\<lambda>e s'. e = ErrBackend \<and> backend s' = backend s) s"
  unfolding UpgradeOrgACLs_def Let_def by (rule wp_replace) (auto simp: onlyACL_def same_def)

section \<open>Properties\<close>

text \<open>C3. Enforcement decides by the stored policy: on any store content, the check of a permission (with
  group membership resolved by a scan) grants exactly the actors that the object's effective ACL
  names, directly or through a group they transitively belong to; it writes nothing and fails only
  when the backend does.\<close>

theorem actorAllowed_decides:
  assumes "wf_backend (backend s)"
  shows "wpE (actorAllowed og actor typ name perm)
    (\<lambda>b s'. backend s' = backend s \<and> b = holds (kv (backend s)) og actor typ name perm)
    (\<lambda>e s'. backend s' = backend s \<and> e = ErrBackend) s"
  unfolding actorAllowed_def by (rule wpE_mono[OF direct.allowedWith_holds[OF assms]]) (auto simp: same_def)

theorem actorAllowed_decides_witness:
  "wpE (actorAllowed ''o'' \<lparr>a_Name = ''pat'', a_IsClient = False, a_IsGlobalAdmin = False, a_ViaWebUI = False\<rparr> ''nodes'' ''n'' ''read'')
    (\<lambda>b s'. backend s' = NewMemoryBackend \<and> b = holds (kv NewMemoryBackend) ''o''
       \<lparr>a_Name = ''pat'', a_IsClient = False, a_IsGlobalAdmin = False, a_ViaWebUI = False\<rparr> ''nodes'' ''n'' ''read'')
    (\<lambda>e s'. backend s' = NewMemoryBackend \<and> e = ErrBackend) (NewWithBackend NewMemoryBackend)"
  using actorAllowed_decides[of "NewWithBackend NewMemoryBackend"] wf_NewMemoryBackend by (simp add: NewWithBackend_def)

text \<open>C4. Updating one permission of an ACL is exact. When the endpoint answers its success status, that
  permission now lists what the body gave, every other permission lists what it listed before (the
  fallback's entries included, when nothing was stored), every actor and group the new entry names
  existed, and nothing else in the store changed; any other answer leaves the store as it was.\<close>

theorem updateACLPermDoc_exact:
  assumes "code = 200 \<or> code = 201"
  shows "wpH (updateACLPermDoc r scope members typ name perm code)
     (\<lambda>res s'. if status res = code
        then \<exists>bdy. unmarshalAny (rq_body r) = Some bdy \<and> perm \<in> set aclPerms \<and>
               aclUpdated s scope typ name perm (bodyACE perm bdy) s' \<and>
               aceAccepted (kv (backend s)) members (bodyACE perm bdy)
        else kv (backend s') = kv (backend s)) s"
    (is "wpH _ ?Q s")
proof (cases "perm \<in> set aclPerms")
  case True
  have ok: "?Q res s'" if "unmarshalAny (rq_body r) = Some bdy"
      "updSpec code s scope members typ name perm (bodyACE perm bdy) res s'" for bdy res s'
    using that True by (auto simp: updSpec_def split: if_splits)
  have body: "wpH (case unmarshalAny (rq_body r) of
      None \<Rightarrow> writeError 400 [''invalid JSON body'']
    | Some bdy \<Rightarrow> guardACE r scope members typ name perm code (bodyACE perm bdy)) ?Q s1" if s1: "same s s1" for s1
  proof (cases "unmarshalAny (rq_body r)")
    case (Some bdy)
    have "wpH (guardACE r scope members typ name perm code (bodyACE perm bdy)) ?Q s1"
      by (rule wpH_mono[OF wp_guardACE[OF assms Some]]) (rule ok[OF Some], simp add: updSpec_same[OF s1])
    then show ?thesis by (simp add: Some)
  qed (use assms s1 in \<open>auto simp: wp stored_same\<close>)
  have eq: "updateACLPermDoc r scope members typ name perm code = aclObjectFound scope typ name (case unmarshalAny (rq_body r) of
      None \<Rightarrow> writeError 400 [''invalid JSON body'']
    | Some bdy \<Rightarrow> guardACE r scope members typ name perm code (bodyACE perm bdy))"
    using True by (simp add: updateACLPermDoc_def)
  show ?thesis
    unfolding eq by (rule wp_aclObjectFound, erule body) (use assms in \<open>auto simp: stored_same\<close>)
qed (use assms in \<open>auto simp: updateACLPermDoc_def wp\<close>)

theorem updateACLPermDoc_exact_witness:
  "wpH (updateACLPermDoc \<lparr>rq_Method = ''PUT'', rq_Path = [], rq_body = Doc (JObj [(''read'', JObj [(''actors'', JArr []), (''groups'', JArr [])])]),
        rq_actor = None, rq_base = [], rq_preread = None, rq_apiVersion = [], rq_query = []\<rparr> ''o'' (Some ''o'') ''nodes'' ''n'' ''read'' 200)
     (\<lambda>res s'. if status res = 200
        then \<exists>bdy. unmarshalAny (Doc (JObj [(''read'', JObj [(''actors'', JArr []), (''groups'', JArr [])])])) = Some bdy \<and>
               aclUpdated (NewWithBackend (mem_set ''o'' ''nodes'' ''n'' (Doc JNull) NewMemoryBackend)) ''o'' ''nodes'' ''n'' ''read'' (bodyACE ''read'' bdy) s'
        else kv (backend s') = kv (mem_set ''o'' ''nodes'' ''n'' (Doc JNull) NewMemoryBackend))
     (NewWithBackend (mem_set ''o'' ''nodes'' ''n'' (Doc JNull) NewMemoryBackend))"
  by (rule wpH_mono[OF updateACLPermDoc_exact]) (auto simp: NewWithBackend_def split: if_splits)

text \<open>C34. The built-in policy keeps authority with the admins: with no ACL stored for it, update, delete,
  create and grant on the organization, and every permission on the admins, clients and users
  groups, are held by exactly the transitive members of the admins group.\<close>

theorem fallback_authority:
  assumes "kv (backend s) og aclsColl (aclKey typ name) = None"
    and "typ = ''organizations'' \<and> perm \<in> {''create'', ''update'', ''delete'', ''grant''} \<or>
         typ = ''groups'' \<and> name \<in> {''admins'', ''clients'', ''users''} \<and> perm \<in> set aclPerms"
  shows "holds (kv (backend s)) og actor typ name perm \<longleftrightarrow> ''admins'' \<in> effectiveGroups (kv (backend s)) og actor"
proof -
  have "aceLists (aclOf (kv (backend s)) og typ name) perm = Some ([], [''admins''])"
    unfolding effectiveACL_def assms(1) option.case fallbackACL_def orgACL_def groupACL_def
    using assms(2) by (elim disjE conjE) (simp_all add: aceLists_policyACL, auto simp: aclPerms_def)
  then show ?thesis by (simp add: holds_def)
qed

theorem fallback_authority_witness:
  "holds (kv NewMemoryBackend) ''o'' \<lparr>a_Name = ''pat'', a_IsClient = False, a_IsGlobalAdmin = False, a_ViaWebUI = False\<rparr> ''organizations'' ''o'' ''update''
   \<longleftrightarrow> ''admins'' \<in> effectiveGroups (kv NewMemoryBackend) ''o'' \<lparr>a_Name = ''pat'', a_IsClient = False, a_IsGlobalAdmin = False, a_ViaWebUI = False\<rparr>"
  using fallback_authority[of "NewWithBackend NewMemoryBackend" "''o''" "''organizations''" "''o''" "''update''"]
  by (simp add: NewWithBackend_def store_simps)

text \<open>C35. Upgrading an organization's ACLs is idempotent and respects the operator: a second run writes
  nothing, and a clients-container ACL that is not byte for byte the one older versions seeded is
  left alone; nothing else is ever written.\<close>

theorem UpgradeOrgACLs_idempotent:
  "wpE (UpgradeOrgACLs og)
     (\<lambda>_ s'. onlyACL og ''containers'' ''clients'' s s' \<and>
        kv (backend s') og aclsColl (aclKey ''containers'' ''clients'') =
          (if kv (backend s) og aclsColl (aclKey ''containers'' ''clients'') = Some (mustEncode (legacyClientsACL (og @ ''-validator'')))
           then Some (mustEncode (validatorClientsACL (og @ ''-validator'')))
           else kv (backend s) og aclsColl (aclKey ''containers'' ''clients'')) \<and>
        wpE (UpgradeOrgACLs og) (\<lambda>_ s''. backend s'' = backend s') (\<lambda>_ s''. backend s'' = backend s') s')
     (\<lambda>e s'. e = ErrBackend \<and> backend s' = backend s) s"
proof (rule wpE_mono[OF wp_UpgradeOrgACLs], goal_cases)
  case (1 x s')
  then have "stored s' og aclsColl (aclKey ''containers'' ''clients'') \<noteq> Some (mustEncode (legacyClientsACL (og @ ''-validator'')))"
    using validator_differs by (auto split: if_splits)
  then have "wpE (UpgradeOrgACLs og) (\<lambda>_ s''. backend s'' = backend s') (\<lambda>_ s''. backend s'' = backend s') s'"
    unfolding UpgradeOrgACLs_def Let_def by (rule replace_skips)
  with 1 show ?case by blast
qed simp

text \<open>C39. The guard on the grant permission does not see fallback ACLs: for an object with no stored ACL
  whose effective grant entry lists the admins group, a write that drops that group is not
  recognised as removing it, whoever makes it, although the guard is documented to judge the
  effective ACL, its fallback included.\<close>

theorem grant_guard_misses_fallback:
  assumes "kv (backend s) og aclsColl (aclKey ''nodes'' name) = None"
  shows "aceLists (aclOf (kv (backend s)) og ''nodes'' name) ''grant'' = Some ([], [''admins'']) \<and>
    wpE (removesAdminsFromGrant r og ''nodes'' name ''grant'' ace) (\<lambda>removed s'. \<not> removed) (\<lambda>e s'. e = ErrBackend) s"
proof
  have acl: "aclOf (stored s) og ''nodes'' name = Some defaultACL"
    by (simp add: effectiveACL_def assms fallbackACL_def)
  show "aceLists (aclOf (kv (backend s)) og ''nodes'' name) ''grant'' = Some ([], [''admins''])"
    by (simp add: acl aceLists_def nilGet_def defaultACL_def asMap_def entry_def anyStrings_def)
  have "jsonStringsAny (nilGet (asMap (nilGet (Some defaultACL) ''grant'')) ''groups'') = []"
    by (simp add: nilGet_def defaultACL_def asMap_def entry_def jsonStringsAny_def)
  then show "wpE (removesAdminsFromGrant r og ''nodes'' name ''grant'' ace) (\<lambda>removed s'. \<not> removed) (\<lambda>e s'. e = ErrBackend) s"
    unfolding removesAdminsFromGrant_def loadACL_def
    by (auto simp: wp acl split: option.split intro!: wp_Get)
qed

theorem grant_guard_misses_fallback_witness:
  "wpE (removesAdminsFromGrant \<lparr>rq_Method = ''PUT'', rq_Path = [], rq_body = Doc JNull,
       rq_actor = Some \<lparr>a_Name = ''mallory'', a_IsClient = False, a_IsGlobalAdmin = False, a_ViaWebUI = False\<rparr>,
       rq_base = [], rq_preread = None, rq_apiVersion = [], rq_query = []\<rparr> ''o'' ''nodes'' ''n'' ''grant'' (Some [(''groups'', GArr [])]))
     (\<lambda>removed s'. \<not> removed) (\<lambda>e s'. e = ErrBackend) (NewWithBackend NewMemoryBackend)"
  using grant_guard_misses_fallback[of "NewWithBackend NewMemoryBackend" "''o''" "''n''"]
  by (simp add: NewWithBackend_def store_simps)

end
