(* ===== verification/Request_Authz.thy ===== *)
theory Request_Authz
  imports Acl
begin

text \<open>Request authorization (\<^verbatim>\<open>src/internal/api/authz_enforce.go\<close>, \<^verbatim>\<open>failclosed.go\<close>) and the route
  table the handlers are registered in.

  A request is classified by its method and path into the permission it needs; \<open>authorize\<close> then
  lets it through or answers it. Routing itself is \<^verbatim>\<open>net/http\<close>'s: a pattern matches a path of the
  same length whose literal segments agree and whose wildcard segments are not empty, and a GET
  pattern serves HEAD.\<close>

record authzCheck =
  aclType :: string
  aclName :: string
  perm :: string
  existColl :: string
  existKey :: string
  existMsg :: string
  globalSpace :: bool
  superuserOnly :: bool
  allowSelf :: string
  aclEndpoint :: bool

definition check :: "string \<Rightarrow> string \<Rightarrow> string \<Rightarrow> authzCheck" where
  "check typ name p = \<lparr>aclType = typ, aclName = name, perm = p, existColl = [], existKey = [], existMsg = [],
     globalSpace = False, superuserOnly = False, allowSelf = [], aclEndpoint = False\<rparr>"

abbreviation superuserCheck :: "string \<Rightarrow> authzCheck" where
  "superuserCheck p \<equiv> (check [] [] p)\<lparr>superuserOnly := True\<rparr>"

section \<open>Classification\<close>

definition isRead :: "string \<Rightarrow> bool" where
  "isRead method = (method = ''GET'' \<or> method = ''HEAD'')"

definition itemPerm :: "string \<Rightarrow> string option" where
  "itemPerm method =
     (if isRead method then Some ''read''
      else if method = ''PUT'' then Some ''update''
      else if method = ''DELETE'' then Some ''delete''
      else None)"

definition enforceSegs :: "string list" where
  "enforceSegs = [''nodes'', ''roles'', ''environments'', ''clients'', ''groups'', ''containers'', ''policies'', ''policy_groups'']"

definition existenceSegs :: "string list" where
  "existenceSegs = [''nodes'', ''roles'', ''environments'', ''clients'', ''groups'', ''containers'']"

definition assocColl :: string where
  "assocColl = ''association_users''"

definition classifyOrgMembership :: "string \<Rightarrow> string \<Rightarrow> string list \<Rightarrow> authzCheck option" where
  "classifyOrgMembership method og rest =
     (if method \<notin> {''POST'', ''PUT'', ''DELETE''} then None
      else if length rest > 2 then None
      else if rest ! 0 = ''users'' \<and> length rest = 1 \<and> method = ''POST'' then Some (superuserCheck ''create'')
      else (let c = check ''organizations'' og ''update'' in
        if rest ! 0 = ''users'' \<and> length rest = 2 \<and> method = ''DELETE'' then
          (let user = rest ! 1 in
           Some (c\<lparr>allowSelf := user, existColl := assocColl, existKey := user,
                   existMsg := ''Cannot find user '' @ user @ '' in organization '' @ og\<rparr>))
        else Some c))"

definition userKeyPerm :: "string \<Rightarrow> string option" where
  "userKeyPerm method = (if method = ''POST'' then Some ''create'' else itemPerm method)"

definition classifyUsers :: "string \<Rightarrow> string list \<Rightarrow> authzCheck option" where
  "classifyUsers method rest =
     (case rest of
        [] \<Rightarrow> (if isRead method then Some (superuserCheck ''read'')
               else if method = ''POST'' then Some (superuserCheck ''create'')
               else None)
      | [name] \<Rightarrow>
          (case itemPerm method of
             None \<Rightarrow> None
           | Some p \<Rightarrow> Some ((superuserCheck p)\<lparr>allowSelf := name\<rparr>))
      | name # sub # _ \<Rightarrow>
          if sub = ''_acl'' then Some ((check ''users'' name ''grant'')\<lparr>globalSpace := True, aclEndpoint := True\<rparr>)
          else if sub = ''keys'' then
            (case userKeyPerm method of
               None \<Rightarrow> None
             | Some p \<Rightarrow> Some ((superuserCheck p)\<lparr>allowSelf := name\<rparr>))
          else None)"

definition classifySubResource :: "string \<Rightarrow> string \<Rightarrow> string list \<Rightarrow> authzCheck option" where
  "classifySubResource method seg rest =
     (if length rest < 3 then None
      else
        (let name = rest ! 1; sub = rest ! 2;
             p = (if sub = ''keys'' then Some ''update''
                  else if seg = ''policies'' \<and> sub = ''revisions''
                    then Some (if method = ''DELETE'' then ''delete'' else ''update'')
                  else if seg = ''policy_groups'' \<and> sub = ''policies'' then Some ''update''
                  else None)
         in case p of
              None \<Rightarrow> None
            | Some q \<Rightarrow> Some (check seg name (if isRead method then ''read'' else q))))"

definition classifyGeneric :: "string \<Rightarrow> string \<Rightarrow> string list \<Rightarrow> bool \<Rightarrow> authzCheck option" where
  "classifyGeneric method seg rest readReq =
     (if length rest = 1 \<and> readReq then Some (check ''containers'' seg ''read'')
      else if length rest = 1 \<and> method = ''POST'' then Some (check ''containers'' seg ''create'')
      else if length rest = 2 then
        (let name = rest ! 1 in
         case itemPerm method of
           None \<Rightarrow> None
         | Some p \<Rightarrow>
             (let c = check seg name p in
              if seg \<in> set existenceSegs
              then Some (c\<lparr>existColl := seg, existKey := name, existMsg := ''Cannot find '' @ seg @ '' '' @ name\<rparr>)
              else Some c))
      else classifySubResource method seg rest)"

definition classifyCookbook :: "string \<Rightarrow> string \<Rightarrow> string list \<Rightarrow> bool \<Rightarrow> authzCheck option" where
  "classifyCookbook method seg rest readReq =
     (if length rest = 1 then (if readReq then Some (check ''containers'' seg ''read'') else None)
      else if length rest = 2 then
        (let name = rest ! 1 in
         if \<not> readReq then None
         else if hasPrefix name ''_'' then Some (check ''containers'' seg ''read'')
         else Some (check seg name ''read''))
      else if length rest = 3 then
        (case itemPerm method of None \<Rightarrow> None | Some p \<Rightarrow> Some (check seg (rest ! 1) p))
      else None)"

definition bagCheck :: "string \<Rightarrow> string \<Rightarrow> authzCheck" where
  "bagCheck bag p = (check ''data'' bag p)\<lparr>existColl := dataBagsColl, existKey := bag,
     existMsg := ''Cannot find data bag '' @ bag\<rparr>"

definition classifyDataBag :: "string \<Rightarrow> string list \<Rightarrow> bool \<Rightarrow> authzCheck option" where
  "classifyDataBag method rest readReq =
     (if length rest = 1 then
        (if readReq then Some (check ''containers'' ''data'' ''read'')
         else if method = ''POST'' then Some (check ''containers'' ''data'' ''create'')
         else None)
      else if length rest = 2 then
        (if isRead method then Some (bagCheck (rest ! 1) ''read'')
         else if method = ''POST'' then Some (bagCheck (rest ! 1) ''update'')
         else if method = ''DELETE'' then Some (bagCheck (rest ! 1) ''delete'')
         else None)
      else if length rest = 3 then
        (if isRead method then Some (bagCheck (rest ! 1) ''read'')
         else if method = ''PUT'' \<or> method = ''DELETE'' then Some (bagCheck (rest ! 1) ''update'')
         else None)
      else None)"

definition classifyAcl :: "string \<Rightarrow> string list \<Rightarrow> authzCheck option" where
  "classifyAcl og obj =
     (if length obj = 1 \<and> obj ! 0 = ''organizations'' then Some (check ''organizations'' og ''grant'')
      else if length obj = 2 then Some ((check (obj ! 0) (obj ! 1) ''grant'')\<lparr>aclEndpoint := True\<rparr>)
      else None)"

definition classifyOrg :: "string \<Rightarrow> string \<Rightarrow> authzCheck option" where
  "classifyOrg method og =
     (case itemPerm method of
        None \<Rightarrow> None
      | Some p \<Rightarrow>
          if method = ''PUT'' \<or> method = ''DELETE'' then Some (superuserCheck p)
          else Some (check ''organizations'' og p))"

text \<open>The dispatch of \<^verbatim>\<open>classifyRequest\<close> on the path's segments.\<close>

definition classifyParts :: "string \<Rightarrow> string list \<Rightarrow> authzCheck option" where
  "classifyParts method parts =
     (if length parts \<ge> 1 \<and> parts ! 0 = ''users'' then classifyUsers method (drop 1 parts)
      else if length parts = 1 \<and> parts ! 0 = ''organizations'' then
        (if method = ''POST'' then Some (superuserCheck ''create'') else None)
      else if length parts < 2 \<or> parts ! 0 \<noteq> ''organizations'' \<or> parts ! 1 = [] then None
      else
        (let og = parts ! 1; rest = drop 2 parts; readReq = isRead method in
         if ''_acl'' \<in> set rest then classifyAcl og (takeWhile (\<lambda>x. x \<noteq> ''_acl'') rest)
         else if rest = [] then classifyOrg method og
         else if rest ! 0 = ''data'' then classifyDataBag method rest readReq
         else if rest ! 0 = ''cookbooks'' \<or> rest ! 0 = ''cookbook_artifacts'' then classifyCookbook method (rest ! 0) rest readReq
         else if rest ! 0 = ''users'' \<or> rest ! 0 = ''association_requests'' then classifyOrgMembership method og rest
         else if rest ! 0 \<in> set enforceSegs then classifyGeneric method (rest ! 0) rest readReq
         else None))"

definition pathParts :: "string \<Rightarrow> string list" where
  "pathParts path = splitOn CHR ''/'' (trimSlash path)"

definition classifyRequest :: "string \<Rightarrow> string \<Rightarrow> authzCheck option" where
  "classifyRequest method path = classifyParts method (pathParts path)"

section \<open>Failing closed\<close>

definition mutatingMethod :: "string \<Rightarrow> bool" where
  "mutatingMethod method = (method \<in> {''POST'', ''PUT'', ''DELETE'', ''PATCH''})"

definition openWrites :: "(string \<times> string) list" where
  "openWrites =
     [(''POST'', ''/authenticate_user''),
      (''POST'', ''/organizations/{org}/sandboxes''),
      (''PUT'', ''/organizations/{org}/sandboxes/''),
      (''PUT'', ''/organizations/{org}/file_store/''),
      (''POST'', ''/organizations/{org}/search/''),
      (''PUT'', ''/users/{user}/association_requests/''),
      (''POST'', ''/organizations/{org}/environments/'')]"

definition isWildcard :: "string \<Rightarrow> bool" where
  "isWildcard seg = (hasPrefix seg ''{'' \<and> hasSuffix seg ''}'')"

definition coversParts :: "string \<Rightarrow> string list \<Rightarrow> bool" where
  "coversParts prefix aParts =
     (let pParts = pathParts prefix in
      if length aParts < length pParts then False
      else if \<not> list_all (\<lambda>(want, got). isWildcard want \<or> got = want) (zip pParts aParts) then False
      else if hasSuffix prefix ''/'' then True
      else length aParts = length pParts)"

definition matchesRoutePrefix :: "string \<Rightarrow> string \<Rightarrow> bool" where
  "matchesRoutePrefix prefix path = coversParts prefix (pathParts path)"

definition openWrite :: "string \<Rightarrow> string \<Rightarrow> bool" where
  "openWrite method path = list_ex (\<lambda>(m, prefix). m = method \<and> matchesRoutePrefix prefix path) openWrites"

definition refuseUnclassifiedWrite :: "(string \<Rightarrow> string \<Rightarrow> bool) \<Rightarrow> string \<Rightarrow> string \<Rightarrow> bool" where
  "refuseUnclassifiedWrite routeMatched method path =
     (if \<not> mutatingMethod method then False
      else if openWrite method path then False
      else routeMatched method path)"

section \<open>The route table\<close>

type_synonym route = "string \<times> string"

definition systemRoutes :: "route list" where
  "systemRoutes = [(''GET'', ''/_status'')]"

definition objectRoutes :: "string \<Rightarrow> route list" where
  "objectRoutes segment =
     (let base = ''/organizations/{org}/'' @ segment in
      [(''GET'', base), (''POST'', base), (''GET'', base @ ''/{name}''), (''PUT'', base @ ''/{name}''),
       (''DELETE'', base @ ''/{name}''), (''HEAD'', base @ ''/{name}'')])"

definition environmentRoutes :: "route list" where
  "environmentRoutes = objectRoutes ''environments'' @
     [(''PUT'', ''/organizations/{org}/environments/_default''), (''DELETE'', ''/organizations/{org}/environments/_default'')]"

definition environmentSubRoutes :: "route list" where
  "environmentSubRoutes =
     (let e = ''/organizations/{org}/environments/{env}''; r = ''/organizations/{org}/roles/{role}'' in
      [(''GET'', e @ ''/cookbooks''), (''GET'', e @ ''/cookbooks/{name}''), (''POST'', e @ ''/cookbook_versions''),
       (''GET'', e @ ''/recipes''), (''GET'', e @ ''/nodes''), (''GET'', e @ ''/roles/{role}''),
       (''GET'', r @ ''/environments''), (''GET'', r @ ''/environments/{env}'')])"

definition actorRoutes :: "string \<Rightarrow> string \<Rightarrow> route list" where
  "actorRoutes prefix segment =
     (let base = prefix @ segment in
      [(''GET'', base), (''POST'', base), (''GET'', base @ ''/{name}''), (''PUT'', base @ ''/{name}''), (''DELETE'', base @ ''/{name}'')])"

definition keyRoutes :: "string \<Rightarrow> string \<Rightarrow> route list" where
  "keyRoutes prefix segment =
     (let base = prefix @ segment @ ''/{name}/keys'' in
      [(''GET'', base), (''POST'', base), (''GET'', base @ ''/{key}''), (''PUT'', base @ ''/{key}''), (''DELETE'', base @ ''/{key}'')])"

definition dataBagRoutes :: "route list" where
  "dataBagRoutes =
     (let base = ''/organizations/{org}/data'' in
      [(''GET'', base), (''POST'', base), (''GET'', base @ ''/{bag}''), (''POST'', base @ ''/{bag}''), (''DELETE'', base @ ''/{bag}''),
       (''GET'', base @ ''/{bag}/{item}''), (''PUT'', base @ ''/{bag}/{item}''), (''DELETE'', base @ ''/{bag}/{item}'')])"

definition fileStoreRoutes :: "route list" where
  "fileStoreRoutes =
     (let base = ''/organizations/{org}/file_store/{checksum}'' in [(''PUT'', base), (''GET'', base)])"

definition sandboxRoutes :: "route list" where
  "sandboxRoutes = [(''POST'', ''/organizations/{org}/sandboxes''), (''PUT'', ''/organizations/{org}/sandboxes/{id}'')]"

definition cookbookRoutes :: "route list" where
  "cookbookRoutes = fileStoreRoutes @ sandboxRoutes @
     (let base = ''/organizations/{org}/cookbooks'' in
      [(''GET'', base), (''GET'', base @ ''/_latest''), (''GET'', base @ ''/_recipes''), (''GET'', base @ ''/{name}''),
       (''GET'', base @ ''/{name}/{version}''), (''PUT'', base @ ''/{name}/{version}''), (''DELETE'', base @ ''/{name}/{version}''),
       (''GET'', ''/organizations/{org}/universe'')])"

definition cookbookArtifactRoutes :: "route list" where
  "cookbookArtifactRoutes =
     (let base = ''/organizations/{org}/cookbook_artifacts'' in
      [(''GET'', base), (''GET'', base @ ''/{name}''), (''GET'', base @ ''/{name}/{identifier}''),
       (''PUT'', base @ ''/{name}/{identifier}''), (''DELETE'', base @ ''/{name}/{identifier}'')])"

definition searchRoutes :: "route list" where
  "searchRoutes = [(''GET'', ''/organizations/{org}/search''), (''GET'', ''/organizations/{org}/search/{index}''),
     (''POST'', ''/organizations/{org}/search/{index}'')]"

definition aclObjectTypes :: "string list" where
  "aclObjectTypes = [''clients'', ''containers'', ''cookbooks'', ''cookbook_artifacts'', ''data'',
     ''environments'', ''groups'', ''nodes'', ''policies'', ''policy_groups'', ''roles'']"

definition aclRoutes :: "route list" where
  "aclRoutes =
     concat (map (\<lambda>typ. let base = ''/organizations/{org}/'' @ typ @ ''/{name}/_acl'' in
       [(''GET'', base), (''GET'', base @ ''/{perm}''), (''PUT'', base @ ''/{perm}'')]) aclObjectTypes) @
     [(''GET'', ''/organizations/{org}/organizations/_acl''), (''GET'', ''/organizations/{org}/organizations/_acl/{perm}''),
      (''PUT'', ''/organizations/{org}/organizations/_acl/{perm}''),
      (''GET'', ''/users/{name}/_acl''), (''GET'', ''/users/{name}/_acl/{perm}''), (''PUT'', ''/users/{name}/_acl/{perm}'')]"

definition authenticateRoutes :: "route list" where
  "authenticateRoutes = [(''POST'', ''/authenticate_user'')]"

definition associationRoutes :: "route list" where
  "associationRoutes =
     [(''GET'', ''/organizations/{org}/users''), (''POST'', ''/organizations/{org}/users''),
      (''GET'', ''/organizations/{org}/users/{user}''), (''DELETE'', ''/organizations/{org}/users/{user}''),
      (''GET'', ''/users/{user}/organizations'')]"

definition associationRequestRoutes :: "route list" where
  "associationRequestRoutes =
     [(''GET'', ''/organizations/{org}/association_requests''), (''POST'', ''/organizations/{org}/association_requests''),
      (''DELETE'', ''/organizations/{org}/association_requests/{id}''), (''GET'', ''/users/{user}/association_requests''),
      (''GET'', ''/users/{user}/association_requests/count''), (''PUT'', ''/users/{user}/association_requests/{id}'')]"

definition policyRoutes :: "route list" where
  "policyRoutes =
     (let o' = ''/organizations/{org}'' in
      [(''GET'', o' @ ''/policies''), (''GET'', o' @ ''/policies/{name}''), (''DELETE'', o' @ ''/policies/{name}''),
       (''GET'', o' @ ''/policies/{name}/revisions/{rev}''), (''POST'', o' @ ''/policies/{name}/revisions''),
       (''DELETE'', o' @ ''/policies/{name}/revisions/{rev}''), (''GET'', o' @ ''/policy_groups''),
       (''GET'', o' @ ''/policy_groups/{group}''), (''DELETE'', o' @ ''/policy_groups/{group}''),
       (''GET'', o' @ ''/policy_groups/{group}/policies/{policy}''), (''PUT'', o' @ ''/policy_groups/{group}/policies/{policy}''),
       (''DELETE'', o' @ ''/policy_groups/{group}/policies/{policy}'')])"

definition organizationRoutes :: "route list" where
  "organizationRoutes =
     [(''GET'', ''/organizations''), (''POST'', ''/organizations''), (''GET'', ''/organizations/{org}''),
      (''PUT'', ''/organizations/{org}''), (''DELETE'', ''/organizations/{org}'')]"

definition authzRoutes :: "route list" where
  "authzRoutes =
     (let groups = ''/organizations/{org}/groups''; base = ''/organizations/{org}/containers'' in
      [(''GET'', groups), (''POST'', groups), (''GET'', groups @ ''/{name}''), (''PUT'', groups @ ''/{name}''),
       (''DELETE'', groups @ ''/{name}''), (''HEAD'', groups @ ''/{name}''), (''GET'', base), (''GET'', base @ ''/{name}''),
       (''POST'', base), (''DELETE'', base @ ''/{name}'')])"

definition serverEndpoints :: "route list" where
  "serverEndpoints = [(''GET'', ''/_stats''), (''GET'', ''/license''), (''GET'', ''/server_api_version''),
     (''GET'', ''/organizations/{org}/required_recipe''), (''GET'', ''/organizations/{org}/principals/{name}'')]"

definition allRoutes :: "route list" where
  "allRoutes = systemRoutes @ objectRoutes ''nodes'' @ objectRoutes ''roles'' @ environmentRoutes @ environmentSubRoutes @
     actorRoutes ''/organizations/{org}/'' ''clients'' @ actorRoutes ''/'' ''users'' @
     keyRoutes ''/organizations/{org}/'' ''clients'' @ keyRoutes ''/'' ''users'' @ dataBagRoutes @ cookbookRoutes @
     cookbookArtifactRoutes @ searchRoutes @ aclRoutes @ authenticateRoutes @ associationRoutes @ associationRequestRoutes @
     policyRoutes @ organizationRoutes @ authzRoutes @ serverEndpoints"

definition matchesPattern :: "string list \<Rightarrow> string list \<Rightarrow> bool" where
  "matchesPattern pat parts = list_all2 (\<lambda>want got. if isWildcard want then got \<noteq> [] else got = want) pat parts"

definition routeMatched :: "string \<Rightarrow> string \<Rightarrow> bool" where
  "routeMatched method path = list_ex (\<lambda>(m, pattern).
     (m = method \<or> m = ''GET'' \<and> method = ''HEAD'') \<and> matchesPattern (pathParts pattern) (pathParts path)) allRoutes"

section \<open>The decision\<close>

datatype verdict = Proceed request | Deny response

definition deny :: "nat \<Rightarrow> string list \<Rightarrow> body store \<Rightarrow> verdict \<times> body store" where
  "deny code msgs s = (Deny (Reply code (errorBody msgs)), s)"

definition denyFailure :: "serr \<Rightarrow> body store \<Rightarrow> verdict \<times> body store" where
  "denyFailure e s = (Deny (Failure e), s)"

definition proceed :: "request \<Rightarrow> body store \<Rightarrow> verdict \<times> body store" where
  "proceed r s = (Proceed r, s)"

text \<open>The last step: the ACL endpoint's object must exist, then the permission must be held.\<close>

definition decideAllowed :: "(string \<Rightarrow> Actor \<Rightarrow> string \<Rightarrow> string \<Rightarrow> string \<Rightarrow> (body store, serr, bool) act) \<Rightarrow>
    Actor \<Rightarrow> authzCheck \<Rightarrow> string \<Rightarrow> request \<Rightarrow> body store \<Rightarrow> verdict \<times> body store" where
  "decideAllowed allowed actor c og r =
     (let decide = tryE (allowed og actor (aclType c) (aclName c) (perm c)) denyFailure (\<lambda>ok.
            if \<not> ok then deny 403 [''missing '' @ perm c @ '' permission''] else proceed r)
      in if aclEndpoint c then
           tryE (aclObjectExists og (aclType c) (aclName c)) denyFailure (\<lambda>ok.
             if \<not> ok then deny 404 [''Cannot find '' @ aclType c @ '' '' @ aclName c] else decide)
         else decide)"

definition decideInOrg :: "(string \<Rightarrow> Actor \<Rightarrow> string \<Rightarrow> string \<Rightarrow> string \<Rightarrow> (body store, serr, bool) act) \<Rightarrow>
    Actor \<Rightarrow> authzCheck \<Rightarrow> string \<Rightarrow> request \<Rightarrow> body store \<Rightarrow> verdict \<times> body store" where
  "decideInOrg allowed actor c og r =
     (if existColl c \<noteq> [] then
        tryE (org_Get og (existColl c) (existKey c)) denyFailure (\<lambda>raw.
          case raw of
            None \<Rightarrow> deny 404 [existMsg c]
          | Some b \<Rightarrow> decideAllowed allowed actor c og (withPreread og (existColl c) (existKey c) b r))
      else decideAllowed allowed actor c og r)"

definition authorize :: "(string \<Rightarrow> Actor \<Rightarrow> string \<Rightarrow> string \<Rightarrow> string \<Rightarrow> (body store, serr, bool) act) \<Rightarrow>
    request \<Rightarrow> body store \<Rightarrow> verdict \<times> body store" where
  "authorize allowed r =
     (case rq_actor r of
        None \<Rightarrow> proceed r
      | Some actor \<Rightarrow>
          if a_IsGlobalAdmin actor then proceed r
          else (case classifyRequest (rq_Method r) (rq_Path r) of
              None \<Rightarrow>
                if refuseUnclassifiedWrite routeMatched (rq_Method r) (rq_Path r)
                then deny 403 [''missing permission''] else proceed r
            | Some c \<Rightarrow>
                if allowSelf c \<noteq> [] \<and> a_Name actor = allowSelf c then proceed r
                else if superuserOnly c then deny 403 [''missing '' @ perm c @ '' permission'']
                else if globalSpace c then decideInOrg allowed actor c [] r
                else
                  (let og = pathParts (rq_Path r) ! 1 in
                   tryE (store_Org og) denyFailure (\<lambda>ok.
                     if \<not> ok then proceed r else decideInOrg allowed actor c og r))))"

section \<open>What the decision rests on\<close>

definition aclObjectIn :: "body mirror \<Rightarrow> string \<Rightarrow> string \<Rightarrow> string \<Rightarrow> bool" where
  "aclObjectIn M og typ name =
     (if typ = ''organizations'' then True
      else if typ = ''data'' then M og dataBagsColl name \<noteq> None
      else if typ = ''cookbooks'' \<or> typ = ''cookbook_artifacts''
        then \<exists>key v. M og typ key \<noteq> None \<and> cutAt ''/'' key = Some (name, v)
      else if typ = ''policies'' then \<exists>rev. M og (policyRevColl name) rev \<noteq> None
      else M og typ name \<noteq> None)"

lemma wp_aclObjectExists:
  "wpE (aclObjectExists og typ name) (\<lambda>b s'. same s s' \<and> b = aclObjectIn (stored s) og typ name)
     (\<lambda>e s'. same s s' \<and> e = ErrBackend) s"
proof -
  have versions: "list_ex (\<lambda>key. case cutAt ''/'' key of None \<Rightarrow> False | Some (cb, _) \<Rightarrow> cb = name) (map fst (coll_of (backend s) og c)) =
      (\<exists>key v. stored s og c key \<noteq> None \<and> cutAt ''/'' key = Some (name, v))" for c
  proof -
    have "k \<in> fst ` set (coll_of (backend s) og c) \<longleftrightarrow> stored s og c k \<noteq> None" for k
      using set_keys_kv[of "backend s" og c] by auto
    then have "list_ex P (map fst (coll_of (backend s) og c)) = (\<exists>key. stored s og c key \<noteq> None \<and> P key)" for P
      by (simp add: list_ex_iff) (metis (no_types) imageE image_eqI option.distinct(1) not_None_eq)
    then show ?thesis by (fastforce split: option.splits prod.splits)
  qed
  have revs: "sort (map fst (coll_of (backend s) og c)) \<noteq> [] \<longleftrightarrow> (\<exists>rev. stored s og c rev \<noteq> None)" for c
    using set_keys_kv[of "backend s" og c] by (auto simp: set_empty[symmetric] simp del: set_empty)
  have get: "wpE (bindE (org_Get og c k) (\<lambda>raw. ret (raw \<noteq> None))) (\<lambda>b s'. same s s' \<and> b = (stored s og c k \<noteq> None))
      (\<lambda>e s'. same s s' \<and> e = ErrBackend) s" for c k
    unfolding wp by (rule wp_Get) simp_all
  have version: "wpE (hasVersion og c name) (\<lambda>b s'. same s s' \<and> b = (\<exists>key v. stored s og c key \<noteq> None \<and> cutAt ''/'' key = Some (name, v)))
      (\<lambda>e s'. same s s' \<and> e = ErrBackend) s" for c
    unfolding hasVersion_def wp by (rule wp_Range) (simp_all only: versions simp_thms)
  have rev: "wpE (bindE (org_Keys og c) (\<lambda>ks. ret (ks \<noteq> []))) (\<lambda>b s'. same s s' \<and> b = (\<exists>rev. stored s og c rev \<noteq> None))
      (\<lambda>e s'. same s s' \<and> e = ErrBackend) s" for c
    unfolding wp by (rule wp_Keys) (simp_all only: revs simp_thms)
  show ?thesis
    unfolding aclObjectExists_def aclObjectIn_def
    by (cases "typ = ''organizations''"; cases "typ = ''data''"; cases "typ = ''cookbooks'' \<or> typ = ''cookbook_artifacts''"; cases "typ = ''policies''")
      (simp_all only: if_True if_False get version rev wpE_ret simp_thms same_refl)
qed

definition selfService :: "authzCheck \<Rightarrow> Actor \<Rightarrow> bool" where
  "selfService c actor = (allowSelf c \<noteq> [] \<and> a_Name actor = allowSelf c)"

definition objectPresent :: "body mirror \<Rightarrow> string \<Rightarrow> authzCheck \<Rightarrow> bool" where
  "objectPresent M og c = ((existColl c \<noteq> [] \<longrightarrow> M og (existColl c) (existKey c) \<noteq> None) \<and>
     (aclEndpoint c \<longrightarrow> aclObjectIn M og (aclType c) (aclName c)))"

text \<open>The verdicts that a check allows, for an actor that is not the superuser.\<close>

definition soundVerdict :: "body mirror \<Rightarrow> string \<Rightarrow> Actor \<Rightarrow> authzCheck \<Rightarrow> verdict \<Rightarrow> bool" where
  "soundVerdict M og actor c v = (case v of
     Proceed _ \<Rightarrow> objectPresent M og c \<and> holds M og actor (aclType c) (aclName c) (perm c)
   | Deny (Reply code _) \<Rightarrow>
       code = 404 \<and> \<not> objectPresent M og c \<or>
       code = 403 \<and> objectPresent M og c \<and> \<not> holds M og actor (aclType c) (aclName c) (perm c)
   | Deny (Failure e) \<Rightarrow> e = ErrBackend
   | Deny _ \<Rightarrow> False)"

lemma soundVerdict_simps:
  "soundVerdict M og actor c (Proceed r) = (objectPresent M og c \<and> holds M og actor (aclType c) (aclName c) (perm c))"
  "soundVerdict M og actor c (Deny (Failure e)) = (e = ErrBackend)"
  "soundVerdict M og actor c (Deny (Reply 404 m)) = (\<not> objectPresent M og c)"
  "soundVerdict M og actor c (Deny (Reply 403 m)) =
     (objectPresent M og c \<and> \<not> holds M og actor (aclType c) (aclName c) (perm c))"
  by (simp_all add: soundVerdict_def)

lemma wpH_verdicts [wp]:
  "wpH (deny code msgs) Q = Q (Deny (Reply code (errorBody msgs)))"
  "wpH (denyFailure e) Q = Q (Deny (Failure e))"
  "wpH (proceed r) Q = Q (Proceed r)"
  by (rule ext, simp add: wpH_def deny_def denyFailure_def proceed_def)+

context group_resolver
begin

lemma decideAllowed_sound:
  assumes "ready s" and present: "existColl c \<noteq> [] \<Longrightarrow> stored s og (existColl c) (existKey c) \<noteq> None"
  shows "wpH (decideAllowed (allowedWith groupsOf) actor c og r) (\<lambda>v s'. same s s' \<and> soundVerdict (stored s) og actor c v) s"
proof -
  define D where "D = tryE (allowedWith groupsOf og actor (aclType c) (aclName c) (perm c)) denyFailure (\<lambda>ok.
      if \<not> ok then deny 403 [''missing '' @ perm c @ '' permission''] else proceed r)"
  have dec: "wpH D (\<lambda>v s'. same s s' \<and> soundVerdict (stored s) og actor c v) s1"
    if s1: "same s s1" and obj: "objectPresent (stored s) og c" for s1
    unfolding D_def wpH_tryE
    by (rule wpE_mono[OF allowedWith_holds[OF ready_same[OF assms(1) s1]]])
      (use obj s1 in \<open>auto simp: wp soundVerdict_simps stored_same dest: same_trans\<close>)
  show ?thesis
  proof (cases "aclEndpoint c")
    case True
    show ?thesis
      unfolding decideAllowed_def Let_def D_def[symmetric] if_P[OF True] wpH_tryE
      by (rule wpE_mono[OF wp_aclObjectExists])
        (use present True in \<open>auto simp: wp soundVerdict_simps objectPresent_def intro!: dec\<close>)
  next
    case False
    then show ?thesis
      unfolding decideAllowed_def Let_def D_def[symmetric] using present dec[OF same_refl] by (simp add: objectPresent_def)
  qed
qed

lemma decideInOrg_sound:
  assumes "ready s"
  shows "wpH (decideInOrg (allowedWith groupsOf) actor c og r) (\<lambda>v s'. same s s' \<and> soundVerdict (stored s) og actor c v) s"
proof (cases "existColl c = []")
  case True
  then show ?thesis unfolding decideInOrg_def using decideAllowed_sound[OF assms, of c og] by simp
next
  case False
  have go: "wpH (decideAllowed (allowedWith groupsOf) actor c og r') (\<lambda>v s'. same s s' \<and> soundVerdict (stored s) og actor c v) s1"
    if s1: "same s s1" and p: "stored s og (existColl c) (existKey c) \<noteq> None" for s1 r'
    by (rule wpH_mono[OF decideAllowed_sound[OF ready_same[OF assms s1]]])
      (use p s1 in \<open>auto simp: stored_same dest: same_trans\<close>)
  show ?thesis
    unfolding decideInOrg_def using False
    by (auto simp: wp soundVerdict_simps objectPresent_def split: option.split intro!: wp_Get go)
qed

lemma authorize_sound:
  assumes "ready s" and actor: "rq_actor r = Some actor" "\<not> a_IsGlobalAdmin actor"
    and cls: "classifyRequest (rq_Method r) (rq_Path r) = Some c"
    and og: "og = (if globalSpace c then [] else pathParts (rq_Path r) ! 1)"
  shows "wpH (authorize (allowedWith groupsOf) r) (\<lambda>v s'. same s s' \<and>
     (if selfService c actor then v = Proceed r
      else if superuserOnly c then \<exists>m. v = Deny (Reply 403 m)
      else if \<not> globalSpace c \<and> og \<notin> set (orgs (backend s)) then v = Proceed r \<or> v = Deny (Failure ErrBackend)
      else soundVerdict (stored s) og actor c v)) s"
proof -
  have inOrg: "wpH (decideInOrg (allowedWith groupsOf) actor c og' r) (\<lambda>v s'. same s s' \<and> soundVerdict (stored s) og' actor c v) s1"
    if s1: "same s s1" for s1 og'
    by (rule wpH_mono[OF decideInOrg_sound[OF ready_same[OF assms(1) s1]]])
      (use s1 in \<open>auto simp: stored_same dest: same_trans\<close>)
  show ?thesis
    unfolding authorize_def
    using og by (auto simp: actor cls wp selfService_def Let_def inOrg soundVerdict_simps
        intro!: wp_Org inOrg)
qed

end


section \<open>Properties\<close>

text \<open>C1. Enforcement is sound and complete for classified requests. For an actor that is neither the superuser
  nor acting on itself, a request that is classified, and whose organization exists, goes on to its
  handler only when the object it is about is there and the actor holds the permission on it; it is
  answered 404 only when the object is missing and 403 only when the permission is; any other
  answer is a backend failure. The check of a request writes nothing.\<close>

theorem authorize_enforces:
  assumes "wf_backend (backend s)"
    and "\<forall>og. groupsFresh og (groupsGen s) (kv (backend s)) cache"
    and "rq_actor r = Some actor" and "\<not> a_IsGlobalAdmin actor"
    and "classifyRequest (rq_Method r) (rq_Path r) = Some c" and "\<not> superuserOnly c" and "\<not> selfService c actor"
    and "og = (if globalSpace c then [] else pathParts (rq_Path r) ! 1)"
    and "globalSpace c \<or> og \<in> set (orgs (backend s))"
  shows "wpH (authorize (API_actorAllowed cache) r)
    (\<lambda>v s'. backend s' = backend s \<and> soundVerdict (kv (backend s)) og actor c v) s"
proof -
  have "wpH (authorize (allowedWith (cachedGroupsOf cache)) r) (\<lambda>v s'. same s s' \<and>
     (if selfService c actor then v = Proceed r
      else if superuserOnly c then \<exists>m. v = Deny (Reply 403 m)
      else if \<not> globalSpace c \<and> og \<notin> set (orgs (backend s)) then v = Proceed r \<or> v = Deny (Failure ErrBackend)
      else soundVerdict (stored s) og actor c v)) s"
    using assms by (intro cached.authorize_sound) auto
  from wpH_mono[OF this] show ?thesis
    unfolding API_actorAllowed_def using assms(6,7,9) by (auto simp: same_def elim!: wpH_mono)
qed

definition exampleActor :: Actor where
  "exampleActor = \<lparr>a_Name = ''pat'', a_IsClient = False, a_IsGlobalAdmin = False, a_ViaWebUI = False\<rparr>"

definition exampleRequest :: "string \<Rightarrow> string \<Rightarrow> request" where
  "exampleRequest method path = \<lparr>rq_Method = method, rq_Path = path, rq_body = Bytes [], rq_actor = Some exampleActor,
     rq_base = [], rq_preread = None, rq_apiVersion = [], rq_query = []\<rparr>"

theorem authorize_enforces_witness:
  "\<exists>c. classifyRequest ''PUT'' ''/organizations/o/nodes/n'' = Some c \<and> perm c = ''update'' \<and>
     wpH (authorize (API_actorAllowed []) (exampleRequest ''PUT'' ''/organizations/o/nodes/n''))
       (\<lambda>v s'. backend s' = NewMemoryBackend\<lparr>orgs := [''o'']\<rparr> \<and>
          soundVerdict (kv (NewMemoryBackend\<lparr>orgs := [''o'']\<rparr>)) ''o'' exampleActor c v)
       (NewWithBackend (NewMemoryBackend\<lparr>orgs := [''o'']\<rparr>))"
proof -
  let ?s = "NewWithBackend (NewMemoryBackend\<lparr>orgs := [''o'']\<rparr>) :: body store"
  have c: "classifyRequest ''PUT'' ''/organizations/o/nodes/n'' = Some (the (classifyRequest ''PUT'' ''/organizations/o/nodes/n''))"
    "perm (the (classifyRequest ''PUT'' ''/organizations/o/nodes/n'')) = ''update''"
    "\<not> superuserOnly (the (classifyRequest ''PUT'' ''/organizations/o/nodes/n''))"
    "\<not> selfService (the (classifyRequest ''PUT'' ''/organizations/o/nodes/n'')) exampleActor"
    "\<not> globalSpace (the (classifyRequest ''PUT'' ''/organizations/o/nodes/n''))"
    "pathParts ''/organizations/o/nodes/n'' ! 1 = ''o''"
    by code_simp+
  have "wf_backend (NewMemoryBackend\<lparr>orgs := [''o'']\<rparr> :: body backend)"
    by (simp add: wf_backend_def NewMemoryBackend_def)
  then have "wpH (authorize (API_actorAllowed []) (exampleRequest ''PUT'' ''/organizations/o/nodes/n''))
       (\<lambda>v s'. backend s' = backend ?s \<and> soundVerdict (kv (backend ?s)) ''o'' exampleActor
          (the (classifyRequest ''PUT'' ''/organizations/o/nodes/n'')) v) ?s"
    by (intro authorize_enforces[OF _ _ _ _ _ c(3,4)])
      (use c(1,5,6) in \<open>simp_all only: exampleRequest_def request.simps if_False\<close>,
       simp_all add: NewWithBackend_def groupsFresh_def exampleActor_def)
  moreover have "backend ?s = NewMemoryBackend\<lparr>orgs := [''o'']\<rparr>" by (simp add: NewWithBackend_def)
  ultimately show ?thesis using c(1,2) by metis
qed



text \<open>C40. The exemption that lets a user leave an organization compares names only. An API client of the
  organization that bears the name of a user passes the check for removing that user, although it
  is a different actor and may hold no permission at all (here: no permission check ever succeeds).\<close>

theorem client_namesake_removes_user:
  assumes "a_IsClient client"
    and "pathParts (rq_Path r) = [''organizations'', og, ''users'', a_Name client]" and "a_Name client \<notin> {[], ''_acl''}" and "og \<noteq> []"
    and "rq_Method r = ''DELETE''" and "rq_actor r = Some client"
  shows "authorize (\<lambda>_ _ _ _ _. ret False) r s = (Proceed r, s)"
proof -
  have "\<exists>c. classifyRequest (rq_Method r) (rq_Path r) = Some c \<and> allowSelf c = a_Name client"
    using assms(2-5) by (auto simp: classifyRequest_def classifyParts_def classifyOrg_def classifyOrgMembership_def Let_def check_def)
  then show ?thesis using assms(3,6) by (auto simp: authorize_def proceed_def)
qed

theorem client_namesake_removes_user_witness:
  "authorize (\<lambda>_ _ _ _ _. ret False)
     ((exampleRequest ''DELETE'' ''/organizations/o/users/pat'')\<lparr>rq_actor := Some (exampleActor\<lparr>a_IsClient := True\<rparr>)\<rparr>)
     (NewWithBackend NewMemoryBackend) =
   (Proceed ((exampleRequest ''DELETE'' ''/organizations/o/users/pat'')\<lparr>rq_actor := Some (exampleActor\<lparr>a_IsClient := True\<rparr>)\<rparr>),
     NewWithBackend NewMemoryBackend)"
  by (rule client_namesake_removes_user[of "exampleActor\<lparr>a_IsClient := True\<rparr>" _ "''o''"])
    (simp_all add: exampleRequest_def exampleActor_def pathParts_def trimSlash_def trimRightSlash_def)

end
