(* ===== verification/Route_Governance.thy ===== *)
theory Route_Governance
  imports Request_Authz
begin

text \<open>No mutating route is left open by omission: every registered route with a mutating method is
  classified, or declared open, for every way of filling in its wildcards
  (\<^verbatim>\<open>src/internal/api/failclosed.go\<close> over the registrations of all handlers).\<close>

section \<open>Paths\<close>

definition plainSeg :: "string \<Rightarrow> bool" where
  "plainSeg seg = (seg \<noteq> [] \<and> CHR ''/'' \<notin> set seg)"

definition pathOf :: "string list \<Rightarrow> string" where
  "pathOf segs = ''/'' @ joinWith ''/'' segs"

lemma joinWith_ends:
  "segs \<noteq> [] \<Longrightarrow> list_all plainSeg segs \<Longrightarrow>
   joinWith ''/'' segs \<noteq> [] \<and> hd (joinWith ''/'' segs) \<noteq> CHR ''/'' \<and> last (joinWith ''/'' segs) \<noteq> CHR ''/''"
proof (induction "''/''" segs rule: joinWith.induct)
  case (2 w)
  then show ?case by (auto simp: plainSeg_def) (metis list.set_sel(1), metis last_in_set)
next
  case (3 w v ws)
  then show ?case by (auto simp: plainSeg_def) (metis list.set_sel(1) hd_append2)+
qed simp

lemma trimRightSlash_last: "p \<noteq> [] \<Longrightarrow> last p \<noteq> CHR ''/'' \<Longrightarrow> trimRightSlash p = p"
  by (cases p rule: rev_cases) (simp_all add: trimRightSlash_def)

lemma pathParts_pathOf:
  assumes "segs \<noteq> []" "list_all plainSeg segs"
  shows "pathParts (pathOf segs) = segs"
proof -
  let ?j = "joinWith ''/'' segs"
  have j: "?j \<noteq> []" "hd ?j \<noteq> CHR ''/''" "last ?j \<noteq> CHR ''/''" using joinWith_ends[OF assms] by auto
  then have "trimRightSlash (pathOf segs) = pathOf segs"
    by (intro trimRightSlash_last) (auto simp: pathOf_def)
  then have "trimSlash (pathOf segs) = ?j"
    using j by (cases ?j) (auto simp: trimSlash_def pathOf_def)
  then show ?thesis
    using assms splitOn_joinWith[of segs "CHR ''/''"] by (simp add: pathParts_def list_all_iff plainSeg_def)
qed

section \<open>Every mutating route is governed\<close>

text \<open>A concrete path of a pattern: the wildcards filled in by plain segments, none of them the
  reserved name \<open>_acl\<close>.\<close>

definition shapeOf :: "string \<Rightarrow> string option list" where
  "shapeOf pattern = map (\<lambda>seg. if isWildcard seg then None else Some seg) (pathParts pattern)"

definition instanceOf :: "string option list \<Rightarrow> string list \<Rightarrow> bool" where
  "instanceOf shape segs = list_all2 (\<lambda>want got. case want of
     None \<Rightarrow> plainSeg got \<and> got \<noteq> ''_acl'' | Some lit \<Rightarrow> got = lit) shape segs"

definition governed :: "string \<Rightarrow> string list \<Rightarrow> bool" where
  "governed method segs = (classifyParts method segs \<noteq> None \<or>
     list_ex (\<lambda>(m, prefix). m = method \<and> coversParts prefix segs) openWrites)"

lemma governed_openWrite:
  "segs \<noteq> [] \<Longrightarrow> list_all plainSeg segs \<Longrightarrow>
   governed method segs = (classifyRequest method (pathOf segs) \<noteq> None \<or> openWrite method (pathOf segs))"
  unfolding governed_def classifyRequest_def openWrite_def matchesRoutePrefix_def
  by (simp add: pathParts_pathOf)

definition mutatingShapes :: "(string \<times> string option list) list" where
  "mutatingShapes = map (\<lambda>(m, p). (m, shapeOf p)) (filter (\<lambda>(m, _). mutatingMethod m) allRoutes)"

lemma mutatingShapes_eq:
  "mutatingShapes =
    [(''POST'', [Some ''organizations'', None, Some ''nodes'']),
     (''PUT'', [Some ''organizations'', None, Some ''nodes'', None]),
     (''DELETE'', [Some ''organizations'', None, Some ''nodes'', None]),
     (''POST'', [Some ''organizations'', None, Some ''roles'']),
     (''PUT'', [Some ''organizations'', None, Some ''roles'', None]),
     (''DELETE'', [Some ''organizations'', None, Some ''roles'', None]),
     (''POST'', [Some ''organizations'', None, Some ''environments'']),
     (''PUT'', [Some ''organizations'', None, Some ''environments'', None]),
     (''DELETE'', [Some ''organizations'', None, Some ''environments'', None]),
     (''PUT'', [Some ''organizations'', None, Some ''environments'', Some ''_default'']),
     (''DELETE'', [Some ''organizations'', None, Some ''environments'', Some ''_default'']),
     (''POST'', [Some ''organizations'', None, Some ''environments'', None, Some ''cookbook_versions'']),
     (''POST'', [Some ''organizations'', None, Some ''clients'']),
     (''PUT'', [Some ''organizations'', None, Some ''clients'', None]),
     (''DELETE'', [Some ''organizations'', None, Some ''clients'', None]), (''POST'', [Some ''users'']),
     (''PUT'', [Some ''users'', None]), (''DELETE'', [Some ''users'', None]),
     (''POST'', [Some ''organizations'', None, Some ''clients'', None, Some ''keys'']),
     (''PUT'', [Some ''organizations'', None, Some ''clients'', None, Some ''keys'', None]),
     (''DELETE'', [Some ''organizations'', None, Some ''clients'', None, Some ''keys'', None]),
     (''POST'', [Some ''users'', None, Some ''keys'']), (''PUT'', [Some ''users'', None, Some ''keys'', None]),
     (''DELETE'', [Some ''users'', None, Some ''keys'', None]), (''POST'', [Some ''organizations'', None, Some ''data'']),
     (''POST'', [Some ''organizations'', None, Some ''data'', None]),
     (''DELETE'', [Some ''organizations'', None, Some ''data'', None]),
     (''PUT'', [Some ''organizations'', None, Some ''data'', None, None]),
     (''DELETE'', [Some ''organizations'', None, Some ''data'', None, None]),
     (''PUT'', [Some ''organizations'', None, Some ''file_store'', None]),
     (''POST'', [Some ''organizations'', None, Some ''sandboxes'']),
     (''PUT'', [Some ''organizations'', None, Some ''sandboxes'', None]),
     (''PUT'', [Some ''organizations'', None, Some ''cookbooks'', None, None]),
     (''DELETE'', [Some ''organizations'', None, Some ''cookbooks'', None, None]),
     (''PUT'', [Some ''organizations'', None, Some ''cookbook_artifacts'', None, None]),
     (''DELETE'', [Some ''organizations'', None, Some ''cookbook_artifacts'', None, None]),
     (''POST'', [Some ''organizations'', None, Some ''search'', None]),
     (''PUT'', [Some ''organizations'', None, Some ''clients'', None, Some ''_acl'', None]),
     (''PUT'', [Some ''organizations'', None, Some ''containers'', None, Some ''_acl'', None]),
     (''PUT'', [Some ''organizations'', None, Some ''cookbooks'', None, Some ''_acl'', None]),
     (''PUT'', [Some ''organizations'', None, Some ''cookbook_artifacts'', None, Some ''_acl'', None]),
     (''PUT'', [Some ''organizations'', None, Some ''data'', None, Some ''_acl'', None]),
     (''PUT'', [Some ''organizations'', None, Some ''environments'', None, Some ''_acl'', None]),
     (''PUT'', [Some ''organizations'', None, Some ''groups'', None, Some ''_acl'', None]),
     (''PUT'', [Some ''organizations'', None, Some ''nodes'', None, Some ''_acl'', None]),
     (''PUT'', [Some ''organizations'', None, Some ''policies'', None, Some ''_acl'', None]),
     (''PUT'', [Some ''organizations'', None, Some ''policy_groups'', None, Some ''_acl'', None]),
     (''PUT'', [Some ''organizations'', None, Some ''roles'', None, Some ''_acl'', None]),
     (''PUT'', [Some ''organizations'', None, Some ''organizations'', Some ''_acl'', None]),
     (''PUT'', [Some ''users'', None, Some ''_acl'', None]), (''POST'', [Some ''authenticate_user'']),
     (''POST'', [Some ''organizations'', None, Some ''users'']),
     (''DELETE'', [Some ''organizations'', None, Some ''users'', None]),
     (''POST'', [Some ''organizations'', None, Some ''association_requests'']),
     (''DELETE'', [Some ''organizations'', None, Some ''association_requests'', None]),
     (''PUT'', [Some ''users'', None, Some ''association_requests'', None]),
     (''DELETE'', [Some ''organizations'', None, Some ''policies'', None]),
     (''POST'', [Some ''organizations'', None, Some ''policies'', None, Some ''revisions'']),
     (''DELETE'', [Some ''organizations'', None, Some ''policies'', None, Some ''revisions'', None]),
     (''DELETE'', [Some ''organizations'', None, Some ''policy_groups'', None]),
     (''PUT'', [Some ''organizations'', None, Some ''policy_groups'', None, Some ''policies'', None]),
     (''DELETE'', [Some ''organizations'', None, Some ''policy_groups'', None, Some ''policies'', None]),
     (''POST'', [Some ''organizations'']), (''PUT'', [Some ''organizations'', None]),
     (''DELETE'', [Some ''organizations'', None]), (''POST'', [Some ''organizations'', None, Some ''groups'']),
     (''PUT'', [Some ''organizations'', None, Some ''groups'', None]),
     (''DELETE'', [Some ''organizations'', None, Some ''groups'', None]),
     (''POST'', [Some ''organizations'', None, Some ''containers'']),
     (''DELETE'', [Some ''organizations'', None, Some ''containers'', None])]"
  by code_simp

lemma instanceOf_simps:
  "instanceOf [] segs = (segs = [])"
  "instanceOf (None # sh) segs = (\<exists>x xs. segs = x # xs \<and> plainSeg x \<and> x \<noteq> ''_acl'' \<and> instanceOf sh xs)"
  "instanceOf (Some lit # sh) segs = (\<exists>xs. segs = lit # xs \<and> instanceOf sh xs)"
  by (auto simp: instanceOf_def list_all2_Cons1)

lemma covers_open:
  "coversParts ''/authenticate_user'' [''authenticate_user'']"
  "coversParts ''/organizations/{org}/sandboxes'' [''organizations'', x, ''sandboxes'']"
  "coversParts ''/organizations/{org}/sandboxes/'' (''organizations'' # x # ''sandboxes'' # xs)"
  "coversParts ''/organizations/{org}/file_store/'' (''organizations'' # x # ''file_store'' # xs)"
  "coversParts ''/organizations/{org}/search/'' (''organizations'' # x # ''search'' # xs)"
  "coversParts ''/users/{user}/association_requests/'' (''users'' # x # ''association_requests'' # xs)"
  "coversParts ''/organizations/{org}/environments/'' (''organizations'' # x # ''environments'' # xs)"
  by (simp_all add: coversParts_def pathParts_def trimSlash_def trimRightSlash_def isWildcard_def hasPrefix_def hasSuffix_def)

lemmas classify_defs = classifyParts_def classifyUsers_def classifyOrg_def classifyAcl_def classifyDataBag_def
  classifyCookbook_def classifyOrgMembership_def classifyGeneric_def classifySubResource_def isRead_def itemPerm_def
  userKeyPerm_def enforceSegs_def existenceSegs_def

lemma shapes_governed:
  "\<forall>(m, sh) \<in> set mutatingShapes. \<forall>segs. instanceOf sh segs \<longrightarrow> governed m segs"
proof -
  have open_: "governed m segs" if "(m, prefix) \<in> set openWrites" "coversParts prefix segs" for m prefix segs
    using that by (force simp: governed_def list_ex_iff)
  have cls: "governed m segs" if "classifyParts m segs \<noteq> None" for m segs
    using that by (simp add: governed_def)
  show ?thesis
    unfolding mutatingShapes_eq
    by (simp only: list.set ball_simps prod.case instanceOf_simps, intro conjI allI impI TrueI)
      (((elim exE conjE)?, hypsubst?,
        ((rule cls, simp add: classify_defs plainSeg_def Let_def; fail) |
         (rule open_[rotated], rule covers_open, simp add: openWrites_def)))+)
qed

lemma shapes_plain:
  "\<forall>(m, sh) \<in> set mutatingShapes. sh \<noteq> [] \<and> list_all (\<lambda>w. case w of None \<Rightarrow> True | Some lit \<Rightarrow> plainSeg lit) sh"
  unfolding mutatingShapes_eq by code_simp

lemma instanceOf_plain:
  "list_all (\<lambda>w. case w of None \<Rightarrow> True | Some lit \<Rightarrow> plainSeg lit) sh \<Longrightarrow> instanceOf sh segs \<Longrightarrow> list_all plainSeg segs"
proof (induction sh arbitrary: segs)
  case (Cons w sh)
  then show ?case by (cases w) (auto simp: instanceOf_simps)
qed (simp add: instanceOf_simps)


section \<open>Properties\<close>



end
