(* ===== verification/Acl_References.thy ===== *)
theory Acl_References
  imports Acl
begin

text \<open>Dropping a name from every ACL of an organization (\<^verbatim>\<open>removeFromACLs\<close> of
  \<^verbatim>\<open>src/internal/api/authz.go\<close>), which deleting a group, a client or a user relies on: an ACL
  names its members by bare name, so a name left behind would be a grant to whatever is created
  next under it.

  The sources collect the rewritten ACLs in a map and write them in the order of its iteration;
  the keys are distinct, so the order of the scan stands for it.\<close>

definition stripPerm :: "string \<Rightarrow> string \<Rightarrow> string \<Rightarrow> gomap \<times> bool \<Rightarrow> gomap \<times> bool" where
  "stripPerm kind name perm st =
     (let (acl, dirty) = st in
      case asMap (map_of acl perm) of
        None \<Rightarrow> (acl, dirty)
      | Some ace \<Rightarrow>
          (let (kept, removed) = without (anyStrings (map_of ace kind)) name in
           if removed then (AList.update perm (GMap (AList.update kind (GStrs kept) ace)) acl, True)
           else (acl, dirty)))"

definition stripACL :: "string \<Rightarrow> string \<Rightarrow> gomap \<Rightarrow> gomap \<times> bool" where
  "stripACL kind name acl = fold (stripPerm kind name) aclPerms (acl, False)"

text \<open>The rewritten document, when the name occurred in it.\<close>

definition strippedBody :: "string \<Rightarrow> string \<Rightarrow> body \<Rightarrow> body option" where
  "strippedBody kind name raw = (case unmarshalAny raw of
     Some (Some acl) \<Rightarrow> (let (acl', dirty) = stripACL kind name acl in if dirty then Some (mustEncode acl') else None)
   | _ \<Rightarrow> None)"

text \<open>The elements of a scan that a function rewritten, with their keys.\<close>

definition rewritten :: "('b \<Rightarrow> 'c option) \<Rightarrow> ('a \<times> 'b) list \<Rightarrow> ('a \<times> 'c) list" where
  "rewritten f = List.map_filter (\<lambda>(k, v). map_option (Pair k) (f v))"

definition removeFromACLs :: "string \<Rightarrow> string \<Rightarrow> string \<Rightarrow> (body store, serr, unit) act" where
  "removeFromACLs og kind name =
     bindE (org_Range og aclsColl) (\<lambda>es.
       forE (rewritten (strippedBody kind name) es)
         (\<lambda>(key, raw). org_Put og aclsColl key raw))"

section \<open>One document\<close>

text \<open>The names of one kind that an entry of a stored ACL lists.\<close>

definition aceNames :: "string \<Rightarrow> string \<Rightarrow> gomap option \<Rightarrow> string list" where
  "aceNames kind perm acl = anyStrings (nilGet (asMap (nilGet acl perm)) kind)"

definition storedNames :: "string \<Rightarrow> string \<Rightarrow> body \<Rightarrow> string list" where
  "storedNames kind perm raw = (case unmarshalAny raw of None \<Rightarrow> [] | Some acl \<Rightarrow> aceNames kind perm acl)"

lemma without_simps:
  "without ss v = (out, removed) \<Longrightarrow> out = filter (\<lambda>e. e \<noteq> v) ss"
  "without ss v = (out, False) \<Longrightarrow> filter (\<lambda>e. e \<noteq> v) ss = ss"
proof -
  have "length (filter P xs) = length xs \<Longrightarrow> filter P xs = xs" for P and xs :: "'z list"
    by (metis filter_True length_filter_less less_irrefl)
  then show "without ss v = (out, False) \<Longrightarrow> filter (\<lambda>e. e \<noteq> v) ss = ss"
    by (auto simp: without_def Let_def)
qed (simp add: without_def Let_def)

lemma wfAny_update: "wfAny (GMap m) \<Longrightarrow> wfAny v \<Longrightarrow> wfAny (GMap (AList.update k v m))"
  using update_range[of _ _ k v m] by (fastforce simp: list_all_iff)

lemma stripPerm_names:
  assumes "stripPerm kind name p (acl, d) = (acl', d')"
  shows "aceNames k perm (Some acl') =
      (if k = kind \<and> perm = p then filter (\<lambda>e. e \<noteq> name) (aceNames k perm (Some acl)) else aceNames k perm (Some acl))"
    and "\<not> d' \<Longrightarrow> acl' = acl \<and> \<not> d"
    and "wfAny (GMap acl) \<Longrightarrow> wfAny (GMap acl')"
proof -
  consider (none) "asMap (map_of acl p) = None" "acl' = acl"
    | (kept) ace where "asMap (map_of acl p) = Some ace" "acl' = acl"
        "filter (\<lambda>e. e \<noteq> name) (anyStrings (map_of ace kind)) = anyStrings (map_of ace kind)"
    | (gone) ace where "asMap (map_of acl p) = Some ace"
        "acl' = AList.update p (GMap (AList.update kind (GStrs (filter (\<lambda>e. e \<noteq> name) (anyStrings (map_of ace kind)))) ace)) acl"
    using assms by (auto simp: stripPerm_def dest: without_simps split: option.splits prod.splits if_splits)
  then show "aceNames k perm (Some acl') =
      (if k = kind \<and> perm = p then filter (\<lambda>e. e \<noteq> name) (aceNames k perm (Some acl)) else aceNames k perm (Some acl))"
  proof cases
    case none
    then show ?thesis by (simp add: aceNames_def nilGet_def anyStrings_def)
  next
    case kept
    then show ?thesis by (simp add: aceNames_def nilGet_def)
  next
    case gone
    have "anyStrings (Some (GStrs ss)) = ss" for ss by (simp add: anyStrings_def)
    moreover have "asMap (Some (GMap m)) = Some m" for m by (simp add: asMap_def)
    ultimately show ?thesis using gone(1) by (simp add: gone(2) aceNames_def nilGet_def map_of_update)
  qed
  show "\<not> d' \<Longrightarrow> acl' = acl \<and> \<not> d"
    using assms by (auto simp: stripPerm_def split: option.splits prod.splits if_splits)
  show "wfAny (GMap acl')" if "wfAny (GMap acl)"
  proof (cases "asMap (map_of acl p)")
    case (Some ace)
    then have "map_of acl p = Some (GMap ace)" by (auto simp: asMap_def split: option.splits goany.splits)
    from wfAny_map_of[OF that this] have "wfAny (GMap (AList.update kind (GStrs ss) ace))" for ss
      by (rule wfAny_update) simp
    from wfAny_update[OF that this] show ?thesis
      using assms that Some by (auto simp: stripPerm_def simp del: wfAny.simps split: prod.splits if_splits)
  qed (use assms that in \<open>simp add: stripPerm_def\<close>)
qed

lemma stripACL_names:
  assumes "stripACL kind name acl = (acl', d)"
  shows "perm \<in> set aclPerms \<Longrightarrow> aceNames k perm (Some acl') =
      (if k = kind then filter (\<lambda>e. e \<noteq> name) (aceNames k perm (Some acl)) else aceNames k perm (Some acl))"
    and "perm \<notin> set aclPerms \<Longrightarrow> aceNames k perm (Some acl') = aceNames k perm (Some acl)"
    and "\<not> d \<Longrightarrow> acl' = acl" and "wfAny (GMap acl) \<Longrightarrow> wfAny (GMap acl')"
proof -
  have *: "fold (stripPerm kind name) ps (acl, e) = (acl', d) \<Longrightarrow>
      (aceNames k perm (Some acl') = (if k = kind \<and> perm \<in> set ps then filter (\<lambda>e. e \<noteq> name) (aceNames k perm (Some acl))
         else aceNames k perm (Some acl))) \<and> (\<not> d \<longrightarrow> acl' = acl \<and> \<not> e) \<and> (wfAny (GMap acl) \<longrightarrow> wfAny (GMap acl'))" for ps e acl
  proof (induction ps arbitrary: acl e)
    case (Cons p ps)
    obtain acl1 e1 where 1: "stripPerm kind name p (acl, e) = (acl1, e1)" by fastforce
    with Cons.prems have "fold (stripPerm kind name) ps (acl1, e1) = (acl', d)" by simp
    from Cons.IH[OF this] stripPerm_names[OF 1] show ?case by (auto simp: filter_filter simp del: wfAny.simps)
  qed simp
  from *[OF assms[unfolded stripACL_def]] show
    "perm \<in> set aclPerms \<Longrightarrow> aceNames k perm (Some acl') =
      (if k = kind then filter (\<lambda>e. e \<noteq> name) (aceNames k perm (Some acl)) else aceNames k perm (Some acl))"
    "perm \<notin> set aclPerms \<Longrightarrow> aceNames k perm (Some acl') = aceNames k perm (Some acl)"
    "\<not> d \<Longrightarrow> acl' = acl" "wfAny (GMap acl) \<Longrightarrow> wfAny (GMap acl')"
    by (auto simp del: wfAny.simps)
qed

lemma storedNames_mustEncode:
  assumes "wfAny (GMap m)"
  shows "storedNames k perm (mustEncode m) = aceNames k perm (Some m)"
proof -
  obtain m' where m': "unmarshalAny (mustEncode m) = Some (Some m')" "map_of m' = (\<lambda>k. map_option reload (map_of m k))"
    using unmarshal_mustEncode[OF assms] by blast
  show ?thesis
  proof (cases "map_of m perm")
    case None
    then show ?thesis by (simp add: storedNames_def aceNames_def m' nilGet_def asMap_def)
  next
    case (Some v)
    then have "wfAny v" using assms by (rule wfAny_map_of[rotated])
    from asMap_reload[OF this] Some show ?thesis
      by (auto simp: storedNames_def aceNames_def m' nilGet_def split: option.splits)
  qed
qed

text \<open>The name is gone from the entries of its kind; every other name stays, in order.\<close>

definition dropped :: "string \<Rightarrow> string \<Rightarrow> body \<Rightarrow> body \<Rightarrow> bool" where
  "dropped kind name raw raw' = (\<forall>k. \<forall>perm \<in> set aclPerms. storedNames k perm raw' =
     (if k = kind then filter (\<lambda>e. e \<noteq> name) (storedNames k perm raw) else storedNames k perm raw))"

lemma strippedBody_dropped:
  "dropped kind name raw (case strippedBody kind name raw of None \<Rightarrow> raw | Some raw' \<Rightarrow> raw')"
proof (cases "unmarshalAny raw")
  case (Some acl)
  then show ?thesis
  proof (cases acl)
    case [simp]: (Some m)
    obtain m' d where st: "stripACL kind name m = (m', d)" by fastforce
    have "wfAny (GMap m)" using \<open>unmarshalAny raw = Some acl\<close> wfAny_ofJson
      by (auto simp: unmarshalAny_def simp del: wfAny.simps split: body.splits goany.splits) (metis wfAny_ofJson)
    note names = stripACL_names[OF st] storedNames_mustEncode[OF stripACL_names(4)[OF st this]]
    have raw: "storedNames k perm raw = aceNames k perm (Some m)" for k perm
      using \<open>unmarshalAny raw = Some acl\<close> by (simp add: storedNames_def)
    show ?thesis
    proof (cases d)
      case True
      then show ?thesis
        unfolding dropped_def raw using \<open>unmarshalAny raw = Some acl\<close> names by (simp add: strippedBody_def st)
    next
      case False
      with names(1)[of _ kind] names(3) have "perm \<in> set aclPerms \<Longrightarrow>
        filter (\<lambda>e. e \<noteq> name) (aceNames kind perm (Some m)) = aceNames kind perm (Some m)" for perm by auto
      with False show ?thesis
        unfolding dropped_def using \<open>unmarshalAny raw = Some acl\<close> by (simp add: strippedBody_def st raw)
    qed
  qed (simp add: strippedBody_def dropped_def storedNames_def aceNames_def nilGet_def asMap_def anyStrings_def)
qed (simp add: strippedBody_def dropped_def storedNames_def)

section \<open>The whole organization\<close>

definition aclsChanged :: "string \<Rightarrow> (body option \<Rightarrow> body option \<Rightarrow> bool) \<Rightarrow> body store \<Rightarrow> body store \<Rightarrow> bool" where
  "aclsChanged og R s s' = ((\<forall>og' c k. \<not> (og' = og \<and> c = aclsColl) \<longrightarrow> stored s' og' c k = stored s og' c k) \<and>
     (\<forall>key. R (stored s og aclsColl key) (stored s' og aclsColl key)))"

lemma rewritten_simps:
  "rewritten f [] = []"
  "rewritten f ((k, v) # xs) = (case f v of None \<Rightarrow> rewritten f xs | Some w \<Rightarrow> (k, w) # rewritten f xs)"
  by (simp_all add: rewritten_def List.map_filter_simps split: option.split)

lemma rewritten_keys: "fst ` set (rewritten f xs) \<subseteq> fst ` set xs"
proof (induction xs)
  case (Cons p xs)
  then show ?case by (cases p; cases "f (snd p)") (auto simp: rewritten_simps)
qed (simp add: rewritten_simps)

lemma distinct_rewritten: "distinct (map fst xs) \<Longrightarrow> distinct (map fst (rewritten f xs))"
proof (induction xs)
  case (Cons p xs)
  have "fst p \<notin> fst ` set (rewritten f xs)" using Cons.prems rewritten_keys[of f xs] by auto
  with Cons show ?case by (cases p; cases "f (snd p)") (auto simp: rewritten_simps)
qed (simp add: rewritten_simps)

lemma map_of_rewritten: "distinct (map fst xs) \<Longrightarrow> map_of (rewritten f xs) k = Option.bind (map_of xs k) f"
proof (induction xs)
  case (Cons p xs)
  have "fst p \<notin> fst ` set (rewritten f xs)" using Cons.prems rewritten_keys[of f xs] by auto
  then have "map_of (rewritten f xs) (fst p) = None" by (simp add: map_of_eq_None_iff)
  with Cons show ?case by (cases p; cases "f (snd p)") (auto simp: rewritten_simps)
qed (simp add: rewritten_simps)

lemma map_of_rev_distinct: "distinct (map fst xs) \<Longrightarrow> map_of (rev xs) = map_of xs"
  by (simp add: map_of_inject_set rev_map[symmetric])

lemma filled_rewritten:
  assumes wf: "wfS s" and f: "filled og c (take n (rewritten f (coll_of (backend s) og c))) s s'"
  shows "\<exists>b. stored s' og c key = (if b then stored s og c key
      else map_option (\<lambda>raw. case f raw of None \<Rightarrow> raw | Some raw' \<Rightarrow> raw') (stored s og c key))"
    and "length (rewritten f (coll_of (backend s) og c)) \<le> n \<Longrightarrow>
      stored s' og c key = map_option (\<lambda>raw. case f raw of None \<Rightarrow> raw | Some raw' \<Rightarrow> raw') (stored s og c key)"
proof -
  let ?xs = "rewritten f (coll_of (backend s) og c)"
  have d: "distinct (map fst (coll_of (backend s) og c))" using wf by (rule distinct_coll_of)
  have dx: "distinct (map fst (take n ?xs))" using distinct_rewritten[OF d, of f] by (metis distinct_take take_map)
  have at: "stored s' og c key = (case map_of (take n ?xs) key of Some v \<Rightarrow> Some v | None \<Rightarrow> stored s og c key)"
    using f map_of_rev_distinct[OF dx] by (simp add: filled_def)
  have full: "map_of ?xs key = Option.bind (stored s og c key) f"
    using map_of_rewritten[OF d] by (simp add: kv_def)
  have part: "map_of (take n ?xs) key = Some v \<Longrightarrow> map_of ?xs key = Some v" for v
    using distinct_rewritten[OF d, of f] by (meson in_set_takeD map_of_SomeD map_of_is_SomeI)
  show "\<exists>b. stored s' og c key = (if b then stored s og c key
      else map_option (\<lambda>raw. case f raw of None \<Rightarrow> raw | Some raw' \<Rightarrow> raw') (stored s og c key))"
  proof (cases "map_of (take n ?xs) key")
    case None
    then show ?thesis by (intro exI[of _ True]) (simp add: at)
  next
    case (Some v)
    then show ?thesis using part[OF Some] full
      by (intro exI[of _ False]) (cases "stored s og c key"; simp add: at)
  qed
  show "stored s' og c key = map_option (\<lambda>raw. case f raw of None \<Rightarrow> raw | Some raw' \<Rightarrow> raw') (stored s og c key)"
    if "length ?xs \<le> n"
    using that full by (cases "stored s og c key") (auto simp: at split: option.split)
qed


text \<open>After a successful removal every ACL of the organization has lost the name; an interrupted one
  leaves each ACL either as it was or without the name.\<close>

definition nameDropped :: "string \<Rightarrow> string \<Rightarrow> body option \<Rightarrow> body option \<Rightarrow> bool" where
  "nameDropped kind name old new = (case old of None \<Rightarrow> new = None
     | Some raw \<Rightarrow> \<exists>raw'. new = Some raw' \<and> dropped kind name raw raw')"

lemma wp_removeFromACLs:
  assumes wf: "wfS s"
  shows "wpE (removeFromACLs og kind name)
     (\<lambda>_ s'. aclsChanged og (nameDropped kind name) s s' \<and> wfS s')
     (\<lambda>e s'. e = ErrBackend \<and> aclsChanged og (\<lambda>old new. new = old \<or> nameDropped kind name old new) s s' \<and> wfS s') s"
  unfolding removeFromACLs_def wp
proof (rule wp_Range)
  let ?xs = "rewritten (strippedBody kind name) (coll_of (backend s) og aclsColl)"
  fix s1 assume s1: "same s s1"
  have drop: "nameDropped kind name x (map_option (\<lambda>raw. case strippedBody kind name raw of None \<Rightarrow> raw | Some raw' \<Rightarrow> raw') x)" for x
    using strippedBody_dropped by (cases x) (auto simp: nameDropped_def)
  have frame: "\<not> (og' = og \<and> c = aclsColl) \<Longrightarrow> stored s2 og' c k = stored s og' c k" "wfS s2"
    if "filled og aclsColl kvs s s2" for og' c k s2 kvs
    using that wf by (auto simp: filled_def)
  have "aclsChanged og (nameDropped kind name) s s2" if f: "filled og aclsColl ?xs s s2" for s2
  proof -
    have "stored s2 og aclsColl key = map_option (\<lambda>raw. case strippedBody kind name raw of None \<Rightarrow> raw | Some raw' \<Rightarrow> raw') (stored s og aclsColl key)" for key
      by (rule filled_rewritten(2)[OF wf, where n = "length ?xs"]) (use f in simp_all)
    then show ?thesis using frame(1)[OF f] drop by (simp add: aclsChanged_def)
  qed
  moreover have "aclsChanged og (\<lambda>old new. new = old \<or> nameDropped kind name old new) s s2"
    if f: "filled og aclsColl (take n ?xs) s s2" for s2 n
  proof -
    have "stored s2 og aclsColl key = stored s og aclsColl key \<or>
        nameDropped kind name (stored s og aclsColl key) (stored s2 og aclsColl key)" for key
      using filled_rewritten(1)[OF wf f, of key] drop by metis
    then show ?thesis using frame(1)[OF f] by (simp add: aclsChanged_def)
  qed
  ultimately show "wpE (forE ?xs (\<lambda>(key, raw). org_Put og aclsColl key raw))
      (\<lambda>_ s'. aclsChanged og (nameDropped kind name) s s' \<and> wfS s')
      (\<lambda>e s'. e = ErrBackend \<and> aclsChanged og (\<lambda>old new. new = old \<or> nameDropped kind name old new) s s' \<and> wfS s') s1"
    by (intro wpE_mono[OF wp_put_all]) (use filled_from_same[OF s1] frame(2) in blast)+
qed (use wf in \<open>auto simp: aclsChanged_def same_def\<close>)

end
