(* ===== verification/Group_Api.thy ===== *)
theory Group_Api
  imports Acl_References
begin

text \<open>The group and container endpoints and the seeding of an organization
  (\<^verbatim>\<open>src/internal/api/authz.go\<close>, \<^verbatim>\<open>SeedOrg\<close> of \<^verbatim>\<open>environments.go\<close>).

  \<^verbatim>\<open>createGroup\<close>, \<^verbatim>\<open>putGroup\<close> and \<^verbatim>\<open>deleteGroup\<close> hold the membership lock from their first write
  on, so a handler is one step of the model from there; what happened between authorization and
  the lock shows as a store that differs from the object the request carries.\<close>

section \<open>Seeding\<close>

definition defaultGroups :: "string list" where
  "defaultGroups = [''admins'', ''billing-admins'', ''clients'', ''users'', ''public_key_read_access'']"

definition defaultGroupGroups :: "string \<Rightarrow> string list" where
  "defaultGroupGroups g = (if g = ''public_key_read_access'' then [''users'', ''clients''] else [])"

definition defaultContainers :: "string list" where
  "defaultContainers = [''clients'', ''containers'', ''cookbooks'', ''cookbook_artifacts'', ''data'',
     ''environments'', ''groups'', ''nodes'', ''policies'', ''policy_groups'', ''roles'', ''sandboxes'']"

definition containersColl :: string where "containersColl = ''containers''"
definition environmentsColl :: string where "environmentsColl = ''environments''"

definition containerDoc :: "string \<Rightarrow> body" where
  "containerDoc c = Doc (JObj [(''containername'', JStr c), (''containerpath'', JStr c)])"

definition defaultEnvironment :: body where
  "defaultEnvironment = Doc (JObj [(''name'', JStr ''_default''), (''description'', JStr ''The default Chef environment''),
     (''cookbook_versions'', JObj []), (''json_class'', JStr ''Chef::Environment''), (''chef_type'', JStr ''environment''),
     (''default_attributes'', JObj []), (''override_attributes'', JObj [])])"

definition putIfMissing :: "string \<Rightarrow> string \<Rightarrow> string \<Rightarrow> body \<Rightarrow> (body store, serr, unit) act" where
  "putIfMissing og coll key doc =
     bindE (org_Get og coll key) (\<lambda>raw. if raw = None then org_Put og coll key doc else ret ())"

definition seedAuthz :: "string \<Rightarrow> (body store, serr, unit) act" where
  "seedAuthz og =
     bindE (forE defaultGroups (\<lambda>g. putIfMissing og groupsColl g (groupJSON g [] [] [] (defaultGroupGroups g)))) (\<lambda>_.
       forE defaultContainers (\<lambda>c. putIfMissing og containersColl c (containerDoc c)))"

definition SeedOrg :: "string \<Rightarrow> (body store, serr, unit) act" where
  "SeedOrg og = bindE (putIfMissing og environmentsColl ''_default'' defaultEnvironment) (\<lambda>_. seedAuthz og)"

section \<open>Reading a group\<close>

definition groupDocWithMembers :: "string \<Rightarrow> string \<Rightarrow> (body store, serr, body option) act" where
  "groupDocWithMembers og name =
     bindE (org_Get og groupsColl name) (\<lambda>raw.
     bindE (groupMembership og name) (\<lambda>(users, clients, groups).
       ret (if raw = None \<and> length users + length clients + length groups = 0 then None
            else Some (groupJSON name og users clients groups))))"

definition getGroup :: "string \<Rightarrow> string \<Rightarrow> handler" where
  "getGroup og name = withOrg og
     (tryE (groupDocWithMembers og name) serverError (\<lambda>doc.
        case doc of None \<Rightarrow> writeError 404 [''Cannot find groups '' @ name] | Some d \<Rightarrow> writeRaw 200 d))"

section \<open>Creating a group\<close>

definition strField :: "members \<Rightarrow> string \<Rightarrow> string" where
  "strField obj field = (case map_of obj field of Some (JStr v) \<Rightarrow> v | _ \<Rightarrow> [])"

definition groupName :: "members \<Rightarrow> string" where
  "groupName obj =
     (if strField obj ''name'' \<noteq> [] then strField obj ''name''
      else if strField obj ''groupname'' \<noteq> [] then strField obj ''groupname''
      else strField obj ''id'')"

definition groupNameChar :: "char \<Rightarrow> bool" where
  "groupNameChar c = (isLowercase c \<or> isDigit c \<or> c = CHR ''_'' \<or> c = CHR ''-'')"

definition groupNameRE :: "string \<Rightarrow> bool" where
  "groupNameRE name = (name \<noteq> [] \<and> list_all groupNameChar name)"

definition createGroup :: "request \<Rightarrow> string \<Rightarrow> handler" where
  "createGroup r og = withOrg og
     (case UnmarshalMap (rq_body r) of
        None \<Rightarrow> writeError 400 [''invalid JSON body'']
      | Some obj \<Rightarrow>
          (let name = groupName obj; (users, clients, groups) = groupMembers obj in
           if name = [] then writeError 400 [''Field name missing'']
           else if \<not> groupNameRE name then writeError 400 [''Invalid group name.'']
           else tryE (clearMembers og name) serverError (\<lambda>_.
             tryE (org_Create og groupsColl name (groupJSON name [] users clients groups))
               (\<lambda>e. if e = ErrConflict then writeError 409 [''Object already exists''] else serverError e)
               (\<lambda>_. writeJSON 201 (JObj [(''uri'', JStr (objectURL r og ''groups'' name))])))))"

section \<open>Updating a group\<close>

definition groupUpdateMembers :: "members \<Rightarrow> (string \<times> string list) list" where
  "groupUpdateMembers obj =
     (let src = (case map_of obj ''actors'' of Some (JObj nested) \<Rightarrow> nested | _ \<Rightarrow> obj)
      in concat (map (\<lambda>kind. case map_of src kind of
             Some (JArr es) \<Rightarrow> [(kind, jsonStrings (map_of src kind))] | _ \<Rightarrow> [])
           [memberUsers, memberClients, memberGroups]))"

definition keepKnown :: "string \<Rightarrow> string \<Rightarrow> string list \<Rightarrow> (body store, serr, string list) act" where
  "keepKnown space coll names =
     foldE names (\<lambda>n out. bindE (org_Get space coll n) (\<lambda>raw. ret (if raw \<noteq> None then out @ [n] else out))) []"

definition knownGroupMembers :: "string \<Rightarrow> string list \<Rightarrow> string list \<Rightarrow> string list \<Rightarrow>
    (body store, serr, string list \<times> string list \<times> string list) act" where
  "knownGroupMembers og users clients groups =
     bindE (keepKnown [] ''users'' users) (\<lambda>u.
     bindE (keepKnown og ''clients'' clients) (\<lambda>c.
     bindE (keepKnown og groupsColl groups) (\<lambda>g. ret (u, c, g))))"

definition orKept :: "(string \<times> string list) list \<Rightarrow> string \<Rightarrow> string list \<Rightarrow> string list" where
  "orKept update kind current = (case map_of update kind of Some v \<Rightarrow> v | None \<Rightarrow> current)"

text \<open>The part of the update that runs under the membership lock, after the second existence check.\<close>

definition replaceGroup :: "request \<Rightarrow> string \<Rightarrow> string \<Rightarrow> members \<Rightarrow> handler" where
  "replaceGroup r og name obj =
     tryE (groupMembership og name) serverError (\<lambda>(users, clients, groups).
       let update = groupUpdateMembers obj in
       tryE (knownGroupMembers og (orKept update memberUsers users) (orKept update memberClients clients)
               (orKept update memberGroups groups)) serverError (\<lambda>(u, c, g).
       tryE (clearMembers og name) serverError (\<lambda>_.
       tryE (org_Put og groupsColl name (groupJSON name [] u c g)) serverError (\<lambda>_.
         writeRaw 200 (rq_body r)))))"

definition putGroup :: "request \<Rightarrow> string \<Rightarrow> string \<Rightarrow> handler" where
  "putGroup r og name = withOrg og
     (existsThen r og groupsColl name (''Cannot find groups '' @ name)
       (case DecodeObject (rq_body r) of
          None \<Rightarrow> writeError 400 [''invalid JSON body'']
        | Some obj \<Rightarrow>
            existsThen r og groupsColl name (''Cannot find groups '' @ name) (replaceGroup r og name obj)))"

section \<open>Deleting a group\<close>

text \<open>The references go before the group itself.\<close>

definition dropGroupReferences :: "string \<Rightarrow> string \<Rightarrow> (body store, serr, unit) act" where
  "dropGroupReferences og name =
     bindE (removeFromACLs og ''groups'' name) (\<lambda>_.
     bindE (removeActorFromAllGroups og memberGroups name) (\<lambda>_.
     bindE (clearMembers og name) (\<lambda>_. deleteACL og ''groups'' name)))"

definition deleteGroup :: "string \<Rightarrow> string \<Rightarrow> handler" where
  "deleteGroup og name = withOrg og
     (tryE (org_Get og groupsColl name) serverError (\<lambda>raw.
        if raw = None then writeError 404 [''Cannot find groups '' @ name]
        else tryE (dropGroupReferences og name) serverError (\<lambda>_.
             tryE (org_Delete og groupsColl name) serverError (\<lambda>raw.
               case raw of
                 None \<Rightarrow> writeError 404 [''Cannot find groups '' @ name]
               | Some d \<Rightarrow> writeRaw 200 d))))"

section \<open>Containers\<close>

definition createContainer :: "request \<Rightarrow> string \<Rightarrow> handler" where
  "createContainer r og = withOrg og
     (case unmarshalAny (rq_body r) of
        None \<Rightarrow> writeError 400 [''invalid JSON body'']
      | Some obj \<Rightarrow>
          (let str = (\<lambda>f. case nilGet obj f of Some (GStr v) \<Rightarrow> v | _ \<Rightarrow> []);
               name = (if str ''containername'' = [] then str ''id'' else str ''containername'')
           in case obj of
                None \<Rightarrow> writeError 400 [''Field 'containername' missing'']
              | Some m \<Rightarrow>
                  if name = [] then writeError 400 [''Field 'containername' missing'']
                  else tryE (org_Put og containersColl name (mustEncode m)) serverError (\<lambda>_.
                    writeJSON 201 (JObj [(''uri'', JStr (objectURL r og ''containers'' name))]))))"

section \<open>Replacing a group's document and rows\<close>

definition memberSet :: "string \<Rightarrow> body option \<Rightarrow> string set" where
  "memberSet k doc = (case doc of None \<Rightarrow> {} | Some raw \<Rightarrow> set (selectKind k (indexMembers raw) []))"

lemma memberSet_groupJSON [simp]:
  "memberSet k None = {}" "memberSet k (Some (groupJSON n o' u c g)) = set (selectKind k (u, c, g) [])"
  by (simp_all add: memberSet_def indexMembers_groupJSON)

lemma heldPairs_replaced:
  assumes doc: "M' og groupsColl = (M og groupsColl)(grp := v)"
    and rows: "\<And>key. M' og groupMembersColl key = (if hasPrefix key (grp @ [CHR 0x00]) then None else M og groupMembersColl key)"
    and "plain grp"
  shows "heldPairs k M' og = {(who, g) \<in> heldPairs k M og. g \<noteq> grp} \<union> {(who, grp) | who. who \<in> memberSet k v}"
proof -
  have "M' og groupMembersColl key \<noteq> None \<and> splitMemberKey key = Some (g, k, who) \<longleftrightarrow>
      M og groupMembersColl key \<noteq> None \<and> splitMemberKey key = Some (g, k, who) \<and> g \<noteq> grp" for key g who
    using rows[of key] row_prefix[OF _ assms(3), of key g k who] by auto
  moreover have "listedIn M' og k g = (if g = grp then memberSet k v else listedIn M og k g)" for g
    by (simp add: listedIn_def doc memberSet_def)
  ultimately show ?thesis unfolding heldPairs_listedIn by (auto split: if_splits)
qed

lemma wp_clearMembers:
  assumes "wfS s"
    and "\<And>s'. swept og groupMembersColl (\<lambda>key. hasPrefix key (grp @ [CHR 0x00])) s s' \<Longrightarrow> Q () s'"
    and "\<And>s'. sweeping og groupMembersColl (\<lambda>key. hasPrefix key (grp @ [CHR 0x00])) s s' \<Longrightarrow> E ErrBackend s'"
  shows "wpE (clearMembers og grp) Q E s"
  unfolding clearMembers_def by (rule wp_sweep) (use assms in auto)

section \<open>Deleting a group\<close>

lemma colls_distinct [simp]:
  "aclsColl \<noteq> groupsColl" "groupsColl \<noteq> aclsColl" "aclsColl \<noteq> groupMembersColl" "groupMembersColl \<noteq> aclsColl"
  by (simp_all add: aclsColl_def member_kinds)

text \<open>The state after the references are gone and before the document is.\<close>

definition unreferenced :: "string \<Rightarrow> string \<Rightarrow> body store \<Rightarrow> body store \<Rightarrow> bool" where
  "unreferenced og name s s' =
     ((\<forall>k. isKind k \<longrightarrow> {(who, g) \<in> heldPairs k (stored s') og. g \<noteq> name} =
        {(who, g) \<in> heldPairs k (stored s) og. g \<noteq> name \<and> \<not> (k = memberGroups \<and> who = name)}) \<and>
      (\<forall>key. hasPrefix key (name @ [CHR 0x00]) \<longrightarrow> stored s' og groupMembersColl key = None) \<and>
      stored s' og aclsColl (aclKey ''groups'' name) = None \<and>
      (\<forall>key raw. stored s' og aclsColl key = Some raw \<longrightarrow>
         (\<forall>perm \<in> set aclPerms. name \<notin> set (storedNames ''groups'' perm raw))))"

definition docKept :: "string \<Rightarrow> string \<Rightarrow> body store \<Rightarrow> body store \<Rightarrow> bool" where
  "docKept og name s s' = ((stored s' og groupsColl name = None) = (stored s og groupsColl name = None))"

lemma wp_dropGroupReferences:
  assumes "wfS s" and "groupDocs (stored s) og" and "plain name"
  shows "wpE (dropGroupReferences og name) (\<lambda>_ s'. unreferenced og name s s' \<and> docKept og name s s')
     (\<lambda>e s'. e = ErrBackend \<and> docKept og name s s') s"
  unfolding dropGroupReferences_def wpE_bindE
proof (rule wpE_mono[OF wp_removeFromACLs[OF assms(1)]], goal_cases)
  case (1 x s1)
  then have acls: "aclsChanged og (nameDropped ''groups'' name) s s1" and wf1: "wfS s1" by auto
  have st1: "stored s1 og groupsColl = stored s og groupsColl" "stored s1 og groupMembersColl = stored s og groupMembersColl"
    using acls by (auto simp: aclsChanged_def)
  have docs1: "groupDocs (stored s1) og" using assms(2) by (simp add: groupDocs_def st1)
  have held1: "heldPairs k (stored s1) og = heldPairs k (stored s) og" for k by (simp add: heldPairs_def st1)
  have gone: "name \<notin> set (storedNames ''groups'' perm raw)"
    if "stored s1 og aclsColl key = Some raw" "perm \<in> set aclPerms" for key raw perm
  proof -
    have "nameDropped ''groups'' name (stored s og aclsColl key) (Some raw)" using acls that(1) by (metis aclsChanged_def)
    then show ?thesis using that(2) by (auto simp: nameDropped_def dropped_def split: option.splits)
  qed
  show ?case
  proof (rule wpE_mono[OF wpE_conj[OF wp_removeActorFromAllGroups[OF wf1 docs1, of memberGroups name]
          keeps_removeActorFromAllGroups[unfolded keeps_def, rule_format, OF wf1]]], goal_cases)
    case (3 x s2)
    then have un: "ungrouped og memberGroups name s1 s2" and wf2: "wfS s2" by auto
    note re = un[unfolded ungrouped_def, THEN conjunct1, unfolded regrouped_def]
    have acl2: "stored s2 og aclsColl = stored s1 og aclsColl" using re by auto
    have doc2: "docKept og name s s2" using re by (simp add: docKept_def st1)
    show ?case
    proof (rule wp_clearMembers[OF wf2])
      fix s3 assume sw: "swept og groupMembersColl (\<lambda>key. hasPrefix key (name @ [CHR 0x00])) s2 s3"
      have "heldPairs k (stored s3) og = {(who, g) \<in> heldPairs k (stored s2) og. g \<noteq> name} \<union>
          {(who, name) | who. who \<in> memberSet k (stored s2 og groupsColl name)}" for k
        using sw assms(3) by (intro heldPairs_replaced) (auto simp: swept_def)
      then have held3: "{(who, g) \<in> heldPairs k (stored s3) og. g \<noteq> name} =
          {(who, g) \<in> heldPairs k (stored s) og. g \<noteq> name \<and> \<not> (k = memberGroups \<and> who = name)}" if "isKind k" for k
        using un[unfolded ungrouped_def] that held1 by auto
      have un4: "unreferenced og name s s4 \<and> docKept og name s s4"
        if st4: "stored s4 = (\<lambda>og' c k. if og' = og \<and> c = aclsColl \<and> k = aclKey ''groups'' name then None else stored s3 og' c k)" for s4
      proof -
        have "heldPairs k (stored s4) og = heldPairs k (stored s3) og" for k by (simp add: heldPairs_def st4)
        moreover have "stored s3 og aclsColl = stored s1 og aclsColl" using sw acl2 by (auto simp: swept_def)
        moreover have "stored s4 og groupMembersColl key = None" if "hasPrefix key (name @ [CHR 0x00])" for key
          using sw that by (simp add: st4 swept_def)
        ultimately show ?thesis
          using held3 gone doc2 sw by (auto simp: unreferenced_def docKept_def st4 swept_def)
      qed
      show "wpE (deleteACL og ''groups'' name) (\<lambda>_ s'. unreferenced og name s s' \<and> docKept og name s s')
          (\<lambda>e s'. e = ErrBackend \<and> docKept og name s s') s3"
        unfolding deleteACL_def wp
      proof (rule wp_Delete)
        fix s4 old assume "erased og aclsColl (aclKey ''groups'' name) s3 s4"
        from un4[OF stored_erased[OF this]] show "unreferenced og name s s4 \<and> docKept og name s s4" .
      next
        fix s4 assume "stored s3 og aclsColl (aclKey ''groups'' name) = None" "same s3 s4"
        then show "unreferenced og name s s4 \<and> docKept og name s s4" by (intro un4) (auto simp: stored_same fun_eq_iff)
      next
        fix s4 assume "same s3 s4"
        then show "ErrBackend = ErrBackend \<and> docKept og name s s4"
          using sw doc2 by (simp add: docKept_def stored_same swept_def)
      qed
    next
      fix s3 assume "sweeping og groupMembersColl (\<lambda>key. hasPrefix key (name @ [CHR 0x00])) s2 s3"
      from sweeping_other[OF this] doc2 show "ErrBackend = ErrBackend \<and> docKept og name s s3" by (simp add: docKept_def)
    qed
  next
    case (4 e s2)
    then show ?case by (auto simp: regrouped_def docKept_def st1)
  qed (use assms(3) in \<open>simp_all add: isKind_def\<close>)
next
  case (2 e s1)
  then show ?case by (simp add: aclsChanged_def docKept_def)
qed

text \<open>The state after a successful deletion.\<close>

definition groupGone :: "string \<Rightarrow> string \<Rightarrow> body store \<Rightarrow> body store \<Rightarrow> bool" where
  "groupGone og name s s' =
     (stored s' og groupsColl name = None \<and>
      stored s' og aclsColl (aclKey ''groups'' name) = None \<and>
      (\<forall>key raw. stored s' og aclsColl key = Some raw \<longrightarrow>
         (\<forall>perm \<in> set aclPerms. name \<notin> set (storedNames ''groups'' perm raw))) \<and>
      (\<forall>k. isKind k \<longrightarrow> heldPairs k (stored s') og =
         {(who, g) \<in> heldPairs k (stored s) og. g \<noteq> name \<and> \<not> (k = memberGroups \<and> who = name)}))"

lemma unreferenced_erased:
  assumes un: "unreferenced og name s s2" and er: "erased og groupsColl name s2 s3" and "plain name"
  shows "groupGone og name s s3"
proof -
  have st: "stored s3 = (\<lambda>og' c k. if og' = og \<and> c = groupsColl \<and> k = name then None else stored s2 og' c k)"
    using er by (rule stored_erased)
  have rows: "stored s3 og groupMembersColl key =
      (if hasPrefix key (name @ [CHR 0x00]) then None else stored s2 og groupMembersColl key)" for key
    using un unfolding unreferenced_def by (simp add: st)
  have "stored s3 og groupsColl = (stored s2 og groupsColl)(name := None)" by (simp add: st fun_eq_iff)
  from heldPairs_replaced[where M = "stored s2" and M' = "stored s3", OF this rows assms(3)]
  have held: "heldPairs k (stored s3) og = {(who, g) \<in> heldPairs k (stored s2) og. g \<noteq> name}" for k by simp
  show ?thesis
    unfolding groupGone_def
  proof (intro conjI allI impI ballI)
    show "heldPairs k (stored s3) og =
        {(who, g) \<in> heldPairs k (stored s) og. g \<noteq> name \<and> \<not> (k = memberGroups \<and> who = name)}" if "isKind k" for k
      unfolding held using un that unfolding unreferenced_def by blast
    show "name \<notin> set (storedNames ''groups'' perm raw)"
      if "stored s3 og aclsColl key = Some raw" "perm \<in> set aclPerms" for key raw perm
    proof -
      have "stored s2 og aclsColl key = Some raw" using that(1) by (simp add: st)
      with un that(2) show ?thesis unfolding unreferenced_def by blast
    qed
    show "stored s3 og groupsColl name = None" by (simp add: st)
    show "stored s3 og aclsColl (aclKey ''groups'' name) = None" using un unfolding unreferenced_def st by simp
  qed
qed

lemma wp_deleteGroup:
  assumes "wfS s" and "groupDocs (stored s) og" and "plain name"
    and R: "\<And>d s'. groupGone og name s s' \<Longrightarrow> R (Raw 200 d) s'"
      "\<And>e s'. docKept og name s s' \<Longrightarrow> R (Failure e) s'" "\<And>m s'. docKept og name s s' \<Longrightarrow> R (Reply 404 m) s'"
  shows "wpH (deleteGroup og name) R s"
proof -
  have same: "docKept og name s s'" if "same s s'" for s' using that by (simp add: docKept_def stored_same)
  have drop: "wpH (tryE (dropGroupReferences og name) serverError (\<lambda>_.
      tryE (org_Delete og groupsColl name) serverError (\<lambda>raw.
        case raw of None \<Rightarrow> writeError 404 [''Cannot find groups '' @ name] | Some d \<Rightarrow> writeRaw 200 d))) R s1"
    if s1: "same s s1" for s1
    unfolding wpH_tryE
  proof (rule wpE_mono[OF wp_dropGroupReferences], goal_cases)
    case (4 x s2)
    then have un: "unreferenced og name s s2" and kept: "docKept og name s s2"
      using s1 by (simp_all add: unreferenced_def docKept_def stored_same)
    have "docKept og name s s3" if "same s2 s3" for s3 using that kept by (simp add: docKept_def stored_same)
    then show ?case
      by (intro wp_Delete) (simp_all add: wpH_replies R unreferenced_erased[OF un _ assms(3)])
  next
    case (5 e s2)
    then show ?case using s1 by (auto simp: wpH_replies docKept_def stored_same intro!: R)
  qed (use assms(1-3) s1 in \<open>simp_all add: same_def\<close>)
  have get: "wpH (tryE (org_Get og groupsColl name) serverError (\<lambda>raw.
      if raw = None then writeError 404 [''Cannot find groups '' @ name]
      else tryE (dropGroupReferences og name) serverError (\<lambda>_.
        tryE (org_Delete og groupsColl name) serverError (\<lambda>raw.
          case raw of None \<Rightarrow> writeError 404 [''Cannot find groups '' @ name] | Some d \<Rightarrow> writeRaw 200 d)))) R s1"
    if s1: "same s s1" for s1
    unfolding wpH_tryE[of "org_Get _ _ _"] wpH_if
    by (rule wp_Get) (use same_trans[OF s1] in \<open>simp_all add: wpH_replies R same drop del: append.simps\<close>)
  show ?thesis
    unfolding deleteGroup_def withOrg_def wpH_tryE[of "store_Org _"] wpH_if
    by (rule wp_Org) (simp_all add: wpH_replies R same get del: append.simps)
qed

section \<open>Updating a group\<close>

definition known :: "body mirror \<Rightarrow> string \<Rightarrow> string \<Rightarrow> string \<Rightarrow> bool" where
  "known M og k who = (if k = memberUsers then M [] ''users'' who \<noteq> None
     else if k = memberClients then M og ''clients'' who \<noteq> None else M og groupsColl who \<noteq> None)"

lemma wp_keepKnown:
  "wpE (keepKnown space coll names) (\<lambda>out s'. same s s' \<and> out = filter (\<lambda>n. stored s space coll n \<noteq> None) names)
     (\<lambda>e s'. e = ErrBackend \<and> same s s') s"
proof -
  have "wpE (foldE names (\<lambda>n out. bindE (org_Get space coll n) (\<lambda>raw. ret (if raw \<noteq> None then out @ [n] else out))) acc)
     (\<lambda>out s'. same s s' \<and> out = acc @ filter (\<lambda>n. stored s space coll n \<noteq> None) names)
     (\<lambda>e s'. e = ErrBackend \<and> same s s') s1" if "same s s1" for acc s1
    using that
  proof (induction names arbitrary: acc s1)
    case (Cons n names)
    have st: "stored s1 = stored s" using Cons.prems by (rule stored_same)
    show ?case
      unfolding foldE.simps wp
      by (rule wp_Get; (rule wpE_mono[OF Cons.IH])?) (use same_trans[OF Cons.prems] in \<open>auto simp: st\<close>)
  qed (simp add: wp)
  from this[OF same_refl, of "[]"] show ?thesis by (simp add: keepKnown_def)
qed

lemma wp_knownGroupMembers:
  "wpE (knownGroupMembers og u c g) (\<lambda>m s'. same s s' \<and>
       m = (filter (known (stored s) og memberUsers) u, filter (known (stored s) og memberClients) c,
            filter (known (stored s) og memberGroups) g))
     (\<lambda>e s'. e = ErrBackend \<and> same s s') s"
proof -
  have keep: "wpE (keepKnown space coll names) (\<lambda>out s'. same s s' \<and> out = filter (\<lambda>n. stored s space coll n \<noteq> None) names)
     (\<lambda>e s'. e = ErrBackend \<and> same s s') s1" if "same s s1" for s1 space coll names
    by (rule wpE_mono[OF wp_keepKnown]) (use same_trans[OF that] stored_same[OF that] in auto)
  show ?thesis
    unfolding knownGroupMembers_def wp
    by (rule wpE_mono[OF keep[OF same_refl]]; (elim conjE)?; (rule wpE_mono[OF keep])?; (elim conjE)?;
        (rule wpE_mono[OF keep])?) (auto simp: known_def[abs_def])
qed

text \<open>What a successful update leaves.\<close>

definition groupUpdated :: "string \<Rightarrow> string \<Rightarrow> (string \<times> string list) list \<Rightarrow> body store \<Rightarrow> body store \<Rightarrow> bool" where
  "groupUpdated og name update s s' =
     ((\<forall>k. isKind k \<longrightarrow> heldPairs k (stored s') og =
         {(who, g) \<in> heldPairs k (stored s) og. g \<noteq> name} \<union>
         {(who, name) | who. known (stored s) og k who \<and>
            (case map_of update k of Some names \<Rightarrow> who \<in> set names | None \<Rightarrow> (who, name) \<in> heldPairs k (stored s) og)}) \<and>
      stored s' og groupsColl name \<noteq> None \<and>
      (\<forall>og' c key. og' \<noteq> og \<or> c \<notin> {groupsColl, groupMembersColl} \<longrightarrow> stored s' og' c key = stored s og' c key))"

lemma groupUpdated_same: "same s s1 \<Longrightarrow> groupUpdated og name update s1 s2 \<Longrightarrow> groupUpdated og name update s s2"
  unfolding groupUpdated_def same_def by (simp cong: option.case_cong)

lemma replaced_groupUpdated:
  assumes sw: "swept og groupMembersColl (\<lambda>key. hasPrefix key (name @ [CHR 0x00])) s s1"
    and w: "wrote og groupsColl name (groupJSON name [] u c g) s1 s2" and "plain name"
    and m: "\<And>k. isKind k \<Longrightarrow> set (selectKind k m []) = {who. (who, name) \<in> heldPairs k (stored s) og}"
    and ucg: "u = filter (known (stored s) og memberUsers) (orKept update memberUsers (fst m))"
      "c = filter (known (stored s) og memberClients) (orKept update memberClients (fst (snd m)))"
      "g = filter (known (stored s) og memberGroups) (orKept update memberGroups (snd (snd m)))"
  shows "groupUpdated og name update s s2"
proof -
  have st: "stored s2 og' c' k = (if og' = og \<and> c' = groupsColl \<and> k = name then Some (groupJSON name [] u c g)
      else if og' = og \<and> c' = groupMembersColl \<and> hasPrefix k (name @ [CHR 0x00]) then None else stored s og' c' k)" for og' c' k
    using sw stored_wrote[OF w] by (simp add: swept_def)
  have "stored s2 og groupsColl = (stored s og groupsColl)(name := Some (groupJSON name [] u c g))" by (simp add: fun_eq_iff st)
  note held = heldPairs_replaced[where M = "stored s" and M' = "stored s2", OF this _ assms(3)]
  have "set (selectKind k (u, c, g) []) = {who. known (stored s) og k who \<and>
      (case map_of update k of Some names \<Rightarrow> who \<in> set names | None \<Rightarrow> (who, name) \<in> heldPairs k (stored s) og)}"
    if k: "isKind k" for k
  proof -
    have "set (selectKind k (u, c, g) []) = {who \<in> set (orKept update k (selectKind k m [])). known (stored s) og k who}"
      using k unfolding isKind_def ucg by (elim disjE) auto
    then show ?thesis using m[OF k] by (auto simp: orKept_def split: option.splits)
  qed
  moreover have "stored s2 og' c' key = stored s og' c' key" if "og' \<noteq> og \<or> c' \<notin> {groupsColl, groupMembersColl}" for og' c' key
    using that by (auto simp: st)
  ultimately show ?thesis by (simp add: groupUpdated_def held st)
qed

lemma wp_replaceGroup:
  assumes "wfS s" and "groupDocs (stored s) og" and "plain name"
    and ok: "\<And>s'. groupUpdated og name (groupUpdateMembers obj) s s' \<Longrightarrow> R (Raw 200 (rq_body r)) s'"
    and err: "\<And>s'. \<forall>k. heldPairs k (stored s') og \<subseteq> heldPairs k (stored s) og \<Longrightarrow> R (Failure ErrBackend) s'"
  shows "wpH (replaceGroup r og name obj) R s"
  unfolding replaceGroup_def wpH_tryE[of "groupMembership _ _"]
proof (rule wpE_mono[OF wp_groupMembership[OF assms(1-3)]], goal_cases)
  case (1 m s1)
  obtain users clients groups where m: "m = (users, clients, groups)" by (cases m)
  let ?upd = "groupUpdateMembers obj"
  from 1 have s1: "same s s1" and mem: "\<And>k. isKind k \<Longrightarrow> set (selectKind k m []) = {who. (who, name) \<in> heldPairs k (stored s) og}"
    by auto
  have clear: "wpH (tryE (clearMembers og name) serverError (\<lambda>_.
      tryE (org_Put og groupsColl name (groupJSON name [] u c g)) serverError (\<lambda>_. writeRaw 200 (rq_body r)))) R s2"
    if s2: "same s s2" and ucg: "u = filter (known (stored s) og memberUsers) (orKept ?upd memberUsers users)"
      "c = filter (known (stored s) og memberClients) (orKept ?upd memberClients clients)"
      "g = filter (known (stored s) og memberGroups) (orKept ?upd memberGroups groups)" for u c g s2
    unfolding wpH_tryE
  proof (rule wp_clearMembers)
    fix s3 assume sw: "swept og groupMembersColl (\<lambda>key. hasPrefix key (name @ [CHR 0x00])) s2 s3"
    then have sw': "swept og groupMembersColl (\<lambda>key. hasPrefix key (name @ [CHR 0x00])) s s3"
      using s2 by (simp add: swept_def same_def)
    have sub: "\<forall>k. heldPairs k (stored s4) og \<subseteq> heldPairs k (stored s) og" if "same s3 s4" for s4
      using that sw' by (auto simp: heldPairs_def stored_same swept_def split: if_splits)
    show "wpE (org_Put og groupsColl name (groupJSON name [] u c g)) (\<lambda>_. wpH (writeRaw 200 (rq_body r)) R) (\<lambda>e. wpH (serverError e) R) s3"
      by (rule wp_Put) (use replaced_groupUpdated[where m = m and update = ?upd, OF sw' _ assms(3)] mem ucg m sub in \<open>simp_all add: wpH_replies ok err\<close>)
  next
    fix s3 assume "sweeping og groupMembersColl (\<lambda>key. hasPrefix key (name @ [CHR 0x00])) s2 s3"
    from heldPairs_sweeping[OF this] show "wpH (serverError ErrBackend) R s3"
      using s2 by (simp add: wpH_replies err stored_same)
  qed (use assms(1) s2 in \<open>simp add: same_def\<close>)
  have st: "stored s1 = stored s" using s1 by (rule stored_same)
  have "wpE (knownGroupMembers og u c g) (\<lambda>m s'. same s s' \<and>
       m = (filter (known (stored s) og memberUsers) u, filter (known (stored s) og memberClients) c,
            filter (known (stored s) og memberGroups) g)) (\<lambda>e s'. e = ErrBackend \<and> stored s' = stored s) s1" for u c g
    by (rule wpE_mono[OF wp_knownGroupMembers]) (auto simp: st stored_same dest: same_trans[OF s1])
  then show ?case
    unfolding m prod.case Let_def wpH_tryE[of "knownGroupMembers _ _ _ _"]
    by (rule wpE_mono) (auto simp: wpH_replies intro!: clear err)
next
  case (2 e s1)
  then show ?case by (auto simp: wpH_replies stored_same intro!: err)
qed

section \<open>Seeding\<close>

definition seeded :: "string \<Rightarrow> ((string \<times> string) \<times> body) list \<Rightarrow> body store \<Rightarrow> body store \<Rightarrow> bool" where
  "seeded og seeds s s' = (\<forall>og' c k. stored s' og' c k =
     (if og' = og \<and> stored s og c k = None then map_of seeds (c, k) else stored s og' c k))"

lemma seeded_append: "seeded og L s s1 \<Longrightarrow> seeded og L' s1 s2 \<Longrightarrow> seeded og (L @ L') s s2"
  unfolding seeded_def by (auto simp: map_add_def split: option.splits)

lemma seeded_same: "same s s' \<Longrightarrow> seeded og [] s s'"
  by (simp add: seeded_def same_def)

lemma wp_putIfMissing:
  "wpE (putIfMissing og c k doc) (\<lambda>_. seeded og [((c, k), doc)] s) (\<lambda>e s'. e = ErrBackend \<and> seeded og [] s s') s"
  unfolding putIfMissing_def wp
proof (rule wp_Get)
  fix s1 assume s1: "same s s1"
  then have st: "stored s1 = stored s" by (rule stored_same)
  have "seeded og [((c, k), doc)] s s1" if "stored s og c k \<noteq> None" using that by (auto simp: seeded_def st)
  moreover have "seeded og [((c, k), doc)] s s2" if "stored s og c k = None" "wrote og c k doc s1 s2" for s2
    using that(1) by (auto simp: seeded_def st stored_wrote[OF that(2)])
  moreover have "seeded og [] s s2" if "same s1 s2" for s2 using seeded_same[OF same_trans[OF s1 that]] .
  ultimately show "if stored s og c k = None
      then wpE (org_Put og c k doc) (\<lambda>_. seeded og [((c, k), doc)] s) (\<lambda>e s'. e = ErrBackend \<and> seeded og [] s s') s1
      else seeded og [((c, k), doc)] s s1"
    by (auto intro!: wp_Put)
qed (simp add: seeded_same)

lemma wp_seed_all:
  "wpE (forE ks (\<lambda>k. putIfMissing og c k (doc k))) (\<lambda>_. seeded og (map (\<lambda>k. ((c, k), doc k)) ks) s)
     (\<lambda>e s'. e = ErrBackend \<and> (\<exists>n. seeded og (take n (map (\<lambda>k. ((c, k), doc k)) ks)) s s')) s"
proof (induction ks arbitrary: s)
  case (Cons k ks)
  show ?case
    unfolding forE.simps wp
  proof (rule wpE_mono[OF wp_putIfMissing], goal_cases)
    case (1 x s1)
    note step = seeded_append[OF 1]
    have "\<exists>n. seeded og (take n (map (\<lambda>k. ((c, k), doc k)) (k # ks))) s s2"
      if "seeded og (take n (map (\<lambda>k. ((c, k), doc k)) ks)) s1 s2" for n s2
      using step[OF that] by (intro exI[of _ "Suc n"]) simp
    then show ?case by (intro wpE_mono[OF Cons.IH]) (use step in fastforce)+
  next
    case (2 e s1)
    then show ?case by (auto intro!: exI[of _ 0])
  qed
qed (simp add: wp seeded_same)

lemma map_of_take_None: "map_of xs k = None \<Longrightarrow> map_of (take n xs) k = None"
  by (force simp: map_of_eq_None_iff dest: in_set_takeD)

definition orgSeeds :: "((string \<times> string) \<times> body) list" where
  "orgSeeds = ((environmentsColl, ''_default''), defaultEnvironment) #
     map (\<lambda>g. ((groupsColl, g), groupJSON g [] [] [] (defaultGroupGroups g))) defaultGroups @
     map (\<lambda>c. ((containersColl, c), containerDoc c)) defaultContainers"

lemma wp_SeedOrg:
  "wpE (SeedOrg og) (\<lambda>_. seeded og orgSeeds s) (\<lambda>e s'. e = ErrBackend \<and> (\<exists>n. seeded og (take n orgSeeds) s s')) s"
proof -
  let ?env = "[((environmentsColl, ''_default''), defaultEnvironment)]"
  let ?gs = "map (\<lambda>g. ((groupsColl, g), groupJSON g [] [] [] (defaultGroupGroups g))) defaultGroups"
  let ?cs = "map (\<lambda>c. ((containersColl, c), containerDoc c)) defaultContainers"
  have seeds: "orgSeeds = ?env @ ?gs @ ?cs" by (simp add: orgSeeds_def)
  have take: "\<exists>n. seeded og (take n (xs @ ys)) s s2" if "seeded og xs s s1" "seeded og (take n ys) s1 s2" for xs ys n s1 s2
    using seeded_append[OF that] by (intro exI[of _ "length xs + n"]) simp
  have take': "\<exists>n. seeded og (take n (xs @ ys)) s s1" if "seeded og (take n xs) s s1" for xs ys n s1
    using that by (intro exI[of _ "min n (length xs)"]) (cases "n \<le> length xs"; simp add: min_def)
  show ?thesis
    unfolding SeedOrg_def seedAuthz_def wp
  proof (rule wpE_mono[OF wp_putIfMissing], goal_cases)
    case (1 x s1)
    show ?case
    proof (rule wpE_mono[OF wp_seed_all], goal_cases)
      case (1 y s2)
      then have eg: "seeded og (?env @ ?gs) s s2" using seeded_append[OF \<open>seeded og ?env s s1\<close>] by blast
      show ?case
        by (rule wpE_mono[OF wp_seed_all])
          (use seeded_append[OF eg] take[OF eg] in \<open>auto simp: seeds simp del: append_Cons append_Nil\<close>)
    next
      case (2 e s2)
      then obtain n where e: "e = ErrBackend" and "seeded og (take n ?gs) s1 s2" by blast
      from take[OF \<open>seeded og ?env s s1\<close> this(2)] obtain n' where "seeded og (take n' (?env @ ?gs)) s s2" by blast
      from take'[OF this, of ?cs] e show ?case unfolding seeds append_assoc by blast
    qed
  next
    case (2 e s1)
    then show ?case by (auto intro!: exI[of _ 0])
  qed
qed

section \<open>Properties\<close>

text \<open>C5. Deleting a group deletes every reference to it. When the endpoint answers 200, the group's
  document and ACL are gone, no ACL of the organization names it in any entry, no other group
  contains it, it has no members left by document or by row, and every other membership is as it
  was. With any other answer (a backend failure part-way included) the group's document is still
  there if it was, so the delete can be retried.\<close>

theorem deleteGroup_leaves_no_reference:
  assumes "wf_backend (backend s)" and "groupDocs (kv (backend s)) og" and "CHR 0x00 \<notin> set name"
  shows "wpH (deleteGroup og name) (\<lambda>res s'.
     if status res = 200
     then kv (backend s') og groupsColl name = None \<and>
          kv (backend s') og aclsColl (aclKey ''groups'' name) = None \<and>
          (\<forall>key raw. kv (backend s') og aclsColl key = Some raw \<longrightarrow>
             (\<forall>perm \<in> set aclPerms. name \<notin> set (storedNames ''groups'' perm raw))) \<and>
          (\<forall>k. isKind k \<longrightarrow> heldPairs k (kv (backend s')) og =
             {(who, g) \<in> heldPairs k (kv (backend s)) og. g \<noteq> name \<and> \<not> (k = memberGroups \<and> who = name)})
     else (kv (backend s') og groupsColl name = None) = (kv (backend s) og groupsColl name = None)) s"
  using assms by (rule wp_deleteGroup) (simp_all add: groupGone_def docKept_def)

theorem deleteGroup_leaves_no_reference_witness:
  "wpH (deleteGroup ''o'' ''ops'') (\<lambda>res s'. status res = 200 \<longrightarrow> kv (backend s') ''o'' groupsColl ''ops'' = None)
     (NewWithBackend (mem_set ''o'' groupsColl ''ops'' (groupJSON ''ops'' [] [''pat''] [] []) NewMemoryBackend))"
proof (rule wpH_mono[OF deleteGroup_leaves_no_reference])
  show "wf_backend (backend (NewWithBackend (mem_set ''o'' groupsColl ''ops'' (groupJSON ''ops'' [] [''pat''] [] []) NewMemoryBackend)))"
    by (simp add: NewWithBackend_def wf_NewMemoryBackend)
  show "groupDocs (kv (backend (NewWithBackend (mem_set ''o'' groupsColl ''ops'' (groupJSON ''ops'' [] [''pat''] [] []) NewMemoryBackend)))) ''o''"
    by (auto simp: groupDocs_def NewWithBackend_def store_simps isGroupDoc_groupJSON split: if_splits)
qed auto



text \<open>C36. Seeding an organization is complete and repeatable: when it succeeds, the default environment, groups
  and containers all exist, those that existed before are untouched, nothing else changed, and
  seeding again changes nothing.\<close>

theorem SeedOrg_complete:
  "wpE (SeedOrg og)
     (\<lambda>_ s'. (\<forall>og' c k. kv (backend s') og' c k =
          (if og' = og \<and> kv (backend s) og c k = None then map_of orgSeeds (c, k) else kv (backend s) og' c k)) \<and>
        wpE (SeedOrg og) (\<lambda>_ s''. kv (backend s'') = kv (backend s')) (\<lambda>e s''. kv (backend s'') = kv (backend s')) s')
     (\<lambda>e s'. e = ErrBackend) s"
proof -
  have again: "kv (backend s'') = kv (backend s')"
    if first: "seeded og orgSeeds s s'" and second: "seeded og (take n orgSeeds) s' s''" for s' s'' n
  proof (intro ext)
    fix og' c k
    have s': "stored s' og c k = (if stored s og c k = None then map_of orgSeeds (c, k) else stored s og c k)"
      using first by (simp add: seeded_def)
    have s'': "stored s'' og' c k = (if og' = og \<and> stored s' og c k = None then map_of (take n orgSeeds) (c, k) else stored s' og' c k)"
      using second by (simp add: seeded_def)
    have "stored s' og c k = None \<Longrightarrow> map_of (take n orgSeeds) (c, k) = None"
      unfolding s' by (rule map_of_take_None) (simp split: if_splits)
    then show "stored s'' og' c k = stored s' og' c k" unfolding s'' by (cases "og' = og") simp_all
  qed
  show ?thesis
  proof (rule wpE_mono[OF wp_SeedOrg], goal_cases)
    case (1 x s')
    have "wpE (SeedOrg og) (\<lambda>_ s''. kv (backend s'') = kv (backend s')) (\<lambda>e s''. kv (backend s'') = kv (backend s')) s'"
      by (rule wpE_mono[OF wp_SeedOrg]) (use again[OF 1, of "length orgSeeds"] again[OF 1] in auto)
    with 1 show ?case unfolding seeded_def by blast
  qed blast
qed

text \<open>C37. Creating a group that already exists destroys memberships: the endpoint answers 409, but by then every
  incremental membership row of the existing group has been deleted.\<close>

theorem createGroup_conflict_drops_members:
  assumes "wf_backend (backend s)" and "og \<in> set (orgs (backend s))" and "kv (backend s) og groupsColl name \<noteq> None"
    and "UnmarshalMap (rq_body r) = Some obj" and "groupName obj = name" and "groupNameRE name"
  shows "wpH (createGroup r og) (\<lambda>res s'. res = Failure ErrBackend \<or>
     status res = 409 \<and> (\<forall>key. hasPrefix key (name @ [CHR 0x00]) \<longrightarrow> kv (backend s') og groupMembersColl key = None)) s"
    (is "wpH _ ?R s")
proof -
  obtain u c g where m: "groupMembers obj = (u, c, g)" by (metis prod_cases3)
  have ne: "name \<noteq> []" using assms(6) by (simp add: groupNameRE_def)
  have "wpH (tryE (clearMembers og name) serverError (\<lambda>_. tryE (org_Create og groupsColl name (groupJSON name [] u c g))
      (\<lambda>e. if e = ErrConflict then writeError 409 [''Object already exists''] else serverError e)
      (\<lambda>_. writeJSON 201 (JObj [(''uri'', JStr (objectURL r og ''groups'' name))])))) ?R s1" if s1: "same s s1" for s1
    unfolding wpH_tryE
  proof (rule wp_clearMembers)
    fix s2 assume sw: "swept og groupMembersColl (\<lambda>key. hasPrefix key (name @ [CHR 0x00])) s1 s2"
    then have st: "stored s2 og groupsColl name \<noteq> None"
      "\<forall>key. hasPrefix key (name @ [CHR 0x00]) \<longrightarrow> stored s2 og groupMembersColl key = None"
      using assms(3) s1 by (simp_all add: swept_def same_def)
    show "wpE (org_Create og groupsColl name (groupJSON name [] u c g))
        (\<lambda>_. wpH (writeJSON 201 (JObj [(''uri'', JStr (objectURL r og ''groups'' name))])) ?R)
        (\<lambda>e. wpH (if e = ErrConflict then writeError 409 [''Object already exists''] else serverError e) ?R) s2"
      by (rule wp_Create) (use st in \<open>simp_all add: wpH_replies stored_same\<close>)
  qed (use assms(1) s1 in \<open>simp_all add: same_def wpH_replies\<close>)
  then show ?thesis
    unfolding createGroup_def assms(4) option.case Let_def assms(5) m prod.case using assms(2,6) ne
    by (intro wp_withOrg) simp_all
qed

theorem createGroup_conflict_drops_members_witness:
  "wpH (createGroup \<lparr>rq_Method = ''POST'', rq_Path = [], rq_body = Doc (JObj [(''name'', JStr ''ops'')]), rq_actor = None,
       rq_base = [], rq_preread = None, rq_apiVersion = [], rq_query = []\<rparr> ''o'')
     (\<lambda>res s'. res = Failure ErrBackend \<or> status res = 409 \<and> kv (backend s') ''o'' groupMembersColl (memberKey ''ops'' memberUsers ''pat'') = None)
     (NewWithBackend ((mem_set ''o'' groupMembersColl (memberKey ''ops'' memberUsers ''pat'') (Doc (JObj []))
        (mem_set ''o'' groupsColl ''ops'' (groupJSON ''ops'' [] [] [] []) NewMemoryBackend))\<lparr>orgs := [''o'']\<rparr>))"
proof (rule wpH_mono[OF createGroup_conflict_drops_members[where name = "''ops''" and obj = "[(''name'', JStr ''ops'')]"]], goal_cases)
  case 1
  show ?case by (simp add: NewWithBackend_def wf_backend_orgs wf_NewMemoryBackend)
next
  case (7 res s')
  then show ?case by (auto simp: memberKey_def hasPrefix_def)
qed (simp_all add: NewWithBackend_def store_simps UnmarshalMap_def groupName_def strField_def groupNameRE_def groupNameChar_def isDigit_def)

text \<open>C38. An update can bring a deleted group back. The existence check that runs under the lock is answered
  from the copy of the group that authorization fetched, not from the store: when the request
  carries that copy and the group has been deleted since, the update still answers 200 and the
  group exists again.\<close>

theorem putGroup_resurrects_deleted_group:
  assumes "wf_backend (backend s)" and "groupDocs (kv (backend s)) og" and "CHR 0x00 \<notin> set name"
    and "og \<in> set (orgs (backend s))" and "kv (backend s) og groupsColl name = None"
    and "prereadFrom r og groupsColl name = Some raw" and "DecodeObject (rq_body r) = Some obj"
  shows "wpH (putGroup r og name) (\<lambda>res s'. res = Failure ErrBackend \<or>
     status res = 200 \<and> kv (backend s') og groupsColl name \<noteq> None) s"
    (is "wpH _ ?R s")
proof -
  have upd: "wpH (replaceGroup r og name obj) ?R s'" if s': "same s s'" for s'
    by (rule wp_replaceGroup) (use assms s' in \<open>auto simp: same_def groupUpdated_def\<close>)
  show ?thesis
    unfolding putGroup_def assms(7) option.case
    by (intro wp_withOrg wp_existsThen) (use assms(4,6) upd in \<open>auto dest: same_trans\<close>)
qed


theorem putGroup_resurrects_deleted_group_witness:
  "wpH (putGroup \<lparr>rq_Method = ''PUT'', rq_Path = [], rq_body = Doc (JObj []), rq_actor = None, rq_base = [],
       rq_preread = Some (''o'', groupsColl, ''ops'', groupJSON ''ops'' [] [] [] []), rq_apiVersion = [], rq_query = []\<rparr> ''o'' ''ops'')
     (\<lambda>res s'. res = Failure ErrBackend \<or> status res = 200 \<and> kv (backend s') ''o'' groupsColl ''ops'' \<noteq> None)
     (NewWithBackend (NewMemoryBackend\<lparr>orgs := [''o'']\<rparr>))"
proof (rule putGroup_resurrects_deleted_group[where obj = "[]"])
  show "wf_backend (backend (NewWithBackend (NewMemoryBackend\<lparr>orgs := [''o'']\<rparr>) :: body store))"
    by (simp add: NewWithBackend_def wf_backend_orgs wf_NewMemoryBackend)
  show "DecodeObject (rq_body \<lparr>rq_Method = ''PUT'', rq_Path = [], rq_body = Doc (JObj []), rq_actor = None, rq_base = [],
       rq_preread = Some (''o'', groupsColl, ''ops'', groupJSON ''ops'' [] [] [] []), rq_apiVersion = [], rq_query = []\<rparr>) = Some []"
    by code_simp
qed (simp_all add: groupDocs_def NewWithBackend_def store_simps prereadFrom_def)

end
