(* ===== verification/Go_Numbers.thy ===== *)
theory Go_Numbers
  imports Chef_Json
begin

text \<open>Go's \<^verbatim>\<open>int\<close>, which is 64 bits wide: \<open>parseInt\<close> is \<^verbatim>\<open>strconv.Atoi\<close>, with the value it returns beside an
  error, \<open>wrap64\<close> is the wrap-around of an addition, and \<open>itoa\<close> (\<^verbatim>\<open>strconv.Itoa\<close>) prints what
  \<open>parseInt\<close> reads.\<close>

section \<open>Integers\<close>

definition maxInt :: int where "maxInt = 2 ^ 63 - 1"
definition minInt :: int where "minInt = - (2 ^ 63)"

definition wrap64 :: "int \<Rightarrow> int" where
  "wrap64 i = (i + 2 ^ 63) mod 2 ^ 64 - 2 ^ 63"

definition decVal :: "string \<Rightarrow> nat" where
  "decVal ds = foldl (\<lambda>n c. n * 10 + (of_char c - 48)) 0 ds"

text \<open>The value and whether there was an error; an error of range comes with the nearest bound.\<close>

definition parseInt :: "string \<Rightarrow> int \<times> bool" where
  "parseInt s =
     (let neg = (s \<noteq> [] \<and> hd s = CHR ''-'');
          digits = (if s \<noteq> [] \<and> (hd s = CHR ''-'' \<or> hd s = CHR ''+'') then tl s else s);
          n = int (decVal digits)
      in if digits = [] \<or> \<not> list_all isDigit digits then (0, True)
         else if neg then (if n > 2 ^ 63 then (minInt, True) else (- n, False))
         else (if n > maxInt then (maxInt, True) else (n, False)))"

section \<open>Printing and parsing a number\<close>

lemma digit_char: "d < 10 \<Longrightarrow> isDigit (char_of (48 + d :: nat)) \<and> of_char (char_of (48 + d :: nat) :: char) - (48 :: nat) = d"
proof -
  assume "d < 10"
  then have "d \<in> {0, 1, 2, 3, 4, 5, 6, 7, 8, 9}" by auto
  then show ?thesis by (elim insertE) (auto, code_simp+)
qed

lemma decVal_snoc: "decVal (ds @ [c]) = decVal ds * 10 + (of_char c - 48)"
  by (simp add: decVal_def)

lemma itoaNat_dec: "itoaNat n \<noteq> [] \<and> list_all isDigit (itoaNat n) \<and> decVal (itoaNat n) = n"
proof (induction n rule: itoaNat.induct)
  case (1 n)
  show ?case
  proof (cases "n < 10")
    case True
    then show ?thesis using digit_char[of n] by (subst (1 2 3) itoaNat.simps) (simp add: decVal_def)
  next
    case False
    have d: "n mod 10 < 10" by simp
    show ?thesis using 1 False digit_char[OF d] by (subst (1 2 3) itoaNat.simps) (simp add: decVal_snoc)
  qed
qed

lemma digit_no_sign: "isDigit c \<Longrightarrow> c \<noteq> CHR ''-'' \<and> c \<noteq> CHR ''+'' \<and> c \<noteq> CHR ''.'' \<and> \<not> isSpaceChar c"
  by (auto simp: isDigit_def isSpaceChar_def less_eq_char_def)

lemma parseInt_itoa: "0 \<le> n \<Longrightarrow> n \<le> maxInt \<Longrightarrow> parseInt (itoa n) = (n, False)"
proof -
  assume n: "0 \<le> n" "n \<le> maxInt"
  note d = itoaNat_dec[of "nat n"]
  then have "isDigit (hd (itoaNat (nat n)))" by (metis list.set_sel(1) list_all_iff)
  with d n show ?thesis by (auto simp: parseInt_def itoa_def Let_def dest: digit_no_sign)
qed

end
