(* ===== verification/Server_Endpoints.thy ===== *)
theory Server_Endpoints
  imports Http_Reply Go_Numbers
begin

text \<open>The negotiation of the server API version and the endpoints that read nothing but the request
  (\<^verbatim>\<open>src/internal/api/server_endpoints.go\<close>).

  \<open>withAPIVersion\<close> answers the negotiation header beside the response; it is \<open>versionHeader\<close> of the version asked
  for and the one answered. \<open>quoted\<close> is \<^verbatim>\<open>strconv.Quote\<close> on printable text.\<close>

definition apiVersionMin :: int where "apiVersionMin = 0"
definition apiVersionMax :: int where "apiVersionMax = 2"

definition parseAPIVersion :: "string \<Rightarrow> int \<times> bool" where
  "parseAPIVersion header =
     (let h = trimSpace header in
      if h = [] then (apiVersionMin, True)
      else (let (n, err) = parseInt h in if err then (0, False) else (n, True)))"

definition requestAPIVersion :: "request \<Rightarrow> int" where
  "requestAPIVersion r = fst (parseAPIVersion (rq_apiVersion r))"

definition versionHeader :: "int \<Rightarrow> int \<Rightarrow> json" where
  "versionHeader requested response =
     JObj [(''max_version'', JStr (itoa apiVersionMax)), (''min_version'', JStr (itoa apiVersionMin)),
       (''request_version'', JStr (itoa requested)), (''response_version'', JStr (itoa response))]"

definition quoted :: "string \<Rightarrow> string" where
  "quoted s = CHR 0x22 # concat (map (\<lambda>c. if c = CHR 0x22 \<or> c = CHR 0x5C then [CHR 0x5C, c] else [c]) s) @ [CHR 0x22]"

definition withAPIVersion :: "(request \<Rightarrow> handler) \<Rightarrow> request \<Rightarrow> body store \<Rightarrow> json \<times> response \<times> body store" where
  "withAPIVersion nextH r s =
     (case parseAPIVersion (rq_apiVersion r) of
        (_, False) \<Rightarrow> (versionHeader apiVersionMin apiVersionMin,
          writeError 400 [''Invalid X-Ops-Server-API-Version header value '' @
            quoted (trimSpace (rq_apiVersion r)) @ ''; expected an integer.''] s)
      | (requested, True) \<Rightarrow>
          (versionHeader requested (min (max requested apiVersionMin) apiVersionMax),
           if requested < apiVersionMin \<or> requested > apiVersionMax then
             writeError 406 [''Unsupported server API version '' @ itoa requested @ ''; this server supports versions '' @
               itoa apiVersionMin @ '' through '' @ itoa apiVersionMax @ ''.''] s
           else nextH r s))"

definition serverAPIVersion :: "request \<Rightarrow> handler" where
  "serverAPIVersion r =
     (let requested = JNum (itoa (requestAPIVersion r)) in
      writeJSON 200 (JObj [(''max_api_version'', JNum (itoa apiVersionMax)), (''min_api_version'', JNum (itoa apiVersionMin)),
        (''request_version'', requested), (''response_version'', requested)]))"

definition license :: handler where
  "license = writeJSON 200 (JObj [(''limit_exceeded'', JBool False), (''node_count'', JNum ''0''),
     (''node_license'', JNum ''25''), (''upgrade_url'', JStr ''https://www.chef.io/contact-us/'')])"

definition requiredRecipe :: handler where
  "requiredRecipe = writeError 404 [''Required recipe is not configured on this server.'']"

section \<open>The versions that reach a handler\<close>

text \<open>A handler behind the negotiation sees one of the supported versions, and every other request is
  answered before it runs, with the store untouched.\<close>

lemma withAPIVersion_cases:
  obtains (run) "requestAPIVersion r \<in> {0, 1, 2}"
      "snd (withAPIVersion nextH r s) = nextH r s"
  | (refused) code m where "code \<in> {400, 406}" "snd (withAPIVersion nextH r s) = (Reply code m, s)"
proof -
  obtain v ok where v: "parseAPIVersion (rq_apiVersion r) = (v, ok)" by fastforce
  show thesis
  proof (cases "ok \<and> 0 \<le> v \<and> v \<le> 2")
    case True
    then have "v = 0 \<or> v = 1 \<or> v = 2" by auto
    with True v show thesis
      by (intro run) (auto simp: requestAPIVersion_def withAPIVersion_def apiVersionMin_def apiVersionMax_def)
  next
    case False
    with v show thesis
      by (cases ok) (auto simp: withAPIVersion_def apiVersionMin_def apiVersionMax_def writeError_def writeJSON_def
          intro: refused[of 400] refused[of 406])
  qed
qed

end
