(* ===== verification/Cookbook_Version.thy ===== *)
theory Cookbook_Version
  imports Go_Numbers "HOL-Library.Multiset"
begin

text \<open>Cookbook versions and version constraints (\<^verbatim>\<open>src/internal/api/constraint.go\<close>,
  \<^verbatim>\<open>constraint_valid.go\<close>, \<^verbatim>\<open>compareVersions\<close> of \<^verbatim>\<open>cookbooks.go\<close>).

  The order on valid versions is shown to be
  the numeric one, \<open>versionKey\<close>; on other strings it is not even transitive.\<close>

section \<open>The order on versions\<close>

definition stringsCompare :: "string \<Rightarrow> string \<Rightarrow> int" where
  "stringsCompare a b = (if a < b then -1 else if a = b then 0 else 1)"

text \<open>One turn of the loop; \<open>rest\<close> is what the remaining segments say.\<close>

definition cmpSeg :: "string \<Rightarrow> string \<Rightarrow> int \<Rightarrow> int" where
  "cmpSeg av bv rest =
     (if av = bv then rest
      else (let (an, aerr) = parseInt av; (bn, berr) = parseInt bv in
        if aerr \<or> berr then stringsCompare av bv
        else if an \<noteq> bn then (if an < bn then -1 else 1)
        else rest))"

fun cmpSegs :: "string list \<Rightarrow> string list \<Rightarrow> int" where
  "cmpSegs [] [] = 0"
| "cmpSegs (a # as) [] = cmpSeg a ''0'' (cmpSegs as [])"
| "cmpSegs [] (b # bs) = cmpSeg ''0'' b (cmpSegs [] bs)"
| "cmpSegs (a # as) (b # bs) = cmpSeg a b (cmpSegs as bs)"

definition compareVersions :: "string \<Rightarrow> string \<Rightarrow> int" where
  "compareVersions a b = cmpSegs (splitOn CHR ''.'' a) (splitOn CHR ''.'' b)"

section \<open>Constraints\<close>

fun splitAny :: "string list \<Rightarrow> string \<Rightarrow> string \<times> string" where
  "splitAny [] c = ([], c)"
| "splitAny (candidate # cs) c =
     (if hasPrefix c candidate then (candidate, trimSpace (drop (length candidate) c)) else splitAny cs c)"

definition splitConstraint :: "string \<Rightarrow> string \<times> string" where
  "splitConstraint c = splitAny [''~>'', ''>='', ''<='', ''=='', ''!='', ''='', ''>'', ''<''] c"

definition pessimisticUpper :: "string \<Rightarrow> string" where
  "pessimisticUpper ver =
     (let ps = splitOn CHR ''.'' ver;
          parts = (if length ps > 1 then butlast ps else ps);
          n = fst (parseInt (last parts))
      in joinWith ''.'' (butlast parts @ [itoa (wrap64 (n + 1))]))"

definition satisfiesConstraint :: "string \<Rightarrow> string \<Rightarrow> bool" where
  "satisfiesConstraint version constraint =
     (let c = trimSpace constraint in
      if c = [] then True
      else (let (oper, ver) = splitConstraint c; cmp = compareVersions version ver in
        if oper = ''='' \<or> oper = ''=='' then cmp = 0
        else if oper = ''!='' then cmp \<noteq> 0
        else if oper = ''>'' then cmp > 0
        else if oper = ''<'' then cmp < 0
        else if oper = ''>='' then cmp \<ge> 0
        else if oper = ''<='' then cmp \<le> 0
        else if oper = ''~>'' then cmp \<ge> 0 \<and> compareVersions version (pessimisticUpper ver) < 0
        else cmp = 0))"

definition validSegment :: "string \<Rightarrow> bool" where
  "validSegment p = (let (n, err) = parseInt p in \<not> (err \<or> n < 0))"

definition validCookbookVersion :: "string \<Rightarrow> bool" where
  "validCookbookVersion version =
     (let parts = splitOn CHR ''.'' version in length parts \<le> 3 \<and> list_all validSegment parts)"

fun cutAny :: "string list \<Rightarrow> string \<Rightarrow> string" where
  "cutAny [] c = c"
| "cutAny (p # ps) c = (case cutPrefix c p of Some rest \<Rightarrow> rest | None \<Rightarrow> cutAny ps c)"

definition validCookbookConstraint :: "string \<Rightarrow> bool" where
  "validCookbookConstraint c = validCookbookVersion (cutAny [''< '', ''> '', ''<= '', ''>= '', ''~> '', ''= ''] c)"

section \<open>Sorting\<close>

text \<open>\<^verbatim>\<open>sort.Slice\<close> promises a permutation, sorted when the comparison is a strict weak order; it is not
  stable. The contract is the locale; insertion, which the library uses for short slices, meets it.\<close>

definition weakOrderOn :: "('a \<Rightarrow> 'a \<Rightarrow> bool) \<Rightarrow> 'a set \<Rightarrow> bool" where
  "weakOrderOn before A = (\<forall>x \<in> A. \<forall>y \<in> A. \<forall>z \<in> A. \<not> before x x \<and>
     (before x y \<longrightarrow> before y z \<longrightarrow> before x z) \<and> (before x z \<longrightarrow> before x y \<or> before y z))"

lemma weakOrderOn_mono: "weakOrderOn before A \<Longrightarrow> B \<subseteq> A \<Longrightarrow> weakOrderOn before B"
  unfolding weakOrderOn_def by (meson subsetD)

lemma weakOrderOn_trans:
  "weakOrderOn before A \<Longrightarrow> before x y \<Longrightarrow> before y z \<Longrightarrow> x \<in> A \<Longrightarrow> y \<in> A \<Longrightarrow> z \<in> A \<Longrightarrow> before x z"
  "weakOrderOn before A \<Longrightarrow> x \<in> A \<Longrightarrow> \<not> before x x"
  unfolding weakOrderOn_def by meson+

locale slice_sort =
  fixes sorter :: "('a \<Rightarrow> 'a \<Rightarrow> bool) \<Rightarrow> 'a list \<Rightarrow> 'a list"
  assumes sorter_perm: "mset (sorter before xs) = mset xs"
    and sorter_sorted: "weakOrderOn before (set xs) \<Longrightarrow> sorted_wrt (\<lambda>x y. \<not> before y x) (sorter before xs)"
begin

lemma set_sorter: "set (sorter before xs) = set xs"
  using sorter_perm by (metis set_mset_mset)

lemma sorter_head:
  assumes "weakOrderOn before (set xs)" and "sorter before xs = x # rest" and "y \<in> set xs"
  shows "x \<in> set xs \<and> \<not> before y x"
proof -
  have "y \<in> set (x # rest)" "x \<in> set xs" using set_sorter[of before xs] assms(2,3) by auto
  with sorter_sorted[OF assms(1)] assms(1,2) show ?thesis by (auto dest: weakOrderOn_trans(2))
qed

lemma sorter_Nil [simp]: "sorter before xs = [] \<longleftrightarrow> xs = []"
  by (metis set_sorter set_empty)

end

fun insertBy :: "('a \<Rightarrow> 'a \<Rightarrow> bool) \<Rightarrow> 'a \<Rightarrow> 'a list \<Rightarrow> 'a list" where
  "insertBy before x [] = [x]"
| "insertBy before x (y # ys) = (if before x y then x # y # ys else y # insertBy before x ys)"

definition sortSlice :: "('a \<Rightarrow> 'a \<Rightarrow> bool) \<Rightarrow> 'a list \<Rightarrow> 'a list" where
  "sortSlice before xs = foldl (\<lambda>acc x. insertBy before x acc) [] xs"

lemma mset_insertBy [simp]: "mset (insertBy before x ys) = add_mset x (mset ys)"
  by (induction ys) auto

lemma set_insertBy [simp]: "set (insertBy before x ys) = insert x (set ys)"
  using mset_insertBy[of before x ys] by (metis set_mset_add_mset_insert set_mset_mset)

lemma sorted_insertBy:
  assumes "weakOrderOn before (insert x (set ys))" and "sorted_wrt (\<lambda>a b. \<not> before b a) ys"
  shows "sorted_wrt (\<lambda>a b. \<not> before b a) (insertBy before x ys)"
  using assms
proof (induction ys)
  case (Cons y ys)
  have "weakOrderOn before (insert x (set ys))" using Cons.prems(1) by (rule weakOrderOn_mono) auto
  with Cons.IH Cons.prems(2) have IH: "sorted_wrt (\<lambda>a b. \<not> before b a) (insertBy before x ys)" by simp
  show ?case
  proof (cases "before x y")
    case True
    note order = weakOrderOn_trans[OF Cons.prems(1)]
    have "\<not> before z x" if z: "z \<in> set (y # ys)" for z
    proof
      assume "before z x"
      then have "before z y" using order(1)[OF _ True] z by auto
      then show False using z order(2) Cons.prems(2) by auto
    qed
    with Cons.prems True show ?thesis by simp
  qed (use IH Cons.prems in simp)
qed simp

lemma sortSlice_laws:
  "mset (sortSlice before xs) = mset xs"
  "weakOrderOn before (set xs) \<Longrightarrow> sorted_wrt (\<lambda>a b. \<not> before b a) (sortSlice before xs)"
proof -
  have m: "mset (foldl (\<lambda>acc x. insertBy before x acc) acc xs) = mset acc + mset xs" for acc
    by (induction xs arbitrary: acc) auto
  have s: "weakOrderOn before (set acc \<union> set xs) \<Longrightarrow> sorted_wrt (\<lambda>a b. \<not> before b a) acc \<Longrightarrow>
      sorted_wrt (\<lambda>a b. \<not> before b a) (foldl (\<lambda>acc x. insertBy before x acc) acc xs)" for acc
  proof (induction xs arbitrary: acc)
    case (Cons x xs)
    have "weakOrderOn before (insert x (set acc))" using Cons.prems(1) by (rule weakOrderOn_mono) auto
    from sorted_insertBy[OF this Cons.prems(2)] Cons show ?case by simp
  qed simp
  show "mset (sortSlice before xs) = mset xs" by (simp add: sortSlice_def m)
  show "weakOrderOn before (set xs) \<Longrightarrow> sorted_wrt (\<lambda>a b. \<not> before b a) (sortSlice before xs)"
    by (simp add: sortSlice_def s)
qed

interpretation slice: slice_sort sortSlice
  by unfold_locales (simp_all add: sortSlice_laws)


section \<open>The numeric order\<close>

definition versionNums :: "string \<Rightarrow> int list" where
  "versionNums v = map (\<lambda>p. fst (parseInt p)) (splitOn CHR ''.'' v)"

text \<open>Comparing number lists, the shorter one continued by zeros.\<close>

fun cmpNums :: "int list \<Rightarrow> int list \<Rightarrow> int" where
  "cmpNums [] [] = 0"
| "cmpNums (x # xs) [] = (if x = 0 then cmpNums xs [] else if x < 0 then -1 else 1)"
| "cmpNums [] (y # ys) = (if y = 0 then cmpNums [] ys else if 0 < y then -1 else 1)"
| "cmpNums (x # xs) (y # ys) = (if x = y then cmpNums xs ys else if x < y then -1 else 1)"

fun stripZeros :: "int list \<Rightarrow> int list" where
  "stripZeros [] = []"
| "stripZeros (x # xs) = (let r = stripZeros xs in if x = 0 \<and> r = [] then [] else x # r)"

definition versionKey :: "string \<Rightarrow> int list" where
  "versionKey v = stripZeros (versionNums v)"

lemma cmpNums_stripZeros:
  "list_all (\<lambda>x. 0 \<le> x) xs \<Longrightarrow> list_all (\<lambda>y. 0 \<le> y) ys \<Longrightarrow>
   cmpNums xs ys = (if stripZeros xs < stripZeros ys then -1 else if stripZeros xs = stripZeros ys then 0 else 1)"
proof -
  have "([] < zs) = (zs \<noteq> [])" for zs :: "int list" by (cases zs) simp_all
  then show "list_all (\<lambda>x. 0 \<le> x) xs \<Longrightarrow> list_all (\<lambda>y. 0 \<le> y) ys \<Longrightarrow> ?thesis"
    by (induction xs ys rule: cmpNums.induct) (auto simp: Let_def)
qed

lemma parseInt_zero: "parseInt ''0'' = (0, False)"
  by code_simp

lemma cmpSegs_nums:
  "list_all validSegment as \<Longrightarrow> list_all validSegment bs \<Longrightarrow>
   cmpSegs as bs = cmpNums (map (\<lambda>p. fst (parseInt p)) as) (map (\<lambda>p. fst (parseInt p)) bs)"
  by (induction as bs rule: cmpSegs.induct)
    (auto simp: cmpSeg_def validSegment_def parseInt_zero Let_def split: prod.splits)

lemma validSegment_nonneg: "validSegment p \<Longrightarrow> 0 \<le> fst (parseInt p)"
  by (auto simp: validSegment_def Let_def split: prod.splits)

definition validSegments :: "string \<Rightarrow> bool" where
  "validSegments v = list_all validSegment (splitOn CHR ''.'' v)"

lemma valid_validSegments: "validCookbookVersion v \<Longrightarrow> validSegments v"
  by (simp add: validCookbookVersion_def validSegments_def Let_def)

lemma versionNums_nonneg: "validSegments v \<Longrightarrow> list_all (\<lambda>x. 0 \<le> x) (versionNums v)"
  by (auto simp: validSegments_def versionNums_def list_all_iff validSegment_nonneg)

lemma compareVersions_nums:
  "validSegments a \<Longrightarrow> validSegments b \<Longrightarrow> compareVersions a b = cmpNums (versionNums a) (versionNums b)"
  by (simp add: compareVersions_def validSegments_def versionNums_def cmpSegs_nums)

lemma compareVersions_key:
  "validSegments a \<Longrightarrow> validSegments b \<Longrightarrow> compareVersions a b =
     (if versionKey a < versionKey b then -1 else if versionKey a = versionKey b then 0 else 1)"
  by (simp add: compareVersions_nums cmpNums_stripZeros versionNums_nonneg versionKey_def)

lemma validSegment_itoa: "0 \<le> n \<Longrightarrow> n \<le> maxInt \<Longrightarrow> validSegment (itoa n)"
  by (simp add: validSegment_def parseInt_itoa)

lemma validSegment_chars: "validSegment p \<Longrightarrow> p \<noteq> [] \<and> list_all (\<lambda>c. isDigit c \<or> c = CHR ''-'' \<or> c = CHR ''+'') p"
  by (cases p) (auto simp: validSegment_def parseInt_def Let_def list_all_iff split: if_splits)

lemma validSegment_max: "validSegment p \<Longrightarrow> fst (parseInt p) \<le> maxInt"
  by (auto simp: validSegment_def parseInt_def Let_def maxInt_def split: if_splits prod.splits)


section \<open>The pessimistic operator\<close>

text \<open>The first components of a number list, continued by zeros.\<close>

fun padTake :: "nat \<Rightarrow> int list \<Rightarrow> int list" where
  "padTake 0 ys = []"
| "padTake (Suc n) [] = 0 # padTake n []"
| "padTake (Suc n) (y # ys) = y # padTake n ys"

lemma cmpNums_zero: "list_all (\<lambda>y. 0 \<le> y) ys \<Longrightarrow> 0 \<le> cmpNums ys [] \<and> cmpNums [] ys \<le> 0"
  by (induction ys) auto

text \<open>Between a list and the successor of one of its prefixes are the lists that share that prefix.\<close>

lemma prefix_interval:
  "list_all (\<lambda>y. 0 \<le> y) ys \<Longrightarrow> list_all (\<lambda>x. 0 \<le> x) front \<Longrightarrow> 0 \<le> m \<Longrightarrow> cmpNums (front @ m # rest) ys \<le> 0 \<Longrightarrow>
   cmpNums ys (front @ [m + 1]) < 0 \<longleftrightarrow> padTake (Suc (length front)) ys = front @ [m]"
proof (induction front arbitrary: ys)
  case Nil
  then show ?case using cmpNums_zero[of "tl ys"] by (cases ys) (auto split: if_splits)
next
  case (Cons x front)
  then show ?case by (cases ys) (auto split: if_splits)
qed

lemma splitOn_segments: "validSegments v \<Longrightarrow> p \<in> set (splitOn CHR ''.'' v) \<Longrightarrow> validSegment p"
  by (simp add: validSegments_def list_all_iff)

text \<open>The segment that may move, and those before it.\<close>

definition pinned :: "string \<Rightarrow> int list" where
  "pinned ver = (let ns = versionNums ver in if length ns > 1 then butlast ns else ns)"

lemma pinned_prefix: "\<exists>rest. versionNums ver = butlast (pinned ver) @ last (pinned ver) # rest"
proof -
  have ne: "versionNums ver \<noteq> []" by (simp add: versionNums_def)
  show ?thesis
  proof (cases "length (versionNums ver) > 1")
    case True
    then have "butlast (versionNums ver) \<noteq> []" by (cases "versionNums ver" rule: rev_cases) auto
    then have "versionNums ver = butlast (butlast (versionNums ver)) @ last (butlast (versionNums ver)) # [last (versionNums ver)]"
      using ne by (metis append.assoc append_Cons append_Nil append_butlast_last_id)
    with True show ?thesis by (auto simp: pinned_def Let_def)
  next
    case False
    then show ?thesis using ne by (intro exI[of _ "[]"]) (simp add: pinned_def Let_def)
  qed
qed

lemma pinned_nonempty: "pinned ver \<noteq> []"
proof -
  have "butlast ns \<noteq> []" if "length ns > 1" for ns :: "int list" using that by (cases ns rule: rev_cases) auto
  then show ?thesis by (simp add: pinned_def versionNums_def Let_def)
qed

lemma pessimisticUpper_nums:
  assumes "validSegments ver" and "last (pinned ver) < maxInt"
  shows "validSegments (pessimisticUpper ver) \<and> versionNums (pessimisticUpper ver) = butlast (pinned ver) @ [last (pinned ver) + 1]"
proof -
  let ?ps = "splitOn CHR ''.'' ver"
  define parts where "parts = (if length ?ps > 1 then butlast ?ps else ?ps)"
  let ?n = "fst (parseInt (last parts))"
  have "butlast ?ps \<noteq> []" if "length ?ps > 1" using that by (cases ?ps rule: rev_cases) auto
  then have parts: "parts \<noteq> []" "set parts \<subseteq> set ?ps"
    by (simp_all add: parts_def) (auto dest: in_set_butlastD)
  have pin: "pinned ver = map (\<lambda>p. fst (parseInt p)) parts"
    by (simp add: pinned_def versionNums_def parts_def Let_def map_butlast)
  then have n: "last (pinned ver) = ?n" "butlast (pinned ver) = map (\<lambda>p. fst (parseInt p)) (butlast parts)"
    using parts by (simp_all add: last_map map_butlast)
  have valid: "list_all validSegment parts"
    using assms(1) parts(2) by (auto simp: validSegments_def list_all_iff)
  then have n0: "0 \<le> ?n" using parts(1) validSegment_nonneg by (simp add: list_all_iff)
  then have wrap: "wrap64 (?n + 1) = ?n + 1" using assms(2) n by (simp add: wrap64_def maxInt_def)
  let ?segs = "butlast parts @ [itoa (?n + 1)]"
  have vs: "list_all validSegment ?segs"
    using valid n0 assms(2) n by (auto simp: list_all_iff validSegment_itoa dest: in_set_butlastD)
  then have "CHR ''.'' \<notin> set w" if "w \<in> set ?segs" for w
    using that validSegment_chars[of w] by (auto simp: list_all_iff dest: digit_no_sign)
  then have "splitOn CHR ''.'' (joinWith ''.'' ?segs) = ?segs" by (intro splitOn_joinWith) auto
  moreover have "pessimisticUpper ver = joinWith ''.'' ?segs"
    unfolding pessimisticUpper_def Let_def parts_def[symmetric] wrap ..
  moreover have "parseInt (itoa (?n + 1)) = (?n + 1, False)" using n0 assms(2) n by (intro parseInt_itoa) auto
  ultimately show ?thesis using vs by (simp add: validSegments_def versionNums_def n)
qed

lemma valid_no_spaces:
  assumes "validSegments ver"
  shows "list_all (\<lambda>c. \<not> isSpaceChar c) ver" and "ver \<noteq> []"
proof -
  have "\<not> isSpaceChar c" if "c \<in> set (joinWith ''.'' ws)" "list_all validSegment ws" for c ws
    using that
  proof (induction "''.''" ws rule: joinWith.induct)
    case (2 w)
    then show ?case using validSegment_chars[of w] by (auto simp: list_all_iff isSpaceChar_def isDigit_def)
  next
    case (3 w v ws)
    then show ?case using validSegment_chars[of w] by (auto simp: list_all_iff isSpaceChar_def isDigit_def)
  qed simp
  from this[of _ "splitOn CHR ''.'' ver"] show "list_all (\<lambda>c. \<not> isSpaceChar c) ver"
    using assms by (simp add: validSegments_def list_all_iff)
  show "ver \<noteq> []" using assms validSegment_chars[of "[]"] by (auto simp: validSegments_def)
qed

lemma satisfies_pessimistic:
  assumes "validSegments ver"
  shows "satisfiesConstraint v (''~> '' @ ver) \<longleftrightarrow>
     compareVersions v ver \<ge> 0 \<and> compareVersions v (pessimisticUpper ver) < 0"
proof -
  note sp = valid_no_spaces[OF assms]
  have "trimSpace (''~> '' @ ver) = ''~> '' @ ver"
  proof -
    have "dropWhile isSpaceChar (rev ver @ '' >~'') = rev ver @ '' >~''"
      using sp by (cases ver rule: rev_cases) (auto simp: list_all_iff)
    then show ?thesis by (simp add: trimSpace_def isSpaceChar_def)
  qed
  moreover have "splitConstraint (''~> '' @ ver) = (''~>'', ver)"
    using no_spaces_trim(2)[OF sp(1)] by (simp add: splitConstraint_def hasPrefix_def)
  ultimately show ?thesis by (simp add: satisfiesConstraint_def Let_def)
qed


lemma newer_iff:
  "validSegments a \<Longrightarrow> validSegments b \<Longrightarrow> compareVersions a b > 0 \<longleftrightarrow> versionKey b < versionKey a"
  by (auto simp: compareVersions_key)

lemma weakOrder_newest:
  assumes "\<And>v. v \<in> A \<Longrightarrow> validSegments v"
  shows "weakOrderOn (\<lambda>a b. compareVersions a b > 0) A"
  unfolding weakOrderOn_def
proof (intro ballI)
  fix x y z assume "x \<in> A" "y \<in> A" "z \<in> A"
  note [simp] = this[THEN assms]
  show "\<not> compareVersions x x > 0 \<and> (compareVersions x y > 0 \<longrightarrow> compareVersions y z > 0 \<longrightarrow> compareVersions x z > 0) \<and>
     (compareVersions x z > 0 \<longrightarrow> compareVersions x y > 0 \<or> compareVersions y z > 0)"
    by (simp add: newer_iff del: zero_less_iff_neq_zero) (meson less_trans not_less order.strict_trans1)
qed

section \<open>Properties\<close>

text \<open>C20. Versions are ordered as numbers: on valid versions \<open>compareVersions\<close> is the three-way comparison of the
  lists of their components, read as 64 bit integers, with trailing zeros not counting. In
  particular it is a total order up to spelling (\<open>1.0\<close> and \<open>01.0.0\<close> are the same version).\<close>

theorem compareVersions_is_numeric:
  assumes "validCookbookVersion a" and "validCookbookVersion b"
  shows "compareVersions a b =
    (if versionKey a < versionKey b then -1 else if versionKey a = versionKey b then 0 else 1)"
  using assms by (intro compareVersions_key valid_validSegments)

theorem compareVersions_is_numeric_witness:
  "compareVersions ''1.10.0'' ''1.9'' =
    (if versionKey ''1.10.0'' < versionKey ''1.9'' then -1 else if versionKey ''1.10.0'' = versionKey ''1.9'' then 0 else 1)"
  by (rule compareVersions_is_numeric) (code_simp+)

text \<open>C21. The pessimistic constraint bounds a version from both sides: a valid version satisfies \<open>~> x.y.z\<close> exactly
  when it is not below \<open>x.y.z\<close> and agrees with it in every component but the last (\<open>~> x\<close> fixes
  \<open>x\<close> itself), as long as the last fixed component is not the largest 64 bit integer.\<close>

theorem pessimistic_bounds:
  assumes "validCookbookVersion v" and "validCookbookVersion ver" and "last (pinned ver) < maxInt"
  shows "satisfiesConstraint v (''~> '' @ ver) \<longleftrightarrow>
    versionKey ver \<le> versionKey v \<and> padTake (length (pinned ver)) (versionNums v) = pinned ver"
proof -
  note valid = assms(1,2)[THEN valid_validSegments]
  note up = pessimisticUpper_nums[OF valid(2) assms(3)]
  obtain rest where rest: "versionNums ver = butlast (pinned ver) @ last (pinned ver) # rest" using pinned_prefix by blast
  have ne: "pinned ver = butlast (pinned ver) @ [last (pinned ver)]" "length (pinned ver) = Suc (length (butlast (pinned ver)))"
    using pinned_nonempty[of ver] by simp_all
  have cmp: "compareVersions v ver \<ge> 0 \<longleftrightarrow> versionKey ver \<le> versionKey v"
    "compareVersions v ver \<ge> 0 \<longleftrightarrow> cmpNums (versionNums ver) (versionNums v) \<le> 0"
    using compareVersions_key[OF valid] compareVersions_key[OF valid(2,1)] compareVersions_nums[OF valid(2,1)]
    by (auto split: if_splits)
  have nn: "list_all (\<lambda>x. 0 \<le> x) (butlast (pinned ver))" "0 \<le> last (pinned ver)"
    using versionNums_nonneg[OF valid(2)] by (simp_all add: rest)
  show ?thesis
    unfolding satisfies_pessimistic[OF valid(2)] compareVersions_nums[OF valid(1) up[THEN conjunct1]] up[THEN conjunct2]
    using prefix_interval[OF versionNums_nonneg[OF valid(1)] nn, of rest] unfolding rest[symmetric] cmp(2)[symmetric] cmp(1) ne(1)[symmetric] ne(2)[symmetric]
    by blast
qed

theorem pessimistic_bounds_witness:
  "satisfiesConstraint ''1.9.3'' (''~> '' @ ''1.2'') \<longleftrightarrow>
    versionKey ''1.2'' \<le> versionKey ''1.9.3'' \<and> padTake (length (pinned ''1.2'')) (versionNums ''1.9.3'') = pinned ''1.2''"
  by (rule pessimistic_bounds) (code_simp+)

text \<open>The two limits of the comparison: on strings that are not versions it has cycles, so that the newest
  of a set is not defined; and incrementing the largest component wraps around, so that the
  pessimistic constraint on it rejects the very version it names.\<close>

theorem compareVersions_has_cycle:
  "compareVersions ''1a'' ''9'' < 0 \<and> compareVersions ''9'' ''10'' < 0 \<and> compareVersions ''10'' ''1a'' < 0"
  by code_simp

theorem pessimistic_overflow:
  "validCookbookConstraint ''~> 9223372036854775807'' \<and>
   \<not> satisfiesConstraint ''9223372036854775807'' ''~> 9223372036854775807''"
proof -
  have p: "parseInt ''9223372036854775807'' = (maxInt, False)"
    by (simp add: parseInt_def decVal_def isDigit_def maxInt_def)
  have n: "itoaNat 9223372036854775808 = ''9223372036854775808''"
    by (simp add: itoaNat.simps char_of_def bit_0)
  have q: "parseInt ''-9223372036854775808'' = (minInt, False)"
    by (simp add: parseInt_def decVal_def isDigit_def minInt_def)
  have u: "pessimisticUpper ''9223372036854775807'' = ''-9223372036854775808''"
    by (simp add: pessimisticUpper_def p wrap64_def maxInt_def itoa_def n)
  have c: "compareVersions ''9223372036854775807'' ''-9223372036854775808'' = 1"
    by (simp add: compareVersions_def cmpSeg_def p q maxInt_def minInt_def)
  have "splitConstraint ''~> 9223372036854775807'' = (''~>'', ''9223372036854775807'')"
    "trimSpace ''~> 9223372036854775807'' = ''~> 9223372036854775807''"
    by code_simp+
  then show ?thesis
    by (simp add: satisfiesConstraint_def u c validCookbookConstraint_def validCookbookVersion_def validSegment_def p maxInt_def cutPrefix_def hasPrefix_def)
qed

end
