(* ===== verification/Go_Digest.thy ===== *)
theory Go_Digest
  imports Cinc_Prelude "HOL-Library.Word"
begin

text \<open>The digests of the Go library that the sources rely on: \<^verbatim>\<open>crypto/md5\<close> (the checksums of the file store and the
  sandbox identifiers), \<^verbatim>\<open>crypto/sha256\<close> and \<^verbatim>\<open>crypto/hmac\<close> (the grants of the file store) and
  \<^verbatim>\<open>hex.EncodeToString\<close>. They are the published algorithms over 32 bit words, executable; no theorem
  of the development depends on more of them than the length of the hexadecimal text.\<close>

unbundle bit_operations_syntax

type_synonym w32 = "32 word"

definition bytesOf :: "string \<Rightarrow> nat list" where
  "bytesOf s = map of_char s"

definition hexDigits :: string where
  "hexDigits = ''0123456789abcdef''"

definition hexEncode :: "nat list \<Rightarrow> string" where
  "hexEncode bs = concat (map (\<lambda>b. [hexDigits ! (b div 16 mod 16), hexDigits ! (b mod 16)]) bs)"

fun chunks :: "nat \<Rightarrow> 'a list \<Rightarrow> 'a list list" where
  "chunks n [] = []"
| "chunks 0 (x # xs) = []"
| "chunks (Suc n) (x # xs) = (x # take n xs) # chunks (Suc n) (drop n xs)"

text \<open>The number with the given bytes, least significant first, and the bytes of a number.\<close>

fun leWord :: "nat list \<Rightarrow> nat" where
  "leWord [] = 0"
| "leWord (b # bs) = b + 256 * leWord bs"

fun leBytes :: "nat \<Rightarrow> nat \<Rightarrow> nat list" where
  "leBytes 0 v = []"
| "leBytes (Suc n) v = v mod 256 # leBytes n (v div 256)"

definition wordLE :: "nat list \<Rightarrow> w32" where "wordLE bs = of_nat (leWord bs)"
definition wordBE :: "nat list \<Rightarrow> w32" where "wordBE bs = of_nat (leWord (rev bs))"
definition bytesLE :: "w32 \<Rightarrow> nat list" where "bytesLE w = leBytes 4 (unat w)"
definition bytesBE :: "w32 \<Rightarrow> nat list" where "bytesBE w = rev (leBytes 4 (unat w))"

definition padding :: "nat list \<Rightarrow> nat list \<Rightarrow> nat list" where
  "padding bs len = bs @ 128 # replicate ((119 - length bs mod 64) mod 64) 0 @ len"

section \<open>MD5\<close>

definition md5K :: "w32 list" where
  "md5K =
    [0xd76aa478, 0xe8c7b756, 0x242070db, 0xc1bdceee, 0xf57c0faf, 0x4787c62a, 0xa8304613, 0xfd469501,
     0x698098d8, 0x8b44f7af, 0xffff5bb1, 0x895cd7be, 0x6b901122, 0xfd987193, 0xa679438e, 0x49b40821,
     0xf61e2562, 0xc040b340, 0x265e5a51, 0xe9b6c7aa, 0xd62f105d, 0x02441453, 0xd8a1e681, 0xe7d3fbc8,
     0x21e1cde6, 0xc33707d6, 0xf4d50d87, 0x455a14ed, 0xa9e3e905, 0xfcefa3f8, 0x676f02d9, 0x8d2a4c8a,
     0xfffa3942, 0x8771f681, 0x6d9d6122, 0xfde5380c, 0xa4beea44, 0x4bdecfa9, 0xf6bb4b60, 0xbebfbc70,
     0x289b7ec6, 0xeaa127fa, 0xd4ef3085, 0x04881d05, 0xd9d4d039, 0xe6db99e5, 0x1fa27cf8, 0xc4ac5665,
     0xf4292244, 0x432aff97, 0xab9423a7, 0xfc93a039, 0x655b59c3, 0x8f0ccc92, 0xffeff47d, 0x85845dd1,
     0x6fa87e4f, 0xfe2ce6e0, 0xa3014314, 0x4e0811a1, 0xf7537e82, 0xbd3af235, 0x2ad7d2bb, 0xeb86d391]"

definition md5S :: "nat list" where
  "md5S = [7, 12, 17, 22, 5, 9, 14, 20, 4, 11, 16, 23, 6, 10, 15, 21]"

definition md5Step :: "w32 list \<Rightarrow> nat \<Rightarrow> w32 \<times> w32 \<times> w32 \<times> w32 \<Rightarrow> w32 \<times> w32 \<times> w32 \<times> w32" where
  "md5Step m i st = (case st of (a, b, c, d) \<Rightarrow>
     (let (f, g) =
        (if i < 16 then ((b AND c) OR (NOT b AND d), i)
         else if i < 32 then ((d AND b) OR (NOT d AND c), (5 * i + 1) mod 16)
         else if i < 48 then (b XOR c XOR d, (3 * i + 5) mod 16)
         else (c XOR (b OR NOT d), 7 * i mod 16))
      in (d, b + word_rotl (md5S ! (i div 16 * 4 + i mod 4)) (a + f + md5K ! i + m ! g), b, c)))"

definition md5Block :: "nat list \<Rightarrow> w32 \<times> w32 \<times> w32 \<times> w32 \<Rightarrow> w32 \<times> w32 \<times> w32 \<times> w32" where
  "md5Block blk st =
     (let m = map wordLE (chunks 4 blk); (a, b, c, d) = st; (a', b', c', d') = fold (md5Step m) [0..<64] st
      in (a + a', b + b', c + c', d + d'))"

definition md5Sum :: "string \<Rightarrow> nat list" where
  "md5Sum s =
     (let bs = bytesOf s; padded = padding bs (leBytes 8 (8 * length bs));
          (a, b, c, d) = fold md5Block (chunks 64 padded) (0x67452301, 0xefcdab89, 0x98badcfe, 0x10325476)
      in concat (map bytesLE [a, b, c, d]))"

definition md5Hex :: "string \<Rightarrow> string" where
  "md5Hex s = hexEncode (md5Sum s)"

section \<open>SHA-256 and HMAC\<close>

text \<open>The constants of SHA-256 are the first 32 bits of the fractional parts of the cube roots of the first 64 primes, and
  of the square roots of the first 8; a root is computed bit by bit, from the top.\<close>

primrec rootBits :: "nat \<Rightarrow> nat \<Rightarrow> nat \<Rightarrow> nat \<Rightarrow> nat" where
  "rootBits k n 0 acc = acc"
| "rootBits k n (Suc b) acc = rootBits k n b (if (acc + 2 ^ b) ^ k \<le> n then acc + 2 ^ b else acc)"

definition fractionRoot :: "nat \<Rightarrow> nat \<Rightarrow> w32" where
  "fractionRoot k p = word_of_nat (rootBits k (p * 2 ^ (32 * k)) 40 0)"

definition shaPrimes :: "nat list" where
  "shaPrimes = [2, 3, 5, 7, 11, 13, 17, 19, 23, 29, 31, 37, 41, 43, 47, 53, 59, 61, 67, 71, 73, 79, 83, 89, 97, 101, 103,
     107, 109, 113, 127, 131, 137, 139, 149, 151, 157, 163, 167, 173, 179, 181, 191, 193, 197, 199, 211, 223, 227, 229,
     233, 239, 241, 251, 257, 263, 269, 271, 277, 281, 283, 293, 307, 311]"

definition shaK :: "w32 list" where
  "shaK = map (fractionRoot 3) shaPrimes"

type_synonym sha_state = "w32 \<times> w32 \<times> w32 \<times> w32 \<times> w32 \<times> w32 \<times> w32 \<times> w32"

definition shaInit :: sha_state where
  "shaInit = (let h = fractionRoot 2 in (h 2, h 3, h 5, h 7, h 11, h 13, h 17, h 19))"

text \<open>The message schedule, built from its end: the word sixteen places back is the sixteenth of the reversed list.\<close>

fun shaSchedule :: "nat \<Rightarrow> w32 list \<Rightarrow> w32 list" where
  "shaSchedule 0 ws = ws"
| "shaSchedule (Suc n) ws =
     (let w15 = ws ! 14; w2 = ws ! 1;
          s0 = word_rotr 7 w15 XOR word_rotr 18 w15 XOR drop_bit 3 w15;
          s1 = word_rotr 17 w2 XOR word_rotr 19 w2 XOR drop_bit 10 w2
      in shaSchedule n ((ws ! 15 + s0 + ws ! 6 + s1) # ws))"

definition shaStep :: "w32 \<times> w32 \<Rightarrow> sha_state \<Rightarrow> sha_state" where
  "shaStep kw st = (case st of (a, b, c, d, e, f, g, h) \<Rightarrow>
     (let s1 = word_rotr 6 e XOR word_rotr 11 e XOR word_rotr 25 e;
          ch = (e AND f) XOR (NOT e AND g);
          t1 = h + s1 + ch + fst kw + snd kw;
          s0 = word_rotr 2 a XOR word_rotr 13 a XOR word_rotr 22 a;
          maj = (a AND b) XOR (a AND c) XOR (b AND c)
      in (t1 + (s0 + maj), a, b, c, d + t1, e, f, g)))"

definition shaBlock :: "nat list \<Rightarrow> sha_state \<Rightarrow> sha_state" where
  "shaBlock blk st =
     (let ws = rev (shaSchedule 48 (rev (map wordBE (chunks 4 blk))));
          (a, b, c, d, e, f, g, h) = st; (a', b', c', d', e', f', g', h') = fold shaStep (zip shaK ws) st
      in (a + a', b + b', c + c', d + d', e + e', f + f', g + g', h + h'))"

definition sha256 :: "nat list \<Rightarrow> nat list" where
  "sha256 bs =
     (case fold shaBlock (chunks 64 (padding bs (rev (leBytes 8 (8 * length bs))))) shaInit of
        (a, b, c, d, e, f, g, h) \<Rightarrow> concat (map bytesBE [a, b, c, d, e, f, g, h]))"

definition hmacSha256 :: "nat list \<Rightarrow> nat list \<Rightarrow> nat list" where
  "hmacSha256 key msg =
     (let k = (if length key > 64 then sha256 key else key);
          k = k @ replicate (64 - length k) 0;
          xorAll = (\<lambda>v. map (\<lambda>b :: nat. b XOR v) k)
      in sha256 (xorAll 0x5c @ sha256 (xorAll 0x36 @ msg)))"

section \<open>Shapes\<close>

lemma leBytes_shape [simp]: "length (leBytes n v) = n" "b \<in> set (leBytes n v) \<Longrightarrow> b < 256"
  by (induction n arbitrary: v) auto

lemma bytesBE_shape [simp]: "length (bytesBE w) = 4" "b \<in> set (bytesBE w) \<Longrightarrow> b < 256"
  by (simp_all add: bytesBE_def)

lemma sha256_shape: "length (sha256 bs) = 32 \<and> list_all (\<lambda>b. b < 256) (sha256 bs)"
  unfolding sha256_def by (simp only: split: prod.split) (simp add: list_all_iff ball_Un)

lemmas length_sha256 = sha256_shape[THEN conjunct1]

end
