(* ===== verification/File_Grant.thy ===== *)
theory File_Grant
  imports Go_Digest Go_Numbers
begin

text \<open>The pre-signed grants of the cookbook file store (\<^verbatim>\<open>src/internal/auth/presign.go\<close>) and the query strings
  that carry them (\<^verbatim>\<open>url.Values.Encode\<close>, \<^verbatim>\<open>url.ParseQuery\<close>).

  A time is its Unix seconds and nanoseconds; \<open>VerifyFileStore\<close> returns \<open>None\<close> for Go's \<^verbatim>\<open>nil\<close> and the reason
  otherwise.\<close>

section \<open>Query strings\<close>

definition unreserved :: "char \<Rightarrow> bool" where
  "unreserved c = (isLowercase c \<or> isUppercase c \<or> isDigit c \<or>
     c \<in> set ''-_.~'')"

definition escapeQueryChar :: "char \<Rightarrow> string" where
  "escapeQueryChar c =
     (if unreserved c then [c] else if c = CHR '' '' then ''+''
      else [CHR 0x25, hexUpper ! (of_char c div 16), hexUpper ! (of_char c mod 16)])"

definition queryEscape :: "string \<Rightarrow> string" where
  "queryEscape s = concat (map escapeQueryChar s)"

definition unhex :: "char \<Rightarrow> nat option" where
  "unhex c =
     (if isDigit c then Some (of_char c - 48)
      else if CHR ''a'' \<le> c \<and> c \<le> CHR ''f'' then Some (of_char c - 87)
      else if CHR ''A'' \<le> c \<and> c \<le> CHR ''F'' then Some (of_char c - 55)
      else None)"

fun queryUnescape :: "string \<Rightarrow> string option" where
  "queryUnescape [] = Some []"
| "queryUnescape (c # cs) =
     (if c = CHR 0x25 then
        (case cs of
           a # b # rest \<Rightarrow>
             (case (unhex a, unhex b) of
                (Some x, Some y) \<Rightarrow> map_option (\<lambda>t. char_of (16 * x + y) # t) (queryUnescape rest)
              | _ \<Rightarrow> None)
         | _ \<Rightarrow> None)
      else map_option (\<lambda>t. (if c = CHR ''+'' then CHR '' '' else c) # t) (queryUnescape cs))"

type_synonym url_values = "(string \<times> string list) list"

text \<open>\<^verbatim>\<open>Values.Encode\<close> writes the keys in order, one pair per value.\<close>

definition encodeValues :: "url_values \<Rightarrow> string" where
  "encodeValues q =
     joinWith ''&'' (concat (map (\<lambda>k. map (\<lambda>v. queryEscape k @ ''='' @ queryEscape v) (getd [] q k))
       (sort (map fst q))))"

text \<open>One piece of a query; a piece that does not decode is skipped.\<close>

definition parsePair :: "string \<Rightarrow> (string \<times> string) option" where
  "parsePair piece =
     (if piece = [] \<or> CHR '';'' \<in> set piece then None
      else (let (k, v) = (case cutAt ''='' piece of Some kv \<Rightarrow> kv | None \<Rightarrow> (piece, []))
        in case (queryUnescape k, queryUnescape v) of (Some k', Some v') \<Rightarrow> Some (k', v') | _ \<Rightarrow> None))"

definition ParseQuery :: "string \<Rightarrow> url_values" where
  "ParseQuery query =
     fold (\<lambda>piece q. case parsePair piece of None \<Rightarrow> q | Some (k, v) \<Rightarrow> AList.update k (getd [] q k @ [v]) q)
       (splitOn CHR ''&'' query) []"

definition valuesGet :: "url_values \<Rightarrow> string \<Rightarrow> string" where
  "valuesGet q k = (case getd [] q k of [] \<Rightarrow> [] | v # _ \<Rightarrow> v)"

section \<open>Grants\<close>

definition FileStoreGet :: string where "FileStoreGet = ''get''"
definition FileStorePut :: string where "FileStorePut = ''put''"

definition macInput :: "string list \<Rightarrow> string" where
  "macInput fields = concat (map (\<lambda>f. f @ [CHR 0x00]) fields)"

definition fileStoreMAC :: "string \<Rightarrow> string \<Rightarrow> string \<Rightarrow> string \<Rightarrow> string \<Rightarrow> string" where
  "fileStoreMAC key og checksum oper exp =
     hexEncode (hmacSha256 (bytesOf key) (bytesOf (macInput [og, checksum, oper, exp])))"

definition FileStoreQuery :: "string \<Rightarrow> string \<Rightarrow> string \<Rightarrow> string \<Rightarrow> int \<Rightarrow> string" where
  "FileStoreQuery key og checksum oper exp =
     (let expStr = itoa exp in
      encodeValues [(''op'', [oper]), (''exp'', [expStr]),
        (''sig'', [fileStoreMAC key og checksum oper expStr])])"

datatype grant_error = NoKey | NotSigned | InvalidExpiry | NotValid | OtherOperation | Expired

text \<open>\<^verbatim>\<open>now.After(time.Unix(exp, 0))\<close>: \<^verbatim>\<open>time.Unix\<close> counts from the year 1, with a wrapping addition.\<close>

definition unixToInternal :: int where "unixToInternal = 62135596800"

definition afterUnix :: "int \<times> nat \<Rightarrow> int \<Rightarrow> bool" where
  "afterUnix now exp =
     (let n = wrap64 (fst now + unixToInternal); e = wrap64 (exp + unixToInternal)
      in n > e \<or> n = e \<and> snd now > 0)"

definition VerifyFileStore :: "string \<Rightarrow> string \<Rightarrow> string \<Rightarrow> string \<Rightarrow> url_values \<Rightarrow> int \<times> nat \<Rightarrow> grant_error option" where
  "VerifyFileStore key og checksum oper q now =
     (if key = [] then Some NoKey
      else if valuesGet q ''sig'' = [] then Some NotSigned
      else (let expStr = valuesGet q ''exp''; (exp, err) = parseInt expStr in
        if err then Some InvalidExpiry
        else if valuesGet q ''sig'' \<noteq> fileStoreMAC key og checksum (valuesGet q ''op'') expStr then Some NotValid
        else if valuesGet q ''op'' \<noteq> oper then Some OtherOperation
        else if afterUnix now exp then Some Expired
        else None))"

section \<open>Query strings round trip\<close>

lemma hexUpper_digit: "d < 16 \<Longrightarrow> unhex (hexUpper ! d) = Some d \<and> unreserved (hexUpper ! d)"
proof -
  have "list_all (\<lambda>d. unhex (hexUpper ! d) = Some d \<and> unreserved (hexUpper ! d)) [0..<16]" by code_simp
  then show "d < 16 \<Longrightarrow> ?thesis" by (simp only: list_all_iff set_upt atLeastLessThan_iff) simp
qed

lemma unreserved_special: "unreserved c \<Longrightarrow> c \<noteq> CHR 0x25 \<and> c \<noteq> CHR ''+'' \<and> c \<noteq> CHR ''&'' \<and> c \<noteq> CHR ''='' \<and> c \<noteq> CHR '';''"
  by (auto simp: unreserved_def isDigit_def less_eq_char_def)

lemma escapeQueryChar_unescape: "queryUnescape (escapeQueryChar c @ s) = map_option (\<lambda>t. c # t) (queryUnescape s)"
proof -
  have n: "of_char c < (256 :: nat)" by (rule nat_of_char_less_256)
  have "unhex (hexUpper ! (of_char c div 16)) = Some (of_char c div 16)"
    "unhex (hexUpper ! (of_char c mod 16)) = Some (of_char c mod 16)"
    using n less_mult_imp_div_less[of "of_char c" 16 16] by (simp_all add: hexUpper_digit)
  moreover have "char_of (16 * (of_char c div 16) + of_char c mod 16 :: nat) = c" by simp
  ultimately show ?thesis
    using unreserved_special[of c] by (simp add: escapeQueryChar_def)
qed

lemma queryUnescape_escape [simp]: "queryUnescape (queryEscape s) = Some s"
  by (induction s) (simp_all add: queryEscape_def escapeQueryChar_unescape)

lemma queryEscape_chars: "c \<in> set (queryEscape s) \<Longrightarrow> c \<noteq> CHR ''&'' \<and> c \<noteq> CHR ''='' \<and> c \<noteq> CHR '';''"
proof -
  have "of_char d div 16 < (16 :: nat)" "of_char d mod 16 < (16 :: nat)" for d :: char
    using less_mult_imp_div_less[of "of_char d" 16 16] by simp_all
  note hex = this[THEN hexUpper_digit, THEN conjunct2, THEN unreserved_special]
  assume "c \<in> set (queryEscape s)"
  then obtain d where "c \<in> set (escapeQueryChar d)" by (auto simp: queryEscape_def)
  then show ?thesis using hex[of d] unreserved_special[of d] by (auto simp: escapeQueryChar_def split: if_splits)
qed

lemma parsePair_encoded: "parsePair (queryEscape k @ ''='' @ queryEscape v) = Some (k, v)"
proof -
  have "CHR ''='' \<notin> set (queryEscape k)" "CHR '';'' \<notin> set (queryEscape k @ ''='' @ queryEscape v)"
    using queryEscape_chars by auto
  then show ?thesis by (simp add: parsePair_def cutAt_char Let_def)
qed

lemma ParseQuery_three:
  assumes "distinct [k1, k2, k3]"
  shows "ParseQuery (joinWith ''&'' (map (\<lambda>(k, v). queryEscape k @ ''='' @ queryEscape v) [(k1, v1), (k2, v2), (k3, v3)])) =
    [(k1, [v1]), (k2, [v2]), (k3, [v3])]"
proof -
  have "splitOn CHR ''&'' (joinWith ''&'' (map (\<lambda>(k, v). queryEscape k @ ''='' @ queryEscape v) [(k1, v1), (k2, v2), (k3, v3)]))
      = map (\<lambda>(k, v). queryEscape k @ ''='' @ queryEscape v) [(k1, v1), (k2, v2), (k3, v3)]"
    by (rule splitOn_joinWith) (auto dest: queryEscape_chars)
  with assms show ?thesis unfolding ParseQuery_def by (auto simp: parsePair_encoded[simplified] getd_def)
qed

lemma FileStoreQuery_values:
  "ParseQuery (FileStoreQuery key og checksum oper exp) =
     [(''exp'', [itoa exp]), (''op'', [oper]), (''sig'', [fileStoreMAC key og checksum oper (itoa exp)])]"
proof -
  have "sort [''op'', ''exp'', ''sig''] = [''exp'', ''op'', ''sig'']" by code_simp
  then have "FileStoreQuery key og checksum oper exp = joinWith ''&''
      (map (\<lambda>(k, v). queryEscape k @ ''='' @ queryEscape v)
        [(''exp'', itoa exp), (''op'', oper), (''sig'', fileStoreMAC key og checksum oper (itoa exp))])"
    by (simp add: FileStoreQuery_def encodeValues_def getd_def Let_def del: sort_key_simps)
  then show ?thesis using ParseQuery_three[of "''exp''" "''op''" "''sig''"] by simp
qed


section \<open>What a grant says\<close>

lemma length_fileStoreMAC: "length (fileStoreMAC key og checksum oper exp) = 64"
proof -
  have "length (hexEncode bs) = 2 * length bs" for bs by (induction bs) (simp_all add: hexEncode_def)
  then show ?thesis by (simp add: fileStoreMAC_def hmacSha256_def Let_def length_sha256)
qed

lemma nul_separated: "CHR 0x00 \<notin> set f \<Longrightarrow> CHR 0x00 \<notin> set g \<Longrightarrow>
  f @ CHR 0x00 # r = g @ CHR 0x00 # r' \<longleftrightarrow> f = g \<and> r = r'"
  by (induction f arbitrary: g) (case_tac g; auto)+

lemma macInput_inj:
  "list_all (\<lambda>f. CHR 0x00 \<notin> set f) fs \<Longrightarrow> list_all (\<lambda>f. CHR 0x00 \<notin> set f) gs \<Longrightarrow> length fs = length gs \<Longrightarrow>
   macInput fs = macInput gs \<longleftrightarrow> fs = gs"
proof (induction fs arbitrary: gs)
  case (Cons f fs)
  then obtain g gs' where "gs = g # gs'" by (cases gs) auto
  with Cons show ?case using nul_separated[of f g] by (auto simp: macInput_def)
qed simp

section \<open>Properties\<close>



end
