(* ===== verification/Cookbook_Manifest.thy ===== *)
theory Cookbook_Manifest
  imports Server_Endpoints Cookbook_Version File_Grant
begin

text \<open>Cookbook manifests: their files and the two shapes that list them
  (\<^verbatim>\<open>src/internal/api/cookbook_segments.go\<close>), what a PUT accepts (\<^verbatim>\<open>cookbook_validate.go\<close>) and
  the manifest helpers of \<^verbatim>\<open>cookbooks.go\<close>.

  An object of a parsed tree is its member list; the in-place updates of the sources return the new list.
  \<open>encoded\<close> is the tree of the text that \<^verbatim>\<open>Marshal\<close> writes: the same tree with its numbers rendered. A check
  that answers a message or the empty string is an option here. \<open>settings\<close> holds what the handlers
  take from the server: the key of the file store, the current time (Unix seconds, and as
  \<^verbatim>\<open>time.RFC3339\<close>) and the rendering of numbers.\<close>

record settings =
  fileStoreKey :: string
  nowUnix :: int
  nowText :: string
  numberText :: sci

section \<open>Bodies\<close>

fun encoded :: "sci \<Rightarrow> json \<Rightarrow> json" where
  "encoded sc (JObj ms) = JObj (map (\<lambda>(n, v). (n, encoded sc v)) ms)"
| "encoded sc (JArr es) = JArr (map (encoded sc) es)"
| "encoded sc (JNum l) = JNum (case appendNumber sc l of Some out \<Rightarrow> out | None \<Rightarrow> l)"
| "encoded sc j = j"

text \<open>\<^verbatim>\<open>decodeObjectBody\<close>: the request body as \<^verbatim>\<open>Normalize\<close> rewrites it, when it is an object.\<close>

definition decodeObjectBody :: "settings \<Rightarrow> request \<Rightarrow> members option" where
  "decodeObjectBody cf r = (case rq_body r of
     Bytes _ \<Rightarrow> None
   | Doc j \<Rightarrow> (if \<not> numbersOk (numberText cf) j then None
       else (case encoded (numberText cf) j of JObj ms \<Rightarrow> Some ms | _ \<Rightarrow> None)))"

datatype manifest_error = ShapeError string | InvalidManifest

definition decodeManifestBody :: "settings \<Rightarrow> request \<Rightarrow> manifest_error + members" where
  "decodeManifestBody cf r = (case decodeObjectBody cf r of
     None \<Rightarrow> Inl InvalidManifest
   | Some ms \<Rightarrow> if hasRepeatedNames (JObj ms) then Inl InvalidManifest else Inr ms)"

definition writeManifestError :: "manifest_error \<Rightarrow> handler" where
  "writeManifestError e = (case e of
     ShapeError msg \<Rightarrow> writeError 400 [msg]
   | InvalidManifest \<Rightarrow> writeError 400 [''invalid JSON body''])"

section \<open>The files of a manifest\<close>

text \<open>\<^verbatim>\<open>walkFileEntries\<close> calls its function on these objects, in some order; here, in the order of the text.\<close>

fun fileEntries :: "json \<Rightarrow> members list" where
  "fileEntries (JObj ms) =
     (case map_of ms ''checksum'' of Some (JStr _) \<Rightarrow> [ms] | _ \<Rightarrow> []) @ concat (map (\<lambda>(n, v). fileEntries v) ms)"
| "fileEntries (JArr es) = concat (map fileEntries es)"
| "fileEntries _ = []"

definition stringAt :: "members \<Rightarrow> string \<Rightarrow> string option" where
  "stringAt obj name = (case map_of obj name of Some (JStr v) \<Rightarrow> Some v | _ \<Rightarrow> None)"

definition manifestChecksums :: "members \<Rightarrow> string list" where
  "manifestChecksums m = concat (map (\<lambda>obj. case stringAt obj ''checksum'' of Some v \<Rightarrow> [v] | None \<Rightarrow> []) (fileEntries (JObj m)))"

definition manifestDependencies :: "members \<Rightarrow> members" where
  "manifestDependencies m = (case map_of m ''metadata'' of
     Some (JObj md) \<Rightarrow> (case map_of md ''dependencies'' of Some (JObj deps) \<Rightarrow> deps | _ \<Rightarrow> [])
   | _ \<Rightarrow> [])"

definition trimSuffix :: "string \<Rightarrow> string \<Rightarrow> string" where
  "trimSuffix s p = (if hasSuffix s p then take (length s - length p) s else s)"

definition recipeName :: "string \<Rightarrow> members \<Rightarrow> string option" where
  "recipeName cookbook obj =
     (let path = (case stringAt obj ''path'' of Some p \<Rightarrow> p | None \<Rightarrow> []) in
      if \<not> hasPrefix path ''recipes/'' \<or> \<not> hasSuffix path ''.rb'' then None
      else (let base = trimSuffix (drop (length ''recipes/'') path) ''.rb''
        in Some (if base = ''default'' then cookbook else cookbook @ ''::'' @ base)))"

definition manifestRecipes :: "members \<Rightarrow> string \<Rightarrow> string list" where
  "manifestRecipes m cookbook =
     concat (map (\<lambda>obj. case recipeName cookbook obj of Some n \<Rightarrow> [n] | None \<Rightarrow> []) (fileEntries (JObj m)))"

section \<open>The two shapes\<close>

definition cookbookSegments :: "string list" where
  "cookbookSegments = [''attributes'', ''definitions'', ''files'', ''libraries'', ''providers'',
     ''recipes'', ''resources'', ''root_files'', ''templates'']"

definition isCookbookSegment :: "string \<Rightarrow> bool" where
  "isCookbookSegment name = (name \<in> set cookbookSegments)"

definition checkManifestShape :: "request \<Rightarrow> members \<Rightarrow> manifest_error option" where
  "checkManifestShape r ms =
     (let v2 = requestAPIVersion r \<ge> 2 in
      case find (\<lambda>(n, _). \<not> v2 \<and> n = ''all_files'' \<or> v2 \<and> isCookbookSegment n) ms of
        None \<Rightarrow> None
      | Some (n, _) \<Rightarrow> Some (ShapeError (''Invalid key '' @ n @ '' in request body'')))"

definition asString :: "json option \<Rightarrow> string" where
  "asString v = (case v of Some (JStr s) \<Rightarrow> s | _ \<Rightarrow> [])"

fun replaceMember :: "members \<Rightarrow> string \<Rightarrow> members \<Rightarrow> members" where
  "replaceMember [] name new = []"
| "replaceMember ((n, v) # ms) name new = (if n = name then new @ ms else (n, v) # replaceMember ms name new)"

definition entriesOf :: "json option \<Rightarrow> members list" where
  "entriesOf v = (case v of
     Some (JArr es) \<Rightarrow> concat (map (\<lambda>f. case f of JObj e \<Rightarrow> [e] | _ \<Rightarrow> []) es)
   | _ \<Rightarrow> [])"

definition segmentOf :: "members \<Rightarrow> string \<times> string" where
  "segmentOf entry =
     (let name = asString (objGet entry ''name'') in
      case cutAt ''/'' name of
        Some (segment, rest) \<Rightarrow> if isCookbookSegment segment then (segment, rest) else (''root_files'', name)
      | None \<Rightarrow> (''root_files'', name))"

definition renamed :: "string \<Rightarrow> members \<Rightarrow> json" where
  "renamed name entry = JObj (objSet entry ''name'' (JStr name))"

definition toSegments :: "members \<Rightarrow> members" where
  "toSegments obj = (case objGet obj ''all_files'' of
     None \<Rightarrow> obj
   | Some all \<Rightarrow>
       (let placed = map (\<lambda>e. (fst (segmentOf e), renamed (snd (segmentOf e)) e)) (entriesOf (Some all));
            segments = map (\<lambda>s. (s, JArr (rev (map snd (filter (\<lambda>p. fst p = s) placed))))) cookbookSegments
        in replaceMember obj ''all_files'' segments))"

definition toAllFiles :: "members \<Rightarrow> members" where
  "toAllFiles obj =
     (let present = filter (\<lambda>s. objGet obj s \<noteq> None) cookbookSegments in
      case present of
        [] \<Rightarrow> obj
      | first # _ \<Rightarrow>
          (let files = concat (map (\<lambda>s. map (\<lambda>e. renamed (s @ ''/'' @ asString (objGet e ''name'')) e) (entriesOf (objGet obj s))) present)
           in filter (\<lambda>(n, _). \<not> isCookbookSegment n) (replaceMember obj first [(''all_files'', JArr files)])))"

definition shapeManifest :: "members \<Rightarrow> int \<Rightarrow> members" where
  "shapeManifest obj version = (if version \<ge> 2 then toAllFiles obj else toSegments obj)"

section \<open>Download URLs\<close>

definition fileStoreGrantTTL :: int where "fileStoreGrantTTL = 3600"

definition fileStoreURL :: "settings \<Rightarrow> request \<Rightarrow> string \<Rightarrow> string \<Rightarrow> string \<Rightarrow> string" where
  "fileStoreURL cf r og checksum oper =
     (let url = rq_base r @ ''/organizations/'' @ og @ ''/file_store/'' @ checksum in
      if fileStoreKey cf = [] then url
      else url @ ''?'' @ FileStoreQuery (fileStoreKey cf) og checksum oper (nowUnix cf + fileStoreGrantTTL))"

text \<open>\<^verbatim>\<open>walkFileObjects\<close> with the function \<^verbatim>\<open>withFileURLs\<close> passes it; the member it sets holds no further file.\<close>

fun addURLs :: "(string \<Rightarrow> string) \<Rightarrow> json \<Rightarrow> json" where
  "addURLs url (JObj ms) =
     (let ms' = map (\<lambda>(n, v). (n, addURLs url v)) ms in
      case objGet ms ''checksum'' of
        Some (JStr checksum) \<Rightarrow> JObj (objSet ms' ''url'' (JStr (url checksum)))
      | _ \<Rightarrow> JObj ms')"
| "addURLs url (JArr es) = JArr (map (addURLs url) es)"
| "addURLs url j = j"

definition withFileURLs :: "settings \<Rightarrow> request \<Rightarrow> string \<Rightarrow> body \<Rightarrow> body" where
  "withFileURLs cf r og raw = (case ParseJson raw of
     None \<Rightarrow> raw
   | Some tree \<Rightarrow>
       (let shaped = (case tree of JObj ms \<Rightarrow> JObj (shapeManifest ms (requestAPIVersion r)) | _ \<Rightarrow> tree)
        in Doc (encoded (numberText cf) (addURLs (\<lambda>checksum. fileStoreURL cf r og checksum FileStoreGet) shaped))))"


section \<open>What a PUT accepts\<close>

fun firstSome :: "'a option list \<Rightarrow> 'a option" where
  "firstSome [] = None"
| "firstSome (None # xs) = firstSome xs"
| "firstSome (Some x # xs) = Some x"

definition cookbookNameChar :: "char \<Rightarrow> bool" where
  "cookbookNameChar c = (c = CHR ''.'' \<or> isUppercase c \<or> isLowercase c \<or>
     isDigit c \<or> c = CHR ''_'' \<or> c = CHR ''-'')"

definition cookbookNameRE :: "string \<Rightarrow> bool" where
  "cookbookNameRE s = (s \<noteq> [] \<and> list_all cookbookNameChar s)"

definition cookbookKeys :: "string list" where
  "cookbookKeys = [''attributes'', ''chef_type'', ''cookbook_name'', ''definitions'', ''files'', ''frozen?'',
     ''json_class'', ''libraries'', ''metadata'', ''name'', ''providers'', ''recipes'', ''resources'',
     ''root_files'', ''templates'', ''version'']"

definition cookbookKeysV2 :: "string list" where
  "cookbookKeysV2 = [''all_files'', ''chef_type'', ''cookbook_name'', ''frozen?'', ''json_class'', ''metadata'', ''name'', ''version'']"

definition sq :: string where "sq = [CHR 0x27]"

definition fieldInvalid :: "string \<Rightarrow> string" where
  "fieldInvalid field = ''Field '' @ sq @ field @ sq @ '' invalid''"

definition fieldMissing :: "string \<Rightarrow> string" where
  "fieldMissing field = ''Field '' @ sq @ field @ sq @ '' missing''"

definition validateCookbookURL :: "string \<Rightarrow> string \<Rightarrow> string option" where
  "validateCookbookURL name version =
     (if \<not> validCookbookVersion version then Some (''Invalid cookbook version '' @ sq @ version @ sq @ ''.'')
      else if \<not> cookbookNameRE name then
        Some (''Invalid cookbook name '' @ sq @ name @ sq @ '' using regex: '' @ sq @
          ''Malformed cookbook name. Must only contain A-Z, a-z, 0-9, _, . or -'' @ sq @ ''.'')
      else None)"

definition erlangText :: "sci \<Rightarrow> json \<Rightarrow> string" where
  "erlangText sc v = (case v of
     JStr t \<Rightarrow> t
   | JNum l \<Rightarrow> l
   | JBool b \<Rightarrow> if b then ''true'' else ''false''
   | JNull \<Rightarrow> ''null''
   | _ \<Rightarrow> MarshalJson sc v)"

definition validFileEntry :: "json \<Rightarrow> bool" where
  "validFileEntry f = (case f of
     JObj entry \<Rightarrow> list_all (\<lambda>k. case objGet entry k of Some (JStr _) \<Rightarrow> True | _ \<Rightarrow> False)
       [''name'', ''path'', ''checksum'', ''specificity'']
   | _ \<Rightarrow> False)"

definition constraintError :: "sci \<Rightarrow> string \<Rightarrow> string \<times> json \<Rightarrow> string option" where
  "constraintError sc field m = (case m of (name, v) \<Rightarrow>
     if \<not> cookbookNameRE name then Some (''Invalid key '' @ sq @ name @ sq @ '' for metadata.'' @ field)
     else (case v of
         JStr s \<Rightarrow> if validCookbookConstraint s then None
           else Some (''Invalid value '' @ sq @ s @ sq @ '' for metadata.'' @ field)
       | _ \<Rightarrow> Some (''Invalid value '' @ sq @ erlangText sc v @ sq @ '' for metadata.'' @ field)))"

definition validateConstraintMap :: "sci \<Rightarrow> members \<Rightarrow> string \<Rightarrow> string option" where
  "validateConstraintMap sc meta field = (case objGet meta field of
     None \<Rightarrow> None
   | Some (JObj constraints) \<Rightarrow> firstSome (map (constraintError sc field) constraints)
   | Some _ \<Rightarrow> Some (fieldInvalid (''metadata.'' @ field)))"

text \<open>A member that must be a string satisfying a test, if it is there.\<close>

definition optionalString :: "members \<Rightarrow> string \<Rightarrow> (string \<Rightarrow> bool) \<Rightarrow> string \<Rightarrow> string option" where
  "optionalString obj field ok label = (case objGet obj field of
     None \<Rightarrow> None
   | Some (JStr s) \<Rightarrow> if ok s then None else Some (fieldInvalid label)
   | Some _ \<Rightarrow> Some (fieldInvalid label))"

definition requiredString :: "members \<Rightarrow> string \<Rightarrow> string \<Rightarrow> string \<Rightarrow> string option" where
  "requiredString obj field want label =
     (if objGet obj field = None then Some (fieldMissing label)
      else optionalString obj field (\<lambda>s. s = want) label)"

definition validateCookbookMetadata :: "sci \<Rightarrow> members \<Rightarrow> string \<Rightarrow> bool \<Rightarrow> string option" where
  "validateCookbookMetadata sc meta urlVersion allFiles =
     firstSome (
       [requiredString meta ''version'' urlVersion ''metadata.version'',
        optionalString meta ''name'' cookbookNameRE ''metadata.name''] @
       map (\<lambda>f. optionalString meta f (\<lambda>_. True) (''metadata.'' @ f))
         [''description'', ''long_description'', ''maintainer'', ''maintainer_email'', ''license''] @
       map (validateConstraintMap sc meta)
         ([''platforms'', ''dependencies''] @
          (if allFiles then [] else [''recommendations'', ''suggestions'', ''conflicting'', ''replacing''])) @
       (if allFiles then [] else
         [case objGet meta ''groupings'' of
            None \<Rightarrow> None | Some (JObj _) \<Rightarrow> None | Some _ \<Rightarrow> Some (fieldInvalid ''metadata.groupings'')]))"

definition cookbookDefaults :: members where
  "cookbookDefaults = [(''json_class'', JStr ''Chef::CookbookVersion''), (''chef_type'', JStr ''cookbook_version''),
     (''frozen?'', JBool False)]"

definition fillDefaults :: "members \<Rightarrow> members" where
  "fillDefaults obj = fold (\<lambda>(n, v) ms. if objGet ms n = None then objSet ms n v else ms) cookbookDefaults obj"

definition validateSegment :: "members \<Rightarrow> string \<Rightarrow> string option" where
  "validateSegment obj s = (case objGet obj s of
     None \<Rightarrow> None
   | Some (JArr files) \<Rightarrow> if list_all validFileEntry files then None
       else Some (''Invalid element in array value of '' @ sq @ s @ sq @ ''.'')
   | Some _ \<Rightarrow> Some (fieldInvalid s))"

text \<open>The checks on the body with its defaults filled in, in the order of the specification.\<close>

definition checkManifest :: "sci \<Rightarrow> members \<Rightarrow> string \<Rightarrow> string \<Rightarrow> bool \<Rightarrow> string option" where
  "checkManifest sc obj urlName urlVersion allFiles =
     (let keys = (if allFiles then cookbookKeysV2 else cookbookKeys);
          segments = (if allFiles then [''all_files''] else cookbookSegments)
      in firstSome (
        map (\<lambda>(n, _). if n \<in> set keys then None else Some (''Invalid key '' @ n @ '' in request body'')) obj @
        [requiredString obj ''name'' (urlName @ ''-'' @ urlVersion) ''name'',
         requiredString obj ''cookbook_name'' urlName ''cookbook_name'',
         requiredString obj ''json_class'' ''Chef::CookbookVersion'' ''json_class'',
         requiredString obj ''chef_type'' ''cookbook_version'' ''chef_type'',
         (case objGet obj ''metadata'' of
            None \<Rightarrow> Some (fieldMissing ''metadata'')
          | Some (JObj meta) \<Rightarrow> validateCookbookMetadata sc meta urlVersion allFiles
          | Some _ \<Rightarrow> Some (fieldInvalid ''metadata''))] @
        map (validateSegment obj) segments @
        [optionalString obj ''version'' (\<lambda>s. s = urlVersion) ''version'']))"

definition validateCookbookManifest :: "sci \<Rightarrow> members \<Rightarrow> string \<Rightarrow> string \<Rightarrow> bool \<Rightarrow> members \<times> string option" where
  "validateCookbookManifest sc obj urlName urlVersion allFiles =
     (let filled = fillDefaults obj in (filled, checkManifest sc filled urlName urlVersion allFiles))"


section \<open>Manifests repeat no name\<close>

lemma update_fresh: "k \<notin> fst ` set xs \<Longrightarrow> AList.update k v xs = xs @ [(k, v)]"
  by (induction xs) auto

lemma fold_update_distinct:
  "distinct (map fst (acc @ ms)) \<Longrightarrow> fold (\<lambda>(n, v) acc. AList.update n (f v) acc) ms acc = acc @ map (\<lambda>(n, v). (n, f v)) ms"
proof (induction ms arbitrary: acc)
  case (Cons p ms)
  obtain n v where p: "p = (n, v)" by fastforce
  with Cons.prems have "n \<notin> fst ` set acc" by auto
  moreover have "distinct (map fst ((acc @ [(n, f v)]) @ ms))" using Cons.prems p by auto
  ultimately show ?case using Cons.IH[of "acc @ [(n, f v)]"] p by (simp add: update_fresh)
qed simp

lemma lastMembers_id: "\<not> hasRepeatedNames j \<Longrightarrow> lastMembers j = j"
proof (induction j rule: lastMembers.induct)
  case (1 ms)
  have "(case p of (n, v) \<Rightarrow> (n, lastMembers v)) = p" if "p \<in> set ms" for p
    using 1 that by (cases p) (auto simp: list_ex_iff)
  then have "map (\<lambda>(n, v). (n, lastMembers v)) ms = ms" by (simp add: map_idI)
  with 1(2) fold_update_distinct[of "[]" ms lastMembers] show ?case by simp
next
  case (2 es)
  then show ?case by (auto simp: list_ex_iff intro: map_idI)
qed auto

lemma repeated_encoded [simp]: "hasRepeatedNames (encoded sc j) = hasRepeatedNames j"
proof (induction j rule: hasRepeatedNames.induct)
  case (1 ms)
  have "map fst (map (\<lambda>(n, v). (n, encoded sc v)) ms) = map fst ms" by (induction ms) auto
  then have d: "distinct (map fst (map (\<lambda>(n, v). (n, encoded sc v)) ms)) = distinct (map fst ms)" by (rule arg_cong)
  have "list_ex (\<lambda>(n, v). hasRepeatedNames v) (map (\<lambda>(n, v). (n, encoded sc v)) ms) = list_ex (\<lambda>(n, v). hasRepeatedNames v) ms"
    using 1 by (induction ms) auto
  with d show ?case by (simp only: encoded.simps hasRepeatedNames.simps)
next
  case (2 es)
  then show ?case by (induction es) auto
qed auto

lemma unrepeated_doc:
  assumes "\<not> hasRepeatedNames (JObj ms)"
  shows "DecodeObject (Doc (JObj ms)) = Some ms" and "UnmarshalMap (Doc (JObj ms)) = Some ms"
  using lastMembers_id[OF assms] firstMembers_idem_on_distinct[of "JObj ms"] assms
  by (simp_all add: UnmarshalMap_def)

lemma unrepeated_fillDefaults: "\<not> hasRepeatedNames (JObj ms) \<Longrightarrow> \<not> hasRepeatedNames (JObj (fillDefaults ms))"
proof -
  have step: "\<not> hasRepeatedNames (JObj (if objGet ms n = None then objSet ms n v else ms))"
    if "\<not> hasRepeatedNames (JObj ms)" "\<not> hasRepeatedNames v" for ms n v
    using that by (auto simp: objGet_map_of objSet_update map_of_eq_None_iff update_fresh)
  show "\<not> hasRepeatedNames (JObj ms) \<Longrightarrow> ?thesis"
    unfolding fillDefaults_def cookbookDefaults_def by (simp only: fold.simps comp_apply id_apply prod.case) (intro step; simp)
qed


section \<open>The shapes carry the same files\<close>

lemma objSet_back: "objGet e n = Some v \<Longrightarrow> objSet (objSet e n w) n v = e"
  by (induction e n w rule: objSet.induct) auto

lemma objGet_objSet_same [simp]: "objGet (objSet e n v) n = Some v"
  by (simp add: objGet_map_of objSet_update map_of_update)

lemma objGet_filter: "objGet (filter (\<lambda>(n, _). P n) ms) n = (if P n then objGet ms n else None)"
  by (induction ms) auto

lemma objGet_append: "objGet (xs @ ys) n = (case objGet xs n of Some v \<Rightarrow> Some v | None \<Rightarrow> objGet ys n)"
  by (induction xs) auto

lemma objGet_replaceMember:
  "distinct (map fst ms) \<Longrightarrow> objGet ms name \<noteq> None \<Longrightarrow> (\<And>m. m \<in> fst ` set new \<Longrightarrow> m \<noteq> name \<Longrightarrow> objGet ms m = None) \<Longrightarrow>
   objGet (replaceMember ms name new) n = (case objGet new n of Some v \<Rightarrow> Some v | None \<Rightarrow> if n = name then None else objGet ms n)"
proof (induction ms)
  case (Cons p ms)
  obtain m v where p: "p = (m, v)" by fastforce
  show ?case
  proof (cases "m = name")
    case True
    then have "objGet ms name = None" using Cons.prems(1) p by (auto simp: objGet_map_of map_of_eq_None_iff)
    with True show ?thesis by (auto simp: p objGet_append split: option.split)
  next
    case False
    have "objGet ms k = None" if "k \<in> fst ` set new" "k \<noteq> name" for k
      using Cons.prems(3)[OF that] by (auto simp: p split: if_splits)
    then have IH: "objGet (replaceMember ms name new) n = (case objGet new n of Some v \<Rightarrow> Some v | None \<Rightarrow> if n = name then None else objGet ms n)"
      using Cons False p by simp
    have "objGet new m = None"
      using Cons.prems(3)[of m] False by (auto simp: p objGet_map_of map_of_eq_None_iff)
    with IH False show ?thesis by (auto simp: p split: option.split)
  qed
qed simp

text \<open>A manifest in segments: each segment is an array of objects with a string name.\<close>

definition namedEntry :: "json \<Rightarrow> bool" where
  "namedEntry f = (case f of JObj e \<Rightarrow> (case objGet e ''name'' of Some (JStr _) \<Rightarrow> True | _ \<Rightarrow> False) | _ \<Rightarrow> False)"

definition segmented :: "members \<Rightarrow> bool" where
  "segmented obj = (distinct (map fst obj) \<and> objGet obj ''all_files'' = None \<and>
     list_all (\<lambda>s. case objGet obj s of None \<Rightarrow> True | Some (JArr es) \<Rightarrow> list_all namedEntry es | _ \<Rightarrow> False) cookbookSegments)"

lemma entriesOf_objects [simp]: "entriesOf (Some (JArr (map JObj es))) = es" "entriesOf None = []"
  by (induction es) (auto simp: entriesOf_def)

lemma segment_no_slash: "s \<in> set cookbookSegments \<Longrightarrow> CHR ''/'' \<notin> set s"
  by (auto simp: cookbookSegments_def)

lemma segmentOf_renamed:
  assumes "s \<in> set cookbookSegments" and "objGet e ''name'' = Some (JStr x)"
  shows "segmentOf (objSet e ''name'' (JStr (s @ ''/'' @ x))) = (s, x)"
  using cutAt_char[OF segment_no_slash[OF assms(1)], of x] assms(1)
  by (simp add: segmentOf_def asString_def isCookbookSegment_def)

lemma map_of_tabulate: "map_of (map (\<lambda>k. (k, f k)) ks) k = (if k \<in> set ks then Some (f k) else None)"
  by (induction ks) auto

lemma filter_segment:
  assumes "distinct segs" and "s \<notin> set segs \<Longrightarrow> E s = []"
  shows "map snd (filter (\<lambda>p. fst p = s) (concat (map (\<lambda>s. map (\<lambda>e. (s, f e)) (E s)) segs))) = map f (E s)"
  using assms
proof (induction segs)
  case (Cons t segs)
  have none: "filter (\<lambda>p. fst p = s) (concat (map (\<lambda>s. map (\<lambda>e. (s, f e)) (E s)) segs)) = []" if "s \<notin> set segs"
    using that by (auto simp: filter_empty_conv)
  have hd: "filter (\<lambda>p. fst p = s) (map (\<lambda>e. (t, f e)) (E t)) = (if t = s then map (\<lambda>e. (s, f e)) (E s) else [])"
    by (auto simp: filter_empty_conv)
  show ?case
  proof (cases "t = s")
    case True
    with Cons.prems(1) have "s \<notin> set segs" by simp
    with none hd True show ?thesis by (simp add: comp_def)
  next
    case False
    with Cons hd show ?thesis by simp
  qed
qed simp


abbreviation presentSegments :: "members \<Rightarrow> string list" where
  "presentSegments obj \<equiv> filter (\<lambda>s. objGet obj s \<noteq> None) cookbookSegments"

abbreviation filedName :: "string \<Rightarrow> members \<Rightarrow> members" where
  "filedName s e \<equiv> objSet e ''name'' (JStr (s @ ''/'' @ asString (objGet e ''name'')))"

definition allEntries :: "members \<Rightarrow> members list" where
  "allEntries obj = concat (map (\<lambda>s. map (filedName s) (entriesOf (objGet obj s))) (presentSegments obj))"

lemma replaceMember_names: "fst ` set (replaceMember ms name new) \<subseteq> fst ` set new \<union> fst ` set ms"
  by (induction ms name new rule: replaceMember.induct) auto

lemma replaceMember_distinct:
  "distinct (map fst ms) \<Longrightarrow> m \<notin> fst ` set ms \<Longrightarrow> distinct (map fst (replaceMember ms name [(m, v)]))"
proof (induction ms)
  case (Cons p ms)
  then show ?case using replaceMember_names[of ms name "[(m, v)]"] by (cases p) auto
qed simp

lemma toAllFiles_lookup:
  assumes "segmented obj" and "presentSegments obj = first # others"
  shows "objGet (toAllFiles obj) n = (if isCookbookSegment n then None
      else if n = ''all_files'' then Some (JArr (map JObj (allEntries obj))) else objGet obj n)"
    and "distinct (map fst (toAllFiles obj))"
proof -
  have up: "toAllFiles obj = filter (\<lambda>(n, _). \<not> isCookbookSegment n) (replaceMember obj first [(''all_files'', JArr (map JObj (allEntries obj)))])"
    unfolding toAllFiles_def Let_def assms(2) list.case allEntries_def by (simp add: renamed_def map_concat comp_def)
  have first: "objGet obj first \<noteq> None" "first \<in> set cookbookSegments"
  proof -
    have "first \<in> set (presentSegments obj)" unfolding assms(2) by simp
    then show "objGet obj first \<noteq> None" "first \<in> set cookbookSegments" by auto
  qed
  show "objGet (toAllFiles obj) n = (if isCookbookSegment n then None
      else if n = ''all_files'' then Some (JArr (map JObj (allEntries obj))) else objGet obj n)"
    unfolding up objGet_filter using first assms(1)
    by (subst objGet_replaceMember) (auto simp: segmented_def isCookbookSegment_def)
  show "distinct (map fst (toAllFiles obj))"
    using assms(1) unfolding up
    by (intro distinct_map_filter replaceMember_distinct) (simp_all add: segmented_def objGet_map_of map_of_eq_None_iff)
qed

lemma entriesOf_named:
  assumes "e \<in> set (entriesOf (Some (JArr es)))" and "list_all namedEntry es"
  shows "\<exists>x. objGet e ''name'' = Some (JStr x)"
proof -
  have "JObj e \<in> set es" using assms(1) by (auto simp: entriesOf_def split: json.splits)
  then have "namedEntry (JObj e)" using assms(2) by (simp add: list_all_iff)
  then show ?thesis by (simp add: namedEntry_def split: option.splits json.splits)
qed

lemma placed_entries:
  assumes "segmented obj"
  shows "map (\<lambda>e. (fst (segmentOf e), renamed (snd (segmentOf e)) e)) (allEntries obj) =
    concat (map (\<lambda>s. map (\<lambda>e. (s, JObj e)) (entriesOf (objGet obj s))) (presentSegments obj))"
proof -
  have named: "\<exists>x. objGet e ''name'' = Some (JStr x)" if "e \<in> set (entriesOf (objGet obj s))" "s \<in> set cookbookSegments" for e s
  proof -
    have seg: "case objGet obj s of None \<Rightarrow> True | Some (JArr es) \<Rightarrow> list_all namedEntry es | _ \<Rightarrow> False"
      using assms that(2) by (simp add: segmented_def list_all_iff)
    show ?thesis
    proof (cases "\<exists>es. objGet obj s = Some (JArr es)")
      case True
      then show ?thesis using seg that(1) entriesOf_named by auto
    next
      case False
      then have "entriesOf (objGet obj s) = []" by (cases "objGet obj s") (auto simp: entriesOf_def split: json.split)
      with that(1) show ?thesis by simp
    qed
  qed
  have "segmentOf (filedName s e) = (s, asString (objGet e ''name'')) \<and> renamed (asString (objGet e ''name'')) (filedName s e) = JObj e"
    if "e \<in> set (entriesOf (objGet obj s))" "s \<in> set cookbookSegments" for e s
    using named[OF that] that(2) by (auto simp: segmentOf_renamed[simplified] asString_def renamed_def objSet_back)
  then show ?thesis
    unfolding allEntries_def map_concat map_map comp_def by (auto intro!: arg_cong[of _ _ concat])
qed

lemma toSegments_lookup:
  assumes "segmented obj" and "presentSegments obj = first # others"
  shows "objGet (toSegments (toAllFiles obj)) n =
    (if isCookbookSegment n then Some (JArr (rev (map JObj (entriesOf (objGet obj n)))))
     else if n = ''all_files'' then None else objGet obj n)"
proof -
  have all: "\<not> isCookbookSegment ''all_files''" by code_simp
  have "distinct cookbookSegments" by code_simp
  then have "distinct (presentSegments obj)" by simp
  moreover have "entriesOf (objGet obj s) = []" if "s \<notin> set (presentSegments obj)" "s \<in> set cookbookSegments" for s using that by auto
  ultimately have seg: "map snd (filter (\<lambda>p. fst p = s) (map (\<lambda>e. (fst (segmentOf e), renamed (snd (segmentOf e)) e)) (allEntries obj))) =
      map JObj (entriesOf (objGet obj s))" if "s \<in> set cookbookSegments" for s
    unfolding placed_entries[OF assms(1)] using that by (intro filter_segment) auto
  let ?segs = "map (\<lambda>s. (s, JArr (rev (map JObj (entriesOf (objGet obj s)))))) cookbookSegments"
  have down: "toSegments (toAllFiles obj) = replaceMember (toAllFiles obj) ''all_files'' ?segs"
    unfolding toSegments_def toAllFiles_lookup(1)[OF assms] using all
    by (simp add: Let_def seg cong: map_cong)
  have "objGet ?segs n = (if isCookbookSegment n then Some (JArr (rev (map JObj (entriesOf (objGet obj n))))) else None)"
    unfolding objGet_map_of isCookbookSegment_def by (rule map_of_tabulate)
  then show ?thesis
    unfolding down using toAllFiles_lookup[OF assms] all
    by (subst objGet_replaceMember) (auto simp: isCookbookSegment_def)
qed

section \<open>Properties\<close>

text \<open>C22. The two shapes of a manifest list the same files: a manifest in segments, read by a client of API version 2 and turned back for one
  of version 1, has in each segment exactly the files it had, with their names and all their other
  members, in the opposite order; and every other member is untouched.\<close>

theorem segments_roundtrip:
  assumes "segmented obj"
  shows "(isCookbookSegment n \<longrightarrow> entriesOf (objGet (toSegments (toAllFiles obj)) n) = rev (entriesOf (objGet obj n))) \<and>
    (\<not> isCookbookSegment n \<longrightarrow> objGet (toSegments (toAllFiles obj)) n = objGet obj n)"
proof (cases "presentSegments obj")
  case Nil
  then have "objGet obj s = None" if "s \<in> set cookbookSegments" for s using that by (auto simp: filter_empty_conv)
  moreover have "toSegments (toAllFiles obj) = obj" using Nil assms by (simp add: toAllFiles_def toSegments_def segmented_def)
  ultimately show ?thesis by (auto simp: isCookbookSegment_def)
next
  case (Cons first others)
  have "entriesOf (Some (JArr (rev (map JObj es)))) = rev es" for es
    using entriesOf_objects(1)[of "rev es"] by (simp add: rev_map)
  with toSegments_lookup[OF assms Cons, of n] show ?thesis
    using assms by (auto simp: segmented_def)
qed

theorem segments_roundtrip_witness:
  "segmented [(''files'', JArr (map JObj [[(''name'', JStr ''default/a'')], [(''name'', JStr ''b'')]]))] \<and>
   entriesOf (objGet (toSegments (toAllFiles
      [(''files'', JArr (map JObj [[(''name'', JStr ''default/a'')], [(''name'', JStr ''b'')]]))])) ''files'') =
      rev (entriesOf (objGet [(''files'', JArr (map JObj [[(''name'', JStr ''default/a'')], [(''name'', JStr ''b'')]]))] ''files''))"
proof
  show seg: "segmented [(''files'', JArr (map JObj [[(''name'', JStr ''default/a'')], [(''name'', JStr ''b'')]]))]" by code_simp
  have "isCookbookSegment ''files''" by code_simp
  with segments_roundtrip[OF seg, of "''files''"]
  show "entriesOf (objGet (toSegments (toAllFiles
      [(''files'', JArr (map JObj [[(''name'', JStr ''default/a'')], [(''name'', JStr ''b'')]]))])) ''files'') =
      rev (entriesOf (objGet [(''files'', JArr (map JObj [[(''name'', JStr ''default/a'')], [(''name'', JStr ''b'')]]))] ''files''))"
    by (simp only: simp_thms)
qed

end
