(* ===== verification/Handler_Rules.thy ===== *)
theory Handler_Rules
  imports Http_Reply
begin

text \<open>Rules for reasoning about handlers: \<open>keepsH I h\<close> says that \<open>h\<close> keeps the invariant \<open>I\<close> of the store, whatever it answers;
  \<open>sure m\<close> that \<open>m\<close> does not fail as long as the backend does not, which is what liveness needs.\<close>

section \<open>Handlers that keep an invariant\<close>

definition keepsH :: "('s \<Rightarrow> bool) \<Rightarrow> ('s \<Rightarrow> 'r \<times> 's) \<Rightarrow> bool" where
  "keepsH I h = (\<forall>s. I s \<longrightarrow> wpH h (\<lambda>_. I) s)"

lemma keepsH_tryE [keepsI]:
  "keeps I m \<Longrightarrow> (\<And>e. keepsH I (h e)) \<Longrightarrow> (\<And>x. keepsH I (k x)) \<Longrightarrow> keepsH I (tryE m h k)"
  unfolding keepsH_def keeps_def wp by (blast intro: wpE_mono)

lemma keepsH_branches [keepsI]:
  "keepsH I h \<Longrightarrow> keepsH I h' \<Longrightarrow> keepsH I (if b then h else h')"
  "keepsH I h \<Longrightarrow> (\<And>y. keepsH I (k y)) \<Longrightarrow> keepsH I (case_option h k x)"
  "(\<And>y. keepsH I (k1 y)) \<Longrightarrow> (\<And>y. keepsH I (k2 y)) \<Longrightarrow> keepsH I (case_sum k1 k2 z)"
  by (auto split: option.split sum.split)

lemma keepsH_replies [keepsI]:
  "keepsH I (writeJSON code v)" "keepsH I (writeRaw code raw)" "keepsH I (writeError code ms)" "keepsH I (serverError e)"
  by (simp_all add: keepsH_def wp)

lemma keepsH_withOrg: "(\<And>s s'. same s s' \<Longrightarrow> I s \<Longrightarrow> I s') \<Longrightarrow> keepsH I h \<Longrightarrow> keepsH I (withOrg og h)"
  unfolding keepsH_def by (auto intro!: wp_withOrg)

lemma keeps_reads: "(\<And>s s'. same s s' \<Longrightarrow> I s \<Longrightarrow> I s') \<Longrightarrow> reads m \<Longrightarrow> keeps I m"
  unfolding keeps_def by (auto intro: wp_reads)

lemma keepsH_run: "keepsH I h \<Longrightarrow> I s \<Longrightarrow> h s = (resp, s') \<Longrightarrow> I s'"
  by (auto simp: keepsH_def dest: wpH_result)

lemma keeps_foldE: "(\<And>x acc. keeps I (f x acc)) \<Longrightarrow> keeps I (foldE xs f acc)"
  by (induction xs arbitrary: acc) (auto intro!: keepsI)

lemma keepsH_wp: "keepsH I h \<Longrightarrow> I s \<Longrightarrow> wpH h (\<lambda>_. I) s"
  by (simp add: keepsH_def)

section \<open>Backends that do not fail\<close>

text \<open>Without backend failures no handler answers 500, and none are introduced.\<close>

definition sure :: "('v store, serr, 'a) act \<Rightarrow> bool" where
  "sure m = (\<forall>s. faults s = [] \<longrightarrow> wpE m (\<lambda>_ s'. faults s' = []) (\<lambda>_ _. False) s)"

lemma sure_primitives:
  "sure (org_Get og c k)" "sure (org_Put og c k v)" "sure (org_HasBlob og cksum)" "sure (org_PutBlob og cksum content)" "sure (store_Org og)"
  by (simp_all add: sure_def wpE_def store_op_defs call_def mem_Get_def mem_Put_def mem_HasBlob_def mem_PutBlob_def mem_HasOrg_def
      note_defs)

lemma wp_sure: "sure m \<Longrightarrow> faults s = [] \<Longrightarrow> wpE m Q E s \<Longrightarrow> wpE m (\<lambda>x s'. Q x s' \<and> faults s' = []) (\<lambda>_ _. False) s"
  unfolding sure_def by (rule wpE_mono, rule wpE_conj) auto

lemma sure_foldE: "(\<And>x acc. sure (f x acc)) \<Longrightarrow> sure (foldE xs f acc)"
proof (induction xs arbitrary: acc)
  case (Cons x xs)
  then show ?case unfolding sure_def foldE.simps wp by (blast intro: wpE_mono)
qed (simp add: sure_def wp)


lemma sure_withOrg:
  assumes "faults s = []" and "og \<in> set (orgs (backend s))"
    and "\<And>s'. same s s' \<Longrightarrow> faults s' = [] \<Longrightarrow> wpH k R s'"
  shows "wpH (withOrg og k) R s"
proof -
  have "wpE (store_Org og) (\<lambda>x s'. (x \<and> same s s') \<and> faults s' = []) (\<lambda>_ _. False) s"
    by (rule wp_sure[OF sure_primitives(5) assms(1)], rule wp_Org[where E = "\<lambda>_ _. True"]) (simp_all add: assms(2))
  then show ?thesis unfolding withOrg_def wpH_tryE by (rule wpE_mono) (simp_all add: wp assms(3))
qed

end
