(* ===== verification/Typed_Json.thy ===== *)
theory Typed_Json
  imports Chef_Json
begin

text \<open>\<^verbatim>\<open>encoding/json\<close> decoding a document into a Go struct: null is the zero value, any other value than an object is an
  error, member names match without regard to case, and a later member overwrites an earlier one. A
  decoder answers \<open>None\<close> for a member of the wrong shape, which is an error of the whole document.
  \<open>chefUnmarshal\<close> is \<^verbatim>\<open>chefjson.Unmarshal\<close>, which drops repeated names first.\<close>

definition structMembers :: "body \<Rightarrow> members option" where
  "structMembers b = (case b of Doc (JObj ms) \<Rightarrow> Some ms | Doc JNull \<Rightarrow> Some [] | _ \<Rightarrow> None)"

definition chefUnmarshal :: "body \<Rightarrow> members option" where
  "chefUnmarshal b = (case b of Doc j \<Rightarrow> structMembers (Doc (firstMembers j)) | Bytes _ \<Rightarrow> None)"

text \<open>A \<^verbatim>\<open>string\<close> field: null leaves what is there.\<close>

definition typedString :: "members \<Rightarrow> string \<Rightarrow> string option" where
  "typedString ms name = foldl (\<lambda>acc v. case acc of
       None \<Rightarrow> None
     | Some s \<Rightarrow> (case v of JStr t \<Rightarrow> Some t | JNull \<Rightarrow> Some s | _ \<Rightarrow> None)) (Some []) (membersFold ms name)"

definition typedBool :: "members \<Rightarrow> string \<Rightarrow> bool option" where
  "typedBool ms name = foldl (\<lambda>acc v. case acc of
       None \<Rightarrow> None
     | Some s \<Rightarrow> (case v of JBool t \<Rightarrow> Some t | JNull \<Rightarrow> Some s | _ \<Rightarrow> None)) (Some False) (membersFold ms name)"

text \<open>The keys of a \<^verbatim>\<open>map[string]any\<close> field and the entries of a \<^verbatim>\<open>map[string]string\<close> field: a repeated member adds to the map,
  null empties it (a null entry is the empty string).\<close>

definition typedMapKeys :: "members \<Rightarrow> string \<Rightarrow> string list option" where
  "typedMapKeys ms name = foldl (\<lambda>acc v. case acc of
       None \<Rightarrow> None
     | Some ks \<Rightarrow> (case v of JObj es \<Rightarrow> Some (ks @ map fst es) | JNull \<Rightarrow> Some [] | _ \<Rightarrow> None)) (Some []) (membersFold ms name)"

definition stringEntries :: "members \<Rightarrow> (string \<times> string) list option" where
  "stringEntries es = those (map (\<lambda>(k, v). case v of JStr t \<Rightarrow> Some (k, t) | JNull \<Rightarrow> Some (k, []) | _ \<Rightarrow> None) es)"

definition typedStringMap :: "members \<Rightarrow> string \<Rightarrow> (string \<times> string) list option" where
  "typedStringMap ms name = foldl (\<lambda>acc v. case acc of
       None \<Rightarrow> None
     | Some m \<Rightarrow> (case v of
         JObj es \<Rightarrow> map_option (\<lambda>kvs. fold (\<lambda>(k, t) m. AList.update k t m) kvs m) (stringEntries es)
       | JNull \<Rightarrow> Some [] | _ \<Rightarrow> None)) (Some []) (membersFold ms name)"

text \<open>\<^verbatim>\<open>Unmarshal\<close> into a \<^verbatim>\<open>[]string\<close> field; a nil slice encodes as null.\<close>

definition sliceJSON :: "members \<Rightarrow> string \<Rightarrow> string list \<Rightarrow> json" where
  "sliceJSON ms name vs =
     (let fields = membersFold ms name in if fields = [] \<or> last fields = JNull then JNull else JArr (map JStr vs))"

end
