(* ===== verification/Cookbook_Store.thy ===== *)
theory Cookbook_Store
  imports Cookbook_Manifest Handler_Rules Typed_Json Acl
begin

text \<open>The cookbook file store, sandboxes, and the writes of cookbook and artifact manifests
  (\<^verbatim>\<open>src/internal/api/cookbooks.go\<close>, \<^verbatim>\<open>cookbook_artifacts.go\<close>).

  Files are blobs of the organization, keyed by the hexadecimal MD5 of their content; manifests refer to
  them. The handlers are sequential: each runs to its end before the next begins.\<close>

definition cookbooksColl :: string where "cookbooksColl = ''cookbooks''"
definition artifactsColl :: string where "artifactsColl = ''cookbook_artifacts''"
definition sandboxesColl :: string where "sandboxesColl = ''sandboxes''"

section \<open>Files\<close>

text \<open>The content uploaded is any text, so it is an argument of its own; the empty reply is \<^verbatim>\<open>WriteHeader\<close> alone.\<close>

definition putFile :: "string \<Rightarrow> string \<Rightarrow> string \<Rightarrow> handler" where
  "putFile og checksum content = withOrg og
     (if md5Hex content \<noteq> checksum then
        writeError 400 [''Checksum of uploaded content does not match '' @ checksum]
      else tryE (org_PutBlob og checksum content) serverError (\<lambda>_. writeRaw 200 (Bytes [])))"

definition getFile :: "string \<Rightarrow> string \<Rightarrow> handler" where
  "getFile og checksum = withOrg og
     (tryE (org_Blob og checksum) serverError (\<lambda>content.
        case content of None \<Rightarrow> writeError 404 [''File not found''] | Some c \<Rightarrow> writeRaw 200 (Bytes c)))"

section \<open>Sandboxes\<close>

definition sandboxID :: "string list \<Rightarrow> string" where
  "sandboxID sortedSums = md5Hex (concat sortedSums)"

definition sandboxRequest :: "body \<Rightarrow> string list option" where
  "sandboxRequest b = (case structMembers b of
     None \<Rightarrow> None
   | Some ms \<Rightarrow> map_option (\<lambda>ks. sort (remdups ks)) (typedMapKeys ms ''checksums''))"

definition sandboxEntry :: "settings \<Rightarrow> request \<Rightarrow> string \<Rightarrow> string \<Rightarrow> bool \<Rightarrow> json" where
  "sandboxEntry cf r og checksum has =
     (if has then JObj [(''needs_upload'', JBool False)]
      else JObj [(''needs_upload'', JBool True), (''url'', JStr (fileStoreURL cf r og checksum FileStorePut))])"

definition createSandbox :: "settings \<Rightarrow> request \<Rightarrow> string \<Rightarrow> handler" where
  "createSandbox cf r og = withOrg og
     (case sandboxRequest (rq_body r) of
        None \<Rightarrow> writeError 400 [''invalid JSON body'']
      | Some sums \<Rightarrow>
          (let sid = sandboxID sums in
           tryE (foldE sums (\<lambda>checksum out. bindE (org_HasBlob og checksum) (\<lambda>has.
                   ret (out @ [(checksum, sandboxEntry cf r og checksum has)]))) []) serverError (\<lambda>out.
           tryE (org_Put og sandboxesColl sid (Doc (JObj [(''checksums'', JArr (map JStr sums)),
                   (''create_time'', JStr (nowText cf)), (''is_completed'', JBool False), (''sandbox_id'', JStr sid)])))
             serverError (\<lambda>_.
             writeJSON 201 (JObj [(''checksums'', JObj out), (''sandbox_id'', JStr sid),
               (''uri'', JStr (rq_base r @ ''/organizations/'' @ og @ ''/sandboxes/'' @ sid))])))))"

definition requireBlobs :: "string \<Rightarrow> string list \<Rightarrow> (string \<Rightarrow> string) \<Rightarrow> handler \<Rightarrow> handler" where
  "requireBlobs og sums message k =
     foldr (\<lambda>checksum rest. tryE (org_HasBlob og checksum) serverError (\<lambda>has.
       if \<not> has then writeError 400 [message checksum] else rest)) sums k"

definition commitSandbox :: "string \<Rightarrow> string \<Rightarrow> handler" where
  "commitSandbox og sid = withOrg og
     (tryE (org_Get og sandboxesColl sid) serverError (\<lambda>raw.
        case raw of
          None \<Rightarrow> writeError 404 [''Cannot find sandbox '' @ sid]
        | Some b \<Rightarrow>
            (case structMembers b of
               None \<Rightarrow> serverError ErrDecode
             | Some ms \<Rightarrow>
                 (case typedField ms ''checksums'' of
                    None \<Rightarrow> serverError ErrDecode
                  | Some sums \<Rightarrow>
                      requireBlobs og sums (\<lambda>c. ''Checksum '' @ c @ '' was not uploaded before the sandbox was committed'')
                        (let committed = JObj [(''checksums'', sliceJSON ms ''checksums'' sums), (''guid'', JStr sid),
                               (''is_completed'', JBool True), (''name'', JStr sid)]
                         in tryE (org_Put og sandboxesColl sid (Doc committed)) serverError (\<lambda>_.
                              writeJSON 200 committed))))))"

section \<open>References and collection\<close>

definition cookbookKey :: "string \<Rightarrow> string \<Rightarrow> string" where
  "cookbookKey name version = name @ ''/'' @ version"

definition bodyChecksums :: "body \<Rightarrow> string list" where
  "bodyChecksums raw = (case UnmarshalMap raw of None \<Rightarrow> [] | Some m \<Rightarrow> manifestChecksums m)"

definition referencedChecksums :: "string \<Rightarrow> (body store, serr, string list) act" where
  "referencedChecksums og =
     foldE [cookbooksColl, artifactsColl] (\<lambda>coll refs.
       bindE (org_Keys og coll) (\<lambda>keys.
         foldE keys (\<lambda>key refs. bindE (org_Get og coll key) (\<lambda>raw.
           ret (case raw of None \<Rightarrow> refs | Some b \<Rightarrow> refs @ bodyChecksums b))) refs)) []"

definition gcOrphanedBlobs :: "string \<Rightarrow> string list \<Rightarrow> (body store, serr, unit) act" where
  "gcOrphanedBlobs og candidates =
     (if candidates = [] then ret ()
      else bindE (referencedChecksums og) (\<lambda>referenced.
        forE candidates (\<lambda>checksum. if checksum \<in> set referenced then ret () else org_DeleteBlob og checksum)))"

section \<open>Manifests\<close>

definition notUploaded :: "string \<Rightarrow> string" where
  "notUploaded checksum = ''Manifest has a checksum that hasn't been uploaded: '' @ checksum"

text \<open>The write of a checked manifest, and the collection of what the one it replaces referred to.\<close>

definition storeManifest :: "settings \<Rightarrow> request \<Rightarrow> string \<Rightarrow> string \<Rightarrow> body \<Rightarrow> handler" where
  "storeManifest cf r og key raw =
     tryE (org_Get og cookbooksColl key) serverError (\<lambda>prev.
     tryE (org_Put og cookbooksColl key raw) serverError (\<lambda>_.
     tryE (case prev of None \<Rightarrow> ret () | Some old \<Rightarrow> gcOrphanedBlobs og (bodyChecksums old)) serverError (\<lambda>_.
       writeRaw (if prev = None then 201 else 200) (withFileURLs cf r og raw))))"

definition putCookbookVersion :: "settings \<Rightarrow> request \<Rightarrow> string \<Rightarrow> string \<Rightarrow> string \<Rightarrow> handler" where
  "putCookbookVersion cf r og name version = withOrg og
     (case validateCookbookURL name version of
        Some msg \<Rightarrow> writeError 400 [msg]
      | None \<Rightarrow>
          (case decodeManifestBody cf r of
             Inl e \<Rightarrow> writeManifestError e
           | Inr ms \<Rightarrow>
               (case validateCookbookManifest (numberText cf) ms name version (requestAPIVersion r \<ge> 2) of
                  (_, Some msg) \<Rightarrow> writeError 400 [msg]
                | (obj, None) \<Rightarrow>
                    (let raw = Doc (encoded (numberText cf) (JObj obj)) in
                     case DecodeObject raw of
                       None \<Rightarrow> writeError 400 [''invalid JSON body'']
                     | Some m \<Rightarrow> requireBlobs og (manifestChecksums m) notUploaded
                         (storeManifest cf r og (cookbookKey name version) raw)))))"

definition putArtifactVersion :: "settings \<Rightarrow> request \<Rightarrow> string \<Rightarrow> string \<Rightarrow> string \<Rightarrow> handler" where
  "putArtifactVersion cf r og name ident = withOrg og
     (tryE (org_Get og artifactsColl (cookbookKey name ident)) serverError (\<lambda>existing.
        if existing \<noteq> None then
          writeError 409 [''Cookbook artifact '' @ name @ '' with identifier '' @ ident @ '' already exists'']
        else (case decodeManifestBody cf r of
            Inl e \<Rightarrow> writeManifestError e
          | Inr ms \<Rightarrow>
              (case checkManifestShape r ms of
                 Some e \<Rightarrow> writeManifestError e
               | None \<Rightarrow>
                   (case DecodeObject (Doc (JObj ms)) of
                      None \<Rightarrow> writeError 400 [''invalid JSON body'']
                    | Some m \<Rightarrow> requireBlobs og (manifestChecksums m) notUploaded
                        (tryE (org_Put og artifactsColl (cookbookKey name ident) (Doc (JObj ms))) serverError (\<lambda>_.
                           writeRaw 201 (withFileURLs cf r og (Doc (JObj ms))))))))))"

section \<open>Versions\<close>

definition newerVersion :: "string \<Rightarrow> string \<Rightarrow> bool" where
  "newerVersion a b = (compareVersions a b > 0)"

definition groupVersions :: "string list \<Rightarrow> (string \<times> string list) list" where
  "groupVersions keys = fold (\<lambda>key out. case cutAt ''/'' key of
     None \<Rightarrow> out | Some (name, version) \<Rightarrow> AList.update name (getd [] out name @ [version]) out) keys []"

definition cookbookVersions :: "string \<Rightarrow> (body store, serr, (string \<times> string list) list) act" where
  "cookbookVersions og = bindE (org_Keys og cookbooksColl) (\<lambda>keys.
     ret (map (\<lambda>(name, vs). (name, sortSlice newerVersion vs)) (groupVersions keys)))"

definition resolveVersion :: "string \<Rightarrow> string \<Rightarrow> string \<Rightarrow> (body store, serr, string option) act" where
  "resolveVersion og name version =
     (if version \<noteq> ''_latest'' \<and> version \<noteq> ''latest'' then ret (Some version)
      else bindE (cookbookVersions og) (\<lambda>cv.
        ret (case getd [] cv name of [] \<Rightarrow> None | v # _ \<Rightarrow> Some v)))"

definition deleteVersionedACL :: "string \<Rightarrow> string \<Rightarrow> string \<Rightarrow> (body store, serr, unit) act" where
  "deleteVersionedACL og coll name = bindE (hasVersion og coll name) (\<lambda>remaining.
     if remaining then ret () else deleteACL og coll name)"

section \<open>Deletion\<close>

text \<open>What both deletions do once they know the key: remove the manifest, the ACL with the last version,
  and the files nothing refers to any more.\<close>

definition dropManifest :: "settings \<Rightarrow> request \<Rightarrow> string \<Rightarrow> string \<Rightarrow> string \<Rightarrow> string \<Rightarrow> string \<Rightarrow> handler" where
  "dropManifest cf r og coll name key message =
     tryE (org_Delete og coll key) serverError (\<lambda>old.
       case old of
         None \<Rightarrow> writeError 404 [message]
       | Some raw \<Rightarrow>
           tryE (deleteVersionedACL og coll name) serverError (\<lambda>_.
             case UnmarshalMap raw of
               None \<Rightarrow> writeRaw 200 raw
             | Some m \<Rightarrow> tryE (gcOrphanedBlobs og (manifestChecksums m)) serverError (\<lambda>_.
                 writeRaw 200 (withFileURLs cf r og raw))))"

definition deleteCookbookVersion :: "settings \<Rightarrow> request \<Rightarrow> string \<Rightarrow> string \<Rightarrow> string \<Rightarrow> handler" where
  "deleteCookbookVersion cf r og name version = withOrg og
     (tryE (resolveVersion og name version) serverError (\<lambda>v.
        case v of
          None \<Rightarrow> writeError 404 [''Cannot find a cookbook named '' @ name]
        | Some ver \<Rightarrow> dropManifest cf r og cookbooksColl name (cookbookKey name ver)
            (''Cannot find a cookbook named '' @ name @ '' version '' @ ver)))"

definition deleteArtifactVersion :: "settings \<Rightarrow> request \<Rightarrow> string \<Rightarrow> string \<Rightarrow> string \<Rightarrow> handler" where
  "deleteArtifactVersion cf r og name ident = withOrg og
     (dropManifest cf r og artifactsColl name (cookbookKey name ident)
        (''Cannot find a cookbook artifact named '' @ name @ '' with identifier '' @ ident))"


section \<open>Blobs\<close>

abbreviation blobMap :: "'v store \<Rightarrow> string \<Rightarrow> string \<rightharpoonup> string" where
  "blobMap s og \<equiv> map_of (blobs_of (backend s) og)"

lemma blobMap_same: "same s s' \<Longrightarrow> blobMap s' o' = blobMap s o'"
  by (simp add: same_def)

lemma blobMap_frames:
  "wrote og c k v s s' \<Longrightarrow> blobMap s' o' = blobMap s o'" "erased og c k s s' \<Longrightarrow> blobMap s' o' = blobMap s o'"
  by (simp_all add: wrote_def erased_def blobs_of_def store_simps)

text \<open>\<open>reblobbed og f s s'\<close>: the blobs of one organization changed by \<open>f\<close>, and nothing else did.\<close>

definition reblobbed :: "string \<Rightarrow> ((string \<rightharpoonup> string) \<Rightarrow> string \<rightharpoonup> string) \<Rightarrow> 'v store \<Rightarrow> 'v store \<Rightarrow> bool" where
  "reblobbed og f s s' = (stored s' = stored s \<and> orgs (backend s') = orgs (backend s) \<and>
     (\<forall>o'. blobMap s' o' = (if o' = og then f (blobMap s og) else blobMap s o')) \<and> (wfS s \<longrightarrow> wfS s'))"

lemma wf_backend_blobs:
  assumes "wf_backend m" and "distinct (map fst bs)"
  shows "wf_backend (m\<lparr>blobs := AList.update og bs (blobs m)\<rparr>)"
proof -
  have "\<forall>(o', bs') \<in> set (AList.update og bs (blobs m)). distinct (map fst bs')"
    using assms update_range[of _ _ og bs "blobs m"] unfolding wf_backend_def by fast
  with assms show ?thesis unfolding wf_backend_def by (elim conjE, intro conjI) simp_all
qed

lemma blobs_distinct: "wf_backend m \<Longrightarrow> distinct (map fst (getd [] (blobs m) og))"
  using getd_Nil_cases[of "blobs m" og] by (auto simp: wf_backend_def)

lemma wp_PutBlob:
  assumes "\<And>s'. reblobbed og (\<lambda>bs. bs(c \<mapsto> content)) s s' \<Longrightarrow> Q () s'" and "\<And>s'. same s s' \<Longrightarrow> E ErrBackend s'"
  shows "wpE (org_PutBlob og c content) Q E s"
  unfolding org_PutBlob_def
proof (rule wp_call_write, unfold mem_PutBlob_def, rule refl)
  fix s' :: "'a store"
  assume b: "backend s' = backend s\<lparr>blobs := AList.update og (AList.update c content (getd [] (blobs (backend s)) og)) (blobs (backend s))\<rparr>"
  have "wfS s'" if "wfS s" unfolding b using that by (intro wf_backend_blobs) (simp_all add: blobs_distinct)
  then show "Q () s'" by (intro assms(1)) (auto simp: reblobbed_def b blobs_of_def map_of_update)
qed (rule assms(2))

lemma wp_DeleteBlob:
  assumes "\<And>s'. reblobbed og (\<lambda>bs. bs(c := None)) s s' \<Longrightarrow> Q () s'" and "\<And>s'. same s s' \<Longrightarrow> E ErrBackend s'"
  shows "wpE (org_DeleteBlob og c) Q E s"
  unfolding org_DeleteBlob_def
proof (rule wp_call_write, unfold mem_DeleteBlob_def, rule refl)
  fix s' :: "'a store"
  assume b: "backend s' = (case map_of (blobs (backend s)) og of None \<Rightarrow> backend s
      | Some bs \<Rightarrow> backend s\<lparr>blobs := AList.update og (AList.delete c bs) (blobs (backend s))\<rparr>)"
  show "Q () s'"
  proof (cases "map_of (blobs (backend s)) og")
    case None
    with b show ?thesis by (intro assms(1)) (auto simp: reblobbed_def blobs_of_def getd_def)
  next
    case (Some bs)
    then have bs: "getd [] (blobs (backend s)) og = bs" by (simp add: getd_def)
    have "wfS s'" if "wfS s" using b Some that blobs_distinct[of "backend s" og] bs by (simp add: wf_backend_blobs)
    with b Some bs show ?thesis
      by (intro assms(1)) (auto simp: reblobbed_def blobs_of_def map_of_delete_if)
  qed
qed (rule assms(2))

section \<open>What is referred to\<close>

definition manifestColls :: "string list" where
  "manifestColls = [cookbooksColl, artifactsColl]"

definition referenced :: "string \<Rightarrow> body store \<Rightarrow> string set" where
  "referenced og s = {c. \<exists>coll \<in> set manifestColls. \<exists>key raw. stored s og coll key = Some raw \<and> c \<in> set (bodyChecksums raw)}"

lemma wp_collChecksums:
  "same s s1 \<Longrightarrow> wpE (foldE keys (\<lambda>key refs. bindE (org_Get og coll key) (\<lambda>raw.
       ret (case raw of None \<Rightarrow> refs | Some b \<Rightarrow> refs @ bodyChecksums b))) refs)
     (\<lambda>refs' s'. same s s' \<and> set refs' = set refs \<union> {c. \<exists>key \<in> set keys. \<exists>raw. stored s og coll key = Some raw \<and> c \<in> set (bodyChecksums raw)})
     (\<lambda>e s'. e = ErrBackend \<and> same s s') s1"
proof (induction keys arbitrary: refs s1)
  case (Cons key keys)
  have st: "stored s1 = stored s" using Cons.prems by (rule stored_same)
  show ?case
    unfolding foldE.simps wp
  proof (rule wp_Get)
    fix s2 assume "same s1 s2"
    then show "wpE (foldE keys (\<lambda>key refs. bindE (org_Get og coll key) (\<lambda>raw.
           ret (case raw of None \<Rightarrow> refs | Some b \<Rightarrow> refs @ bodyChecksums b)))
         (case stored s1 og coll key of None \<Rightarrow> refs | Some b \<Rightarrow> refs @ bodyChecksums b))
       (\<lambda>refs' s'. same s s' \<and> set refs' = set refs \<union> {c. \<exists>k \<in> set (key # keys). \<exists>raw. stored s og coll k = Some raw \<and> c \<in> set (bodyChecksums raw)})
       (\<lambda>e s'. e = ErrBackend \<and> same s s') s2"
      by (intro wpE_mono[OF Cons.IH[OF same_trans[OF Cons.prems]]]) (auto simp: st split: option.splits)
  qed (use same_trans[OF Cons.prems] in auto)
qed (simp add: wp)

lemma wp_referencedChecksums:
  "wpE (referencedChecksums og) (\<lambda>refs s'. same s s' \<and> set refs = referenced og s) (\<lambda>e s'. e = ErrBackend \<and> same s s') s"
proof -
  let ?in = "\<lambda>coll. {c. \<exists>key raw. stored s og coll key = Some raw \<and> c \<in> set (bodyChecksums raw)}"
  have coll: "wpE (bindE (org_Keys og coll) (\<lambda>keys. foldE keys (\<lambda>key refs. bindE (org_Get og coll key) (\<lambda>raw.
       ret (case raw of None \<Rightarrow> refs | Some b \<Rightarrow> refs @ bodyChecksums b))) refs))
     (\<lambda>refs' s'. same s s' \<and> set refs' = set refs \<union> ?in coll) (\<lambda>e s'. e = ErrBackend \<and> same s s') s1"
    if s1: "same s s1" for coll refs s1
    unfolding wpE_bindE
  proof (rule wp_Keys)
    fix s2 assume "same s1 s2"
    note s2 = same_trans[OF s1 this]
    have ks: "{c. \<exists>key \<in> set (sort (map fst (coll_of (backend s1) og coll))). \<exists>raw. stored s og coll key = Some raw \<and> c \<in> set (bodyChecksums raw)} = ?in coll"
      using s1 set_keys_kv[of "backend s" og coll] by (auto simp: same_def)
    from wp_collChecksums[OF s2, where keys = "sort (map fst (coll_of (backend s1) og coll))" and og = og and coll = coll and refs = refs]
    show "wpE (foldE (sort (map fst (coll_of (backend s1) og coll))) (\<lambda>key refs. bindE (org_Get og coll key) (\<lambda>raw.
       ret (case raw of None \<Rightarrow> refs | Some b \<Rightarrow> refs @ bodyChecksums b))) refs)
     (\<lambda>refs' s'. same s s' \<and> set refs' = set refs \<union> ?in coll) (\<lambda>e s'. e = ErrBackend \<and> same s s') s2"
      unfolding ks .
  qed (use same_trans[OF s1] in auto)
  show ?thesis
    unfolding referencedChecksums_def foldE.simps wpE_bindE[of "bindE _ _"] wpE_ret
    by (rule wpE_mono[OF coll[OF same_refl]]; (elim conjE)?; (rule wpE_mono[OF coll])?)
      (auto simp: referenced_def manifestColls_def)
qed


section \<open>Collection\<close>

definition collected :: "string \<Rightarrow> string set \<Rightarrow> 'v store \<Rightarrow> 'v store \<Rightarrow> bool" where
  "collected og D s s' = reblobbed og (\<lambda>bs. bs |` (- D)) s s'"

lemma collected_same: "same s s' \<Longrightarrow> collected og {} s s'"
  by (simp add: collected_def reblobbed_def same_def restrict_map_def)

lemma collected_from_same: "same s s1 \<Longrightarrow> collected og D s1 s' \<Longrightarrow> collected og D s s'"
  by (simp add: collected_def reblobbed_def same_def)

lemma collected_step:
  "reblobbed og (\<lambda>bs. bs(c := None)) s s1 \<Longrightarrow> collected og D s1 s2 \<Longrightarrow> collected og (insert c D) s s2"
  by (auto simp: collected_def reblobbed_def restrict_map_def fun_eq_iff)

lemma wp_deleteBlobs:
  "wpE (forE cs (\<lambda>c. if c \<in> R then ret () else org_DeleteBlob og c)) (\<lambda>_. collected og (set cs - R) s)
     (\<lambda>e s'. e = ErrBackend \<and> (\<exists>D \<subseteq> set cs - R. collected og D s s')) s"
proof (induction cs arbitrary: s)
  case Nil
  show ?case by (simp add: wp collected_same)
next
  case (Cons c cs)
  show ?case
  proof (cases "c \<in> R")
    case True
    then show ?thesis unfolding forE.simps wp by (simp add: wp insert_Diff_if Cons.IH)
  next
    case False
    have fail: "\<exists>D' \<subseteq> set (c # cs) - R. collected og D' s s2"
      if "reblobbed og (\<lambda>bs. bs(c := None)) s s1" "D \<subseteq> set cs - R" "collected og D s1 s2" for s1 s2 D
      using collected_step[OF that(1,3)] that(2) False by (intro exI[of _ "insert c D"]) auto
    have full: "collected og (set (c # cs) - R) s s2"
      if "reblobbed og (\<lambda>bs. bs(c := None)) s s1" "collected og (set cs - R) s1 s2" for s1 s2
      using collected_step[OF that] False by (simp add: insert_Diff_if)
    show ?thesis
      unfolding forE.simps wpE_bindE if_not_P[OF False]
    proof (rule wp_DeleteBlob)
      fix s1 assume s1: "reblobbed og (\<lambda>bs. bs(c := None)) s s1"
      show "wpE (forE cs (\<lambda>c. if c \<in> R then ret () else org_DeleteBlob og c)) (\<lambda>_. collected og (set (c # cs) - R) s)
          (\<lambda>e s'. e = ErrBackend \<and> (\<exists>D \<subseteq> set (c # cs) - R. collected og D s s')) s1"
        by (rule wpE_mono[OF Cons.IH]) (use full[OF s1] fail[OF s1] in blast)+
    qed (blast intro: collected_same)
  qed
qed

lemma wp_gc:
  "wpE (gcOrphanedBlobs og cs) (\<lambda>_. collected og (set cs - referenced og s) s)
     (\<lambda>e s'. e = ErrBackend \<and> (\<exists>D \<subseteq> set cs - referenced og s. collected og D s s')) s"
proof (cases "cs = []")
  case True
  then show ?thesis by (simp add: gcOrphanedBlobs_def wp collected_same)
next
  case False
  show ?thesis
    unfolding gcOrphanedBlobs_def if_not_P[OF False] wpE_bindE
  proof (rule wpE_mono[OF wp_referencedChecksums], goal_cases)
    case (1 refs s1)
    then have s1: "same s s1" and refs: "set refs = referenced og s" by auto
    show ?case
      unfolding refs by (rule wpE_mono[OF wp_deleteBlobs]) (use collected_from_same[OF s1] in blast)+
  qed (blast intro: collected_same)
qed

section \<open>The store is sound\<close>

definition blobsSound :: "string \<Rightarrow> body store \<Rightarrow> bool" where
  "blobsSound og s = (referenced og s \<subseteq> dom (blobMap s og) \<and>
     (\<forall>c content. blobMap s og c = Some content \<longrightarrow> md5Hex content = c))"

lemma referenced_cong:
  "(\<And>coll. coll \<in> set manifestColls \<Longrightarrow> stored s' og coll = stored s og coll) \<Longrightarrow> referenced og s' = referenced og s"
  unfolding referenced_def by simp

lemma blobsSound_same: "same s s' \<Longrightarrow> blobsSound og s' = blobsSound og s"
  by (simp add: blobsSound_def referenced_def same_def)

lemma blobsSound_collected:
  assumes "collected og' D s s'" and "og' = og \<Longrightarrow> D \<inter> referenced og s = {}" and "blobsSound og s"
  shows "blobsSound og s'"
proof -
  have "stored s' = stored s" using assms(1) by (simp add: collected_def reblobbed_def)
  then have ref: "referenced og s' = referenced og s" by (simp add: referenced_def)
  have "blobMap s' og = (if og = og' then blobMap s og |` (- D) else blobMap s og)"
    using assms(1) unfolding collected_def reblobbed_def by metis
  with assms(2,3) ref show ?thesis
    by (auto simp: blobsSound_def restrict_map_def split: if_splits)
qed

lemma blobsSound_other:
  assumes "blobMap s' og = blobMap s og" and "referenced og s' \<subseteq> referenced og s" and "blobsSound og s"
  shows "blobsSound og s'"
  using assms unfolding blobsSound_def by auto

lemma referenced_wrote:
  "wrote og' c k v s s' \<Longrightarrow> referenced og s' \<subseteq> referenced og s \<union> (if og' = og \<and> c \<in> set manifestColls then set (bodyChecksums v) else {})"
  by (auto simp: referenced_def stored_wrote split: if_splits)

lemma referenced_erased: "erased og' c k s s' \<Longrightarrow> referenced og s' \<subseteq> referenced og s"
  by (auto simp: referenced_def stored_erased split: if_splits)

lemma blobsSound_wrote:
  assumes "wrote og' c k v s s'" and "og' = og \<and> c \<in> set manifestColls \<Longrightarrow> set (bodyChecksums v) \<subseteq> dom (blobMap s og)" and "blobsSound og s"
  shows "blobsSound og s'"
proof -
  have "blobMap s' og = blobMap s og" using assms(1) by (rule blobMap_frames)
  with referenced_wrote[OF assms(1), of og] assms(2,3) show ?thesis
    unfolding blobsSound_def by (auto split: if_splits)
qed

lemma blobsSound_erased: "erased og' c k s s' \<Longrightarrow> blobsSound og s \<Longrightarrow> blobsSound og s'"
  by (rule blobsSound_other) (simp_all add: blobMap_frames(2) referenced_erased)


section \<open>Required files\<close>

lemma wp_requireBlobs:
  assumes "\<And>s'. same s s' \<Longrightarrow> set sums \<subseteq> dom (blobMap s og) \<Longrightarrow> wpH k R s'"
    and "\<And>s' c. same s s' \<Longrightarrow> c \<in> set sums \<Longrightarrow> blobMap s og c = None \<Longrightarrow> R (Reply 400 (errorBody [msg c])) s'"
    and "\<And>s'. same s s' \<Longrightarrow> R (Failure ErrBackend) s'"
  shows "wpH (requireBlobs og sums msg k) R s"
proof -
  have "wpH (foldr (\<lambda>c rest. tryE (org_HasBlob og c) serverError (\<lambda>has. if \<not> has then writeError 400 [msg c] else rest)) sums' k) R s1"
    if "same s s1" "set sums' \<subseteq> set sums" "set sums - set sums' \<subseteq> dom (blobMap s og)" for sums' s1
    using that
  proof (induction sums' arbitrary: s1)
    case Nil
    then show ?case by (simp add: assms(1))
  next
    case (Cons c sums')
    show ?case
      unfolding foldr.simps comp_apply wpH_tryE wpH_if
    proof (rule wp_HasBlob)
      fix s2 assume "same s1 s2"
      note s2 = same_trans[OF Cons.prems(1) this]
      have bm: "blobMap s1 og = blobMap s og" using Cons.prems(1) by (rule blobMap_same)
      show "if \<not> blobMap s1 og c \<noteq> None then wpH (writeError 400 [msg c]) R s2
          else wpH (foldr (\<lambda>c rest. tryE (org_HasBlob og c) serverError (\<lambda>has. if \<not> has then writeError 400 [msg c] else rest)) sums' k) R s2"
      proof (cases "blobMap s og c")
        case None
        then show ?thesis using Cons.prems(2) s2 assms(2) by (simp add: bm wp)
      next
        case (Some b)
        have "set sums - set sums' \<subseteq> dom (blobMap s og)" using Cons.prems(3) Some by auto
        then show ?thesis using Cons.IH[OF s2] Cons.prems(2) Some by (simp add: bm)
      qed
    qed (use same_trans[OF Cons.prems(1)] in \<open>simp add: wp assms(3)\<close>)
  qed
  from this[OF same_refl subset_refl] show ?thesis by (simp add: requireBlobs_def)
qed

section \<open>Every handler keeps the store sound\<close>

lemma sound_same: "same s s' \<Longrightarrow> blobsSound og s \<Longrightarrow> blobsSound og s'"
  by (simp add: blobsSound_same)

lemma sound_withOrg [keepsI]: "keepsH (blobsSound og) h \<Longrightarrow> keepsH (blobsSound og) (withOrg og' h)"
  by (rule keepsH_withOrg) (rule sound_same)

lemma sound_reads: "reads m \<Longrightarrow> keeps (blobsSound og) m"
  by (rule keeps_reads) (rule sound_same)

lemmas [keepsI] = reads_primitives[THEN sound_reads]

lemma sound_Delete [keepsI]: "keeps (blobsSound og) (org_Delete og' c k)"
  by (auto simp: keeps_def sound_same blobsSound_erased intro!: wp_Delete)

lemma sound_Put: "c \<notin> set manifestColls \<Longrightarrow> keeps (blobsSound og) (org_Put og' c k v)"
  by (auto simp: keeps_def sound_same intro!: wp_Put intro: blobsSound_wrote)

lemma sound_gc [keepsI]: "keeps (blobsSound og) (gcOrphanedBlobs og' cs)"
  unfolding keeps_def
proof (intro allI impI)
  fix s assume s: "blobsSound og s"
  have "blobsSound og s'" if "collected og' D s s'" "D \<subseteq> set cs - referenced og' s" for D s'
    by (rule blobsSound_collected[OF that(1) _ s]) (use that(2) in auto)
  then show "wpE (gcOrphanedBlobs og' cs) (\<lambda>_. blobsSound og) (\<lambda>_. blobsSound og) s"
    by (intro wpE_mono[OF wp_gc]) blast+
qed

lemma sound_putFile: "keepsH (blobsSound og) (putFile og' checksum content)"
proof -
  have "blobsSound og s'" if "reblobbed og' (\<lambda>bs. bs(md5Hex content \<mapsto> content)) s s'" "blobsSound og s" for s s'
  proof -
    have "referenced og s' = referenced og s" using that(1) by (simp add: reblobbed_def referenced_def)
    moreover have "blobMap s' og = (if og = og' then (blobMap s og)(md5Hex content \<mapsto> content) else blobMap s og)"
      using that(1) unfolding reblobbed_def by metis
    ultimately show ?thesis using that(2) by (auto simp: blobsSound_def split: if_splits)
  qed
  then have "keeps (blobsSound og) (org_PutBlob og' (md5Hex content) content)"
    by (auto simp: keeps_def sound_same intro!: wp_PutBlob)
  then show ?thesis unfolding putFile_def by (auto intro!: keepsI)
qed

lemma not_manifestColl: "sandboxesColl \<notin> set manifestColls" "aclsColl \<notin> set manifestColls"
  by (simp_all add: manifestColls_def cookbooksColl_def artifactsColl_def sandboxesColl_def aclsColl_def)

lemma sound_requireBlobs: "keepsH (blobsSound og) k \<Longrightarrow> keepsH (blobsSound og) (requireBlobs og' sums msg k)"
  unfolding keepsH_def by (auto intro!: wp_requireBlobs simp: sound_same)

lemma sound_sandboxes:
  "keepsH (blobsSound og) (createSandbox cf r og')" "keepsH (blobsSound og) (commitSandbox og' sid)"
  unfolding createSandbox_def commitSandbox_def Let_def
  by (intro keepsI keeps_foldE sound_Put sound_requireBlobs not_manifestColl)+


text \<open>The checksums verified at upload are those that the collector will read back.\<close>

lemma bodyChecksums_unrepeated:
  "\<not> hasRepeatedNames (JObj ms) \<Longrightarrow> DecodeObject (Doc (JObj ms)) = Some m \<Longrightarrow> bodyChecksums (Doc (JObj ms)) = manifestChecksums m"
  using unrepeated_doc[of ms] by (simp add: bodyChecksums_def)

lemma sound_manifest_write:
  assumes "set (bodyChecksums raw) \<subseteq> dom (blobMap s og')" and "blobsSound og s"
    and "\<And>s'. wrote og' coll key raw s s' \<Longrightarrow> blobsSound og s' \<Longrightarrow> Q () s'" and "\<And>s'. blobsSound og s' \<Longrightarrow> E ErrBackend s'"
  shows "wpE (org_Put og' coll key raw) Q E s"
  by (rule wp_Put) (use assms sound_same in \<open>auto intro: blobsSound_wrote\<close>)

lemma sound_storeManifest:
  assumes "set (bodyChecksums raw) \<subseteq> dom (blobMap s og')" and "blobsSound og s"
  shows "wpH (storeManifest cf r og' key raw) (\<lambda>_. blobsSound og) s"
  unfolding storeManifest_def wpH_tryE[of "org_Get _ _ _"] wpH_tryE[of "org_Put _ _ _ _"]
proof (rule wp_Get)
  fix s1 assume s1: "same s s1"
  define prev where "prev = stored s og' cookbooksColl key"
  have rest: "keepsH (blobsSound og) (tryE (case prev of None \<Rightarrow> ret () | Some old \<Rightarrow> gcOrphanedBlobs og' (bodyChecksums old)) serverError (\<lambda>_.
      writeRaw (if prev = None then 201 else 200) (withFileURLs cf r og' raw)))"
    by (intro keepsI)
  show "wpE (org_Put og' cookbooksColl key raw) (\<lambda>_. wpH (tryE (case stored s og' cookbooksColl key of None \<Rightarrow> ret () | Some old \<Rightarrow> gcOrphanedBlobs og' (bodyChecksums old)) serverError (\<lambda>_.
      writeRaw (if stored s og' cookbooksColl key = None then 201 else 200) (withFileURLs cf r og' raw))) (\<lambda>_. blobsSound og))
      (\<lambda>e. wpH (serverError e) (\<lambda>_. blobsSound og)) s1"
    unfolding prev_def[symmetric]
    by (rule sound_manifest_write[where og = og])
      (use assms s1 rest in \<open>simp_all add: blobMap_same blobsSound_same keepsH_def wp\<close>)
qed (use assms(2) in \<open>simp add: wp blobsSound_same\<close>)

lemma keepsH_manifestError [keepsI]: "keepsH I (writeManifestError e)"
  by (cases e) (simp_all add: writeManifestError_def keepsH_replies)

lemma decodeManifestBody_unrepeated: "decodeManifestBody cf r = Inr ms \<Longrightarrow> \<not> hasRepeatedNames (JObj ms)"
  by (auto simp: decodeManifestBody_def split: option.splits if_splits)

lemma sound_putCookbookVersion: "keepsH (blobsSound og) (putCookbookVersion cf r og' name version)"
proof -
  have "keepsH (blobsSound og) (requireBlobs og' (manifestChecksums m) notUploaded (storeManifest cf r og' key (Doc (JObj ms))))"
    if "\<not> hasRepeatedNames (JObj ms)" "DecodeObject (Doc (JObj ms)) = Some m" for ms m key
    unfolding keepsH_def
  proof (intro allI impI)
    fix s assume s: "blobsSound og s"
    show "wpH (requireBlobs og' (manifestChecksums m) notUploaded (storeManifest cf r og' key (Doc (JObj ms)))) (\<lambda>_. blobsSound og) s"
      by (rule wp_requireBlobs; (rule sound_storeManifest)?)
        (use s bodyChecksums_unrepeated[OF that] in \<open>simp_all add: blobMap_same blobsSound_same\<close>)
  qed
  moreover have "\<exists>ms'. encoded (numberText cf) (JObj obj) = JObj ms' \<and> \<not> hasRepeatedNames (JObj ms')"
    if "\<not> hasRepeatedNames (JObj ms)" "obj = fillDefaults ms" for ms obj
  proof -
    obtain ms' where e: "encoded (numberText cf) (JObj obj) = JObj ms'" by simp
    have "\<not> hasRepeatedNames (JObj ms')"
      unfolding e[symmetric] repeated_encoded using that by (simp only: unrepeated_fillDefaults not_False_eq_True)
    with e show ?thesis by blast
  qed
  ultimately have body: "keepsH (blobsSound og) (case DecodeObject (Doc (encoded (numberText cf) (JObj (fillDefaults ms)))) of
        None \<Rightarrow> writeError 400 [''invalid JSON body'']
      | Some m \<Rightarrow> requireBlobs og' (manifestChecksums m) notUploaded
          (storeManifest cf r og' key (Doc (encoded (numberText cf) (JObj (fillDefaults ms))))))"
    if "\<not> hasRepeatedNames (JObj ms)" for ms key
    using that by (metis (no_types, lifting) keepsH_replies(3) option.case_eq_if option.collapse)
  have checked: "keepsH (blobsSound og) (case validateCookbookManifest (numberText cf) ms name version v2 of
        (_, Some msg) \<Rightarrow> writeError 400 [msg]
      | (obj, None) \<Rightarrow> (let raw = Doc (encoded (numberText cf) (JObj obj)) in
          case DecodeObject raw of None \<Rightarrow> writeError 400 [''invalid JSON body'']
          | Some m \<Rightarrow> requireBlobs og' (manifestChecksums m) notUploaded (storeManifest cf r og' key raw)))"
    if "\<not> hasRepeatedNames (JObj ms)" for ms key v2
    unfolding validateCookbookManifest_def Let_def prod.case
    by (cases "checkManifest (numberText cf) (fillDefaults ms) name version v2")
      (simp_all only: option.case body[OF that] keepsH_replies)
  show ?thesis
    unfolding putCookbookVersion_def
    by (cases "decodeManifestBody cf r"; intro sound_withOrg keepsH_branches(2) keepsH_replies)
      (simp_all only: sum.case keepsH_manifestError checked[OF decodeManifestBody_unrepeated])
qed


lemma sound_putArtifactVersion: "keepsH (blobsSound og) (putArtifactVersion cf r og' name ident)"
proof -
  have body: "keepsH (blobsSound og) (requireBlobs og' (manifestChecksums m) notUploaded
      (tryE (org_Put og' artifactsColl key (Doc (JObj ms))) serverError (\<lambda>_. writeRaw 201 (withFileURLs cf r og' (Doc (JObj ms))))))"
    if "\<not> hasRepeatedNames (JObj ms)" "DecodeObject (Doc (JObj ms)) = Some m" for ms m key
    unfolding keepsH_def
  proof (intro allI impI)
    fix s assume s: "blobsSound og s"
    have "wpH (tryE (org_Put og' artifactsColl key (Doc (JObj ms))) serverError (\<lambda>_. writeRaw 201 (withFileURLs cf r og' (Doc (JObj ms)))))
        (\<lambda>_. blobsSound og) s1" if "same s s1" "set (manifestChecksums m) \<subseteq> dom (blobMap s og')" for s1
      unfolding wpH_tryE
      by (rule sound_manifest_write[where og = og])
        (use s that bodyChecksums_unrepeated[OF \<open>\<not> hasRepeatedNames (JObj ms)\<close> \<open>DecodeObject _ = _\<close>]
          in \<open>simp_all add: blobMap_same blobsSound_same wp\<close>)
    then show "wpH (requireBlobs og' (manifestChecksums m) notUploaded (tryE (org_Put og' artifactsColl key (Doc (JObj ms))) serverError
        (\<lambda>_. writeRaw 201 (withFileURLs cf r og' (Doc (JObj ms)))))) (\<lambda>_. blobsSound og) s"
      by (rule wp_requireBlobs) (use s in \<open>simp_all add: blobsSound_same\<close>)
  qed
  show ?thesis
    unfolding putArtifactVersion_def
  proof (intro sound_withOrg keepsH_tryE keepsH_branches(1,2) keepsH_replies)
    fix existing
    show "keepsH (blobsSound og) (case decodeManifestBody cf r of Inl e \<Rightarrow> writeManifestError e
       | Inr ms \<Rightarrow> (case checkManifestShape r ms of Some e \<Rightarrow> writeManifestError e
         | None \<Rightarrow> (case DecodeObject (Doc (JObj ms)) of None \<Rightarrow> writeError 400 [''invalid JSON body'']
           | Some m \<Rightarrow> requireBlobs og' (manifestChecksums m) notUploaded
               (tryE (org_Put og' artifactsColl (cookbookKey name ident) (Doc (JObj ms))) serverError (\<lambda>_.
                  writeRaw 201 (withFileURLs cf r og' (Doc (JObj ms))))))))"
    proof (cases "decodeManifestBody cf r")
      case (Inr ms)
      show ?thesis
        using body[OF decodeManifestBody_unrepeated[OF Inr]]
        by (cases "checkManifestShape r ms"; cases "DecodeObject (Doc (JObj ms))")
          (simp_all only: Inr sum.case option.case keepsH_manifestError keepsH_replies)
    qed (simp only: sum.case keepsH_manifestError)
  qed (intro keepsI)
qed

lemma reads_lookups [readsI]: "reads (cookbookVersions og)" "reads (resolveVersion og name version)"
  unfolding cookbookVersions_def resolveVersion_def by (intro readsI)+

lemma sound_dropManifest: "keepsH (blobsSound og) (dropManifest cf r og' coll name key message)"
  unfolding dropManifest_def deleteVersionedACL_def deleteACL_def
  by (intro keepsI sound_reads reads_lookups reads_hasVersion)

lemma sound_deletes:
  "keepsH (blobsSound og) (deleteCookbookVersion cf r og' name version)"
  "keepsH (blobsSound og) (deleteArtifactVersion cf r og' name ident)"
  unfolding deleteCookbookVersion_def deleteArtifactVersion_def
  by (intro sound_withOrg keepsH_tryE keepsH_branches keepsH_replies sound_dropManifest sound_reads reads_lookups)+

section \<open>Runs\<close>

text \<open>A step is one request to the file store, to sandboxes, to cookbooks or to artifacts, of any organization, whatever
  it answers; or anything that leaves the manifests and the files of the organization alone.\<close>

inductive cookbook_step :: "string \<Rightarrow> body store \<Rightarrow> body store \<Rightarrow> bool" for og where
  upload: "putFile og' checksum content s = (resp, s') \<Longrightarrow> cookbook_step og s s'"
| sandbox: "createSandbox cf r og' s = (resp, s') \<Longrightarrow> cookbook_step og s s'"
| commit: "commitSandbox og' sid s = (resp, s') \<Longrightarrow> cookbook_step og s s'"
| put_cookbook: "putCookbookVersion cf r og' name version s = (resp, s') \<Longrightarrow> cookbook_step og s s'"
| put_artifact: "putArtifactVersion cf r og' name ident s = (resp, s') \<Longrightarrow> cookbook_step og s s'"
| delete_cookbook: "deleteCookbookVersion cf r og' name version s = (resp, s') \<Longrightarrow> cookbook_step og s s'"
| delete_artifact: "deleteArtifactVersion cf r og' name ident s = (resp, s') \<Longrightarrow> cookbook_step og s s'"
| elsewhere: "(\<And>coll. coll \<in> set manifestColls \<Longrightarrow> stored s' og coll = stored s og coll) \<Longrightarrow> blobMap s' og = blobMap s og \<Longrightarrow>
    cookbook_step og s s'"

lemma cookbook_step_sound: "cookbook_step og s s' \<Longrightarrow> blobsSound og s \<Longrightarrow> blobsSound og s'"
proof (induction rule: cookbook_step.induct)
  case (elsewhere s' s)
  then show ?case using referenced_cong[of s' og s] by (simp add: blobsSound_def)
qed (rule keepsH_run[OF sound_putFile] keepsH_run[OF sound_sandboxes(1)] keepsH_run[OF sound_sandboxes(2)]
    keepsH_run[OF sound_putCookbookVersion] keepsH_run[OF sound_putArtifactVersion] keepsH_run[OF sound_deletes(1)]
    keepsH_run[OF sound_deletes(2)]; assumption)+

lemma cookbook_steps_sound: "(cookbook_step og)\<^sup>*\<^sup>* s s' \<Longrightarrow> blobsSound og s \<Longrightarrow> blobsSound og s'"
  by (induction rule: rtranclp_induct) (auto dest: cookbook_step_sound)


section \<open>What a deletion leaves\<close>

definition versionsLeft :: "string \<Rightarrow> string \<Rightarrow> string \<Rightarrow> body store \<Rightarrow> bool" where
  "versionsLeft og coll name s = (\<exists>key rest. stored s og coll key \<noteq> None \<and> cutAt ''/'' key = Some (name, rest))"

definition manifestDropped :: "string \<Rightarrow> string \<Rightarrow> string \<Rightarrow> string \<Rightarrow> body store \<Rightarrow> body store \<Rightarrow> bool" where
  "manifestDropped og coll name key s s' = (\<exists>raw. stored s og coll key = Some raw \<and>
     (\<forall>c k. c \<in> set manifestColls \<longrightarrow> stored s' og c k = (if c = coll \<and> k = key then None else stored s og c k)) \<and>
     (\<forall>c. blobMap s' og c = (if c \<in> set (bodyChecksums raw) \<and> c \<notin> referenced og s' then None else blobMap s og c)) \<and>
     stored s' og aclsColl (aclKey coll name) =
       (if versionsLeft og coll name s' then stored s og aclsColl (aclKey coll name) else None))"

lemma wp_hasVersion:
  assumes "\<And>s'. same s s' \<Longrightarrow> Q (versionsLeft og coll name s) s'" and "\<And>s'. same s s' \<Longrightarrow> E ErrBackend s'"
  shows "wpE (hasVersion og coll name) Q E s"
  unfolding hasVersion_def wp
proof (rule wp_Range)
  let ?cut = "\<lambda>key. case cutAt ''/'' key of None \<Rightarrow> False | Some (cb, _) \<Rightarrow> cb = name"
  fix s1 assume "same s s1"
  moreover have cut: "?cut key \<longleftrightarrow> (\<exists>rest. cutAt ''/'' key = Some (name, rest))" for key
    by (auto split: option.splits)
  have "list_ex ?cut (map fst (coll_of (backend s) og coll))
      \<longleftrightarrow> (\<exists>key \<in> fst ` set (coll_of (backend s) og coll). \<exists>rest. cutAt ''/'' key = Some (name, rest))"
    unfolding cut by (simp add: list_ex_iff split_beta)
  then have "list_ex ?cut (map fst (coll_of (backend s) og coll)) \<longleftrightarrow> versionsLeft og coll name s"
    unfolding versionsLeft_def set_keys_kv by auto
  ultimately show "Q (list_ex ?cut (map fst (coll_of (backend s) og coll))) s1"
    by (simp add: assms(1))
qed (rule assms(2))

text \<open>The ACL goes with the last version.\<close>

definition aclSettled :: "string \<Rightarrow> string \<Rightarrow> string \<Rightarrow> body store \<Rightarrow> body store \<Rightarrow> bool" where
  "aclSettled og coll name s s' = ((\<forall>c \<in> set manifestColls. stored s' og c = stored s og c) \<and> blobMap s' og = blobMap s og \<and>
     stored s' og aclsColl (aclKey coll name) =
       (if versionsLeft og coll name s then stored s og aclsColl (aclKey coll name) else None))"

lemma wp_deleteVersionedACL:
  assumes "\<And>s'. aclSettled og coll name s s' \<Longrightarrow> Q () s'" and "\<And>s'. E ErrBackend s'"
  shows "wpE (deleteVersionedACL og coll name) Q E s"
  unfolding deleteVersionedACL_def wpE_bindE
proof (rule wp_hasVersion)
  fix s1 assume s1: "same s s1"
  then have st: "stored s1 = stored s" and bm: "blobMap s1 og = blobMap s og" by (simp_all add: same_def)
  show "wpE (if versionsLeft og coll name s then ret () else deleteACL og coll name) Q E s1"
  proof (cases "versionsLeft og coll name s")
    case True
    then show ?thesis by (simp add: wp assms(1) aclSettled_def st bm)
  next
    case False
    have "aclSettled og coll name s s2" if "erased og aclsColl (aclKey coll name) s1 s2" for s2
      using that not_manifestColl(2) False
      by (auto simp: aclSettled_def stored_erased st bm blobMap_frames(2) fun_eq_iff)
    moreover have "aclSettled og coll name s s2" if "same s1 s2" "stored s og aclsColl (aclKey coll name) = None" for s2
      using that False by (simp add: aclSettled_def same_def st bm)
    ultimately show ?thesis
      unfolding if_not_P[OF False] deleteACL_def wp by (intro wp_Delete) (simp_all add: assms st)
  qed
qed (rule assms(2))

lemma manifestDropped_intro:
  assumes er: "erased og coll key s s1" and raw: "stored s og coll key = Some raw" and acl: "aclSettled og coll name s1 s2"
    and col: "collected og (set (bodyChecksums raw) - referenced og s2) s2 s3" and "coll \<in> set manifestColls"
  shows "manifestDropped og coll name key s s3"
proof -
  have st3: "stored s3 = stored s2" using col by (simp add: collected_def reblobbed_def)
  then have ref: "referenced og s3 = referenced og s2" by (simp add: referenced_def)
  have "aclsColl \<noteq> coll" using assms(5) not_manifestColl(2) by auto
  then have "stored s1 og aclsColl = stored s og aclsColl" by (simp add: stored_erased[OF er] fun_eq_iff)
  moreover have "versionsLeft og coll name s3 = versionsLeft og coll name s1"
    using acl assms(5) by (simp add: versionsLeft_def st3 aclSettled_def)
  moreover have "blobMap s3 og = blobMap s og |` (- (set (bodyChecksums raw) - referenced og s3))"
    using col acl blobMap_frames(2)[OF er] by (simp add: collected_def reblobbed_def aclSettled_def ref)
  ultimately show ?thesis
    using raw acl unfolding manifestDropped_def
    by (intro exI[of _ raw]) (auto simp: aclSettled_def st3 stored_erased[OF er] restrict_map_def)
qed

lemma wp_dropManifest:
  assumes "coll \<in> set manifestColls"
  shows "wpH (dropManifest cf r og coll name key message) (\<lambda>resp s'. \<forall>b. resp = Raw 200 b \<longrightarrow> manifestDropped og coll name key s s') s"
  unfolding dropManifest_def wpH_tryE[of "org_Delete _ _ _"] wpH_case_option
proof (rule wp_Delete)
  fix s1 raw assume raw: "stored s og coll key = Some raw" and er: "erased og coll key s s1"
  have full: "manifestDropped og coll name key s s3"
    if "aclSettled og coll name s1 s2" "collected og (set (bodyChecksums raw) - referenced og s2) s2 s3" for s2 s3
    by (rule manifestDropped_intro[OF er raw that assms])
  show "case Some raw of None \<Rightarrow> wpH (writeError 404 [message]) (\<lambda>resp s'. \<forall>b. resp = Raw 200 b \<longrightarrow> manifestDropped og coll name key s s') s1
     | Some raw \<Rightarrow> wpH (tryE (deleteVersionedACL og coll name) serverError (\<lambda>_. case UnmarshalMap raw of None \<Rightarrow> writeRaw 200 raw
         | Some m \<Rightarrow> tryE (gcOrphanedBlobs og (manifestChecksums m)) serverError (\<lambda>_. writeRaw 200 (withFileURLs cf r og raw))))
       (\<lambda>resp s'. \<forall>b. resp = Raw 200 b \<longrightarrow> manifestDropped og coll name key s s') s1"
    unfolding option.case wpH_tryE wpH_case_option
  proof (rule wp_deleteVersionedACL)
    fix s2 assume acl: "aclSettled og coll name s1 s2"
    show "case UnmarshalMap raw of None \<Rightarrow> wpH (writeRaw 200 raw) (\<lambda>resp s'. \<forall>b. resp = Raw 200 b \<longrightarrow> manifestDropped og coll name key s s') s2
      | Some m \<Rightarrow> wpE (gcOrphanedBlobs og (manifestChecksums m)) (\<lambda>_. wpH (writeRaw 200 (withFileURLs cf r og raw))
          (\<lambda>resp s'. \<forall>b. resp = Raw 200 b \<longrightarrow> manifestDropped og coll name key s s'))
          (\<lambda>e. wpH (serverError e) (\<lambda>resp s'. \<forall>b. resp = Raw 200 b \<longrightarrow> manifestDropped og coll name key s s')) s2"
    proof (cases "UnmarshalMap raw")
      case None
      then have "bodyChecksums raw = []" by (simp add: bodyChecksums_def)
      with full[OF acl, of s2] None show ?thesis by (simp add: wp collected_same)
    next
      case (Some m)
      then have "bodyChecksums raw = manifestChecksums m" by (simp add: bodyChecksums_def)
      with full[OF acl] Some show ?thesis by (auto simp: wp intro!: wpE_mono[OF wp_gc])
    qed
  qed (simp add: wp)
qed (simp_all add: wp)


section \<open>The newest version\<close>

definition versionsOf :: "string \<Rightarrow> string \<Rightarrow> body store \<Rightarrow> string set" where
  "versionsOf og name s = {v. \<exists>key. stored s og cookbooksColl key \<noteq> None \<and> cutAt ''/'' key = Some (name, v)}"

definition newest :: "string \<Rightarrow> string \<Rightarrow> string \<Rightarrow> body store \<Rightarrow> bool" where
  "newest og name ver s = (ver \<in> versionsOf og name s \<and>
     ((\<forall>v \<in> versionsOf og name s. validSegments v) \<longrightarrow> (\<forall>v \<in> versionsOf og name s. versionKey v \<le> versionKey ver)))"

lemma groupVersions_set: "set (getd [] (groupVersions keys) name) = {v. \<exists>key \<in> set keys. cutAt ''/'' key = Some (name, v)}"
proof -
  have "set (getd [] (fold (\<lambda>key out. case cutAt ''/'' key of None \<Rightarrow> out
      | Some (n, v) \<Rightarrow> AList.update n (getd [] out n @ [v]) out) keys out) name) =
      set (getd [] out name) \<union> {v. \<exists>key \<in> set keys. cutAt ''/'' key = Some (name, v)}" for out
    by (induction keys arbitrary: out) (auto split: option.splits prod.splits)
  then show ?thesis by (simp add: groupVersions_def)
qed

lemma getd_map: "f [] = [] \<Longrightarrow> getd [] (map (\<lambda>(n, vs). (n, f vs)) out) name = f (getd [] out name)"
  by (induction out) (auto simp: getd_def)

lemma sortSlice_Nil [simp]: "sortSlice before [] = []"
  by (simp add: sortSlice_def)

text \<open>The versions of one cookbook, sorted: what the handlers read off the result of \<open>cookbookVersions\<close>.\<close>

definition sortedVersions :: "string \<Rightarrow> string \<Rightarrow> body store \<Rightarrow> string list" where
  "sortedVersions og name s = sortSlice newerVersion (getd [] (groupVersions (sort (map fst (coll_of (backend s) og cookbooksColl)))) name)"

lemma set_sortedVersions: "set (sortedVersions og name s) = versionsOf og name s"
  using set_keys_kv[of "backend s" og cookbooksColl]
  by (auto simp: sortedVersions_def slice.set_sorter groupVersions_set versionsOf_def)

lemma wp_cookbookVersions:
  assumes "\<And>s' cv. same s s' \<Longrightarrow> (\<And>name. getd [] cv name = sortedVersions og name s) \<Longrightarrow> Q cv s'" and "\<And>s'. same s s' \<Longrightarrow> E ErrBackend s'"
  shows "wpE (cookbookVersions og) Q E s"
  unfolding cookbookVersions_def wp by (rule wp_Keys) (use assms in \<open>auto simp: sortedVersions_def getd_map\<close>)

lemma sortedVersions_newest:
  assumes "sortedVersions og name s = v # rest"
  shows "newest og name v s"
proof -
  have "v \<in> versionsOf og name s" using set_sortedVersions[of og name s] assms by auto
  moreover have "versionKey w \<le> versionKey v" if valid: "\<forall>v \<in> versionsOf og name s. validSegments v" and w: "w \<in> versionsOf og name s" for w
  proof -
    let ?vs = "getd [] (groupVersions (sort (map fst (coll_of (backend s) og cookbooksColl)))) name"
    have vs: "set ?vs = versionsOf og name s"
      using set_sortedVersions[of og name s] by (simp add: sortedVersions_def slice.set_sorter)
    have "weakOrderOn newerVersion (set ?vs)"
      unfolding newerVersion_def[abs_def] by (rule weakOrder_newest) (use valid vs in blast)
    from slice.sorter_head[OF this assms[unfolded sortedVersions_def], of w] w vs
    have "\<not> newerVersion w v" by blast
    then show ?thesis using newer_iff[of w v] valid w \<open>v \<in> _\<close> by (simp add: newerVersion_def not_less)
  qed
  ultimately show ?thesis by (simp add: newest_def)
qed

lemma wp_resolveVersion:
  assumes "\<And>s' v. same s s' \<Longrightarrow> (if version \<in> {''_latest'', ''latest''} then newest og name v s else v = version) \<Longrightarrow> Q (Some v) s'"
    and "\<And>s'. same s s' \<Longrightarrow> version \<in> {''_latest'', ''latest''} \<Longrightarrow> versionsOf og name s = {} \<Longrightarrow> Q None s'"
    and "\<And>s'. same s s' \<Longrightarrow> E ErrBackend s'"
  shows "wpE (resolveVersion og name version) Q E s"
proof (cases "version \<in> {''_latest'', ''latest''}")
  case False
  then show ?thesis using assms(1)[OF same_refl, of version] by (auto simp: resolveVersion_def wp)
next
  case True
  have "Q (case sortedVersions og name s of [] \<Rightarrow> None | v # _ \<Rightarrow> Some v) s'" if "same s s'" for s'
    using True that set_sortedVersions[of og name s] sortedVersions_newest[of og name s]
    by (auto split: list.split intro!: assms(1,2))
  moreover have "\<not> (version \<noteq> ''_latest'' \<and> version \<noteq> ''latest'')" using True by auto
  ultimately show ?thesis
    unfolding resolveVersion_def if_not_P[OF \<open>\<not> (version \<noteq> _ \<and> _)\<close>] wp
    by (intro wp_cookbookVersions) (simp_all add: assms(3))
qed

section \<open>Uploads complete\<close>

text \<open>The client: it announces the checksums of its files, uploads those the server asks for, and commits the sandbox it was given.\<close>

definition wanted :: "response \<Rightarrow> string \<Rightarrow> bool" where
  "wanted resp checksum = (case resp of
     Reply _ (JObj ms) \<Rightarrow> (case map_of ms ''checksums'' of
       Some (JObj sums) \<Rightarrow> (case map_of sums checksum of
         Some (JObj e) \<Rightarrow> map_of e ''needs_upload'' = Some (JBool True) | _ \<Rightarrow> False)
     | _ \<Rightarrow> False)
   | _ \<Rightarrow> False)"

definition givenSandbox :: "response \<Rightarrow> string" where
  "givenSandbox resp = (case resp of Reply _ (JObj ms) \<Rightarrow> (case stringAt ms ''sandbox_id'' of Some i \<Rightarrow> i | None \<Rightarrow> []) | _ \<Rightarrow> [])"

definition announce :: "string list \<Rightarrow> body" where
  "announce files = Doc (JObj [(''checksums'', JObj (map (\<lambda>f. (md5Hex f, JNull)) files))])"

fun uploadAll :: "string \<Rightarrow> string list \<Rightarrow> body store \<Rightarrow> response list \<times> body store" where
  "uploadAll og [] s = ([], s)"
| "uploadAll og (f # fs) s = (case putFile og (md5Hex f) f s of (resp, s1) \<Rightarrow>
     (case uploadAll og fs s1 of (resps, s2) \<Rightarrow> (resp # resps, s2)))"

definition uploadFlow :: "settings \<Rightarrow> request \<Rightarrow> string \<Rightarrow> string list \<Rightarrow> body store \<Rightarrow> (response \<times> response list \<times> response) \<times> body store" where
  "uploadFlow cf r og files s =
     (case createSandbox cf (r\<lparr>rq_body := announce files\<rparr>) og s of (created, s1) \<Rightarrow>
     (case uploadAll og (filter (\<lambda>f. wanted created (md5Hex f)) files) s1 of (uploads, s2) \<Rightarrow>
     (case commitSandbox og (givenSandbox created) s2 of (committed, s3) \<Rightarrow> ((created, uploads, committed), s3))))"

lemma announce_sums: "sandboxRequest (announce files) = Some (sort (remdups (map md5Hex files)))"
proof -
  have "toLower ''checksums'' = ''checksums''" by code_simp
  then show ?thesis
    by (simp add: announce_def sandboxRequest_def structMembers_def typedMapKeys_def membersFold_def comp_def)
qed

definition sandboxDoc :: "settings \<Rightarrow> string list \<Rightarrow> body" where
  "sandboxDoc cf sums = Doc (JObj [(''checksums'', JArr (map JStr sums)), (''create_time'', JStr (nowText cf)),
     (''is_completed'', JBool False), (''sandbox_id'', JStr (sandboxID sums))])"

lemma wp_probe:
  "same s s1 \<Longrightarrow> wpE (foldE sums (\<lambda>c out. bindE (org_HasBlob og c) (\<lambda>has. ret (out @ [(c, f c has)]))) out)
     (\<lambda>out' s'. same s s' \<and> out' = out @ map (\<lambda>c. (c, f c (blobMap s og c \<noteq> None))) sums) (\<lambda>e s'. True) s1"
proof (induction sums arbitrary: out s1)
  case (Cons c sums)
  show ?case
    unfolding foldE.simps wp
  proof (rule wp_HasBlob)
    fix s2 assume "same s1 s2"
    note IH = Cons.IH[OF same_trans[OF Cons.prems this]]
    show "wpE (foldE sums (\<lambda>c out. bindE (org_HasBlob og c) (\<lambda>has. ret (out @ [(c, f c has)]))) (out @ [(c, f c (blobMap s1 og c \<noteq> None))]))
        (\<lambda>out' s'. same s s' \<and> out' = out @ map (\<lambda>c. (c, f c (blobMap s og c \<noteq> None))) (c # sums)) (\<lambda>e s'. True) s2"
      by (rule wpE_mono[OF IH]) (simp_all add: blobMap_same[OF Cons.prems])
  qed simp
qed (simp add: wp)

lemma sure_probe: "sure (foldE sums (\<lambda>c out. bindE (org_HasBlob og c) (\<lambda>has. ret (out @ [(c, f c has)]))) out)"
proof (rule sure_foldE)
  fix c out
  show "sure (bindE (org_HasBlob og c) (\<lambda>has. ret (out @ [(c, f c has)])))"
    using sure_primitives(3)[of og c] unfolding sure_def wp by simp
qed

lemma sure_createSandbox:
  assumes "faults s = []" and "og \<in> set (orgs (backend s))" and "sandboxRequest (rq_body r) = Some sums"
  shows "wpH (createSandbox cf r og) (\<lambda>resp s'. faults s' = [] \<and> orgs (backend s') = orgs (backend s) \<and> blobMap s' og = blobMap s og \<and>
     stored s' og sandboxesColl (sandboxID sums) = Some (sandboxDoc cf sums) \<and>
     resp = Reply 201 (JObj [(''checksums'', JObj (map (\<lambda>c. (c, sandboxEntry cf r og c (blobMap s og c \<noteq> None))) sums)),
       (''sandbox_id'', JStr (sandboxID sums)), (''uri'', JStr (rq_base r @ ''/organizations/'' @ og @ ''/sandboxes/'' @ sandboxID sums))])) s"
  unfolding createSandbox_def
proof (rule sure_withOrg[OF assms(1,2)], goal_cases)
  case (1 s1)
  note probe = wp_sure[OF sure_probe 1(2) wp_probe[OF 1(1)]]
  show ?case
    unfolding assms(3) option.case Let_def wpH_tryE[of "foldE _ _ _"] wpH_tryE[of "org_Put _ _ _ _"]
  proof (rule wpE_mono[OF probe], goal_cases)
    case (1 out s2)
    have "wpE (org_Put og sandboxesColl (sandboxID sums) (sandboxDoc cf sums)) (\<lambda>_ s'. wrote og sandboxesColl (sandboxID sums) (sandboxDoc cf sums) s2 s' \<and> faults s' = [])
        (\<lambda>_ _. False) s2"
      by (rule wp_sure[OF sure_primitives(2)], use 1 in simp, rule wp_Put[where E = "\<lambda>_ _. True"]) simp_all
    then show ?case
      unfolding sandboxDoc_def[symmetric]
      by (rule wpE_mono) (use 1 in \<open>auto simp: wp wrote_def blobs_of_def same_def store_simps kv_def[symmetric]\<close>)
  qed simp
qed


lemma sure_putFile:
  assumes "faults s = []" and "og \<in> set (orgs (backend s))"
  shows "wpH (putFile og (md5Hex f) f) (\<lambda>resp s'. status resp = 200 \<and> faults s' = [] \<and> reblobbed og (\<lambda>bs. bs(md5Hex f \<mapsto> f)) s s') s"
  unfolding putFile_def
proof (rule sure_withOrg[OF assms], goal_cases)
  case (1 s1)
  have "wpE (org_PutBlob og (md5Hex f) f) (\<lambda>_ s'. reblobbed og (\<lambda>bs. bs(md5Hex f \<mapsto> f)) s1 s' \<and> faults s' = []) (\<lambda>_ _. False) s1"
    by (rule wp_sure[OF sure_primitives(4) 1(2)], rule wp_PutBlob[where E = "\<lambda>_ _. True"]) simp_all
  then have "wpE (org_PutBlob og (md5Hex f) f) (\<lambda>_. wpH (writeRaw 200 (Bytes [])) (\<lambda>resp s'. status resp = 200 \<and> faults s' = [] \<and>
      reblobbed og (\<lambda>bs. bs(md5Hex f \<mapsto> f)) s s')) (\<lambda>e. wpH (serverError e) (\<lambda>resp s'. status resp = 200 \<and> faults s' = [] \<and>
      reblobbed og (\<lambda>bs. bs(md5Hex f \<mapsto> f)) s s')) s1"
    by (rule wpE_mono) (use 1(1) in \<open>simp_all add: wp reblobbed_def same_def\<close>)
  then show ?case by (simp add: wp)
qed

lemma uploadAll_sure:
  "faults s = [] \<Longrightarrow> og \<in> set (orgs (backend s)) \<Longrightarrow> uploadAll og fs s = (resps, s') \<Longrightarrow>
   list_all (\<lambda>resp. status resp = 200) resps \<and> length resps = length fs \<and> faults s' = [] \<and> orgs (backend s') = orgs (backend s) \<and>
   stored s' = stored s \<and> dom (blobMap s' og) = dom (blobMap s og) \<union> set (map md5Hex fs)"
proof (induction fs arbitrary: s resps s')
  case (Cons f fs)
  obtain resp s1 where 1: "putFile og (md5Hex f) f s = (resp, s1)" by fastforce
  obtain rest s2 where 2: "uploadAll og fs s1 = (rest, s2)" by fastforce
  have p: "status resp = 200" "faults s1 = []" "reblobbed og (\<lambda>bs. bs(md5Hex f \<mapsto> f)) s s1"
    using wpH_result[OF sure_putFile[OF Cons.prems(1,2)] 1] by auto
  then have "og \<in> set (orgs (backend s1))" using Cons.prems(2) by (simp add: reblobbed_def)
  from Cons.IH[OF p(2) this 2] Cons.prems(3) 1 2 p show ?case by (auto simp: reblobbed_def)
qed simp

lemma sure_requireBlobs:
  assumes "faults s = []" and "set sums \<subseteq> dom (blobMap s og)"
    and "\<And>s'. same s s' \<Longrightarrow> faults s' = [] \<Longrightarrow> wpH k R s'"
  shows "wpH (requireBlobs og sums msg k) R s"
proof -
  have "wpH (foldr (\<lambda>c rest. tryE (org_HasBlob og c) serverError (\<lambda>has. if \<not> has then writeError 400 [msg c] else rest)) sums' k) R s1"
    if "same s s1" "faults s1 = []" "set sums' \<subseteq> dom (blobMap s og)" for sums' s1
    using that
  proof (induction sums' arbitrary: s1)
    case (Cons c sums')
    have "wpE (org_HasBlob og c) (\<lambda>has s'. (has \<and> same s s') \<and> faults s' = []) (\<lambda>_ _. False) s1"
      by (rule wp_sure[OF sure_primitives(3) Cons.prems(2)], rule wp_HasBlob[where E = "\<lambda>_ _. True"])
        (use Cons.prems(3) same_trans[OF Cons.prems(1)] blobMap_same[OF Cons.prems(1), of og] in auto)
    then show ?case unfolding foldr.simps comp_apply wpH_tryE by (rule wpE_mono) (use Cons in \<open>simp_all add: wp\<close>)
  qed (simp add: assms(3))
  from this[OF same_refl assms(1,2)] show ?thesis by (simp add: requireBlobs_def)
qed

lemma sandboxDoc_fields:
  "\<exists>ms. structMembers (sandboxDoc cf sums) = Some ms \<and> typedField ms ''checksums'' = Some sums"
proof -
  have low: "toLower ''checksums'' = ''checksums''" "toLower ''create_time'' \<noteq> ''checksums''" "toLower ''is_completed'' \<noteq> ''checksums''"
    "toLower ''sandbox_id'' \<noteq> ''checksums''" by code_simp+
  have "those (map (\<lambda>e. case e of JStr s \<Rightarrow> Some s | JNull \<Rightarrow> Some [] | _ \<Rightarrow> None) (map JStr sums)) = Some sums"
    by (induction sums) simp_all
  then show ?thesis by (simp add: sandboxDoc_def structMembers_def typedField_def membersFold_def low)
qed

lemma sure_commitSandbox:
  assumes "faults s = []" and "og \<in> set (orgs (backend s))" and "stored s og sandboxesColl sid = Some (sandboxDoc cf sums)"
    and "set sums \<subseteq> dom (blobMap s og)"
  shows "wpH (commitSandbox og sid) (\<lambda>resp s'. status resp = 200 \<and> blobMap s' og = blobMap s og) s"
  unfolding commitSandbox_def
proof (rule sure_withOrg[OF assms(1,2)], goal_cases)
  case (1 s1)
  obtain ms where ms: "structMembers (sandboxDoc cf sums) = Some ms" "typedField ms ''checksums'' = Some sums"
    using sandboxDoc_fields by blast
  have "wpE (org_Get og sandboxesColl sid) (\<lambda>raw s'. (raw = Some (sandboxDoc cf sums) \<and> same s s') \<and> faults s' = []) (\<lambda>_ _. False) s1"
    by (rule wp_sure[OF sure_primitives(1) 1(2)], rule wp_Get[where E = "\<lambda>_ _. True"])
      (use same_trans[OF 1(1)] stored_same[OF 1(1)] assms(3) in auto)
  then show ?case
    unfolding wpH_tryE[of "org_Get _ _ _"]
  proof (rule wpE_mono, goal_cases)
    case (1 raw s2)
    then have s2: "same s s2" "faults s2 = []" and raw: "raw = Some (sandboxDoc cf sums)" by auto
    have put: "wpE (org_Put og c k v) (\<lambda>_ s'. blobMap s' og = blobMap s3 og \<and> faults s' = []) (\<lambda>_ _. False) s3" if "faults s3 = []" for c k v s3
      by (rule wp_sure[OF sure_primitives(2) that], rule wp_Put[where E = "\<lambda>_ _. True"]) (simp_all add: blobMap_frames)
    have sub: "set sums \<subseteq> dom (blobMap s2 og)" using assms(4) blobMap_same[OF s2(1)] by simp
    show ?case
      unfolding raw option.case ms Let_def
    proof (rule sure_requireBlobs[OF s2(2) sub], goal_cases)
      case (1 s3)
      have "blobMap s3 og = blobMap s og" using blobMap_same[OF same_trans[OF s2(1) 1(1)]] .
      then show ?case unfolding wpH_tryE by (intro wpE_mono[OF put[OF 1(2)]]) (simp_all add: wp)
    qed
  qed simp
qed


section \<open>Properties\<close>





text \<open>A store with a cookbook of one version, for the witnesses.\<close>

definition oneCookbook :: "body store" where
  "oneCookbook = NewWithBackend (mem_set ''o'' cookbooksColl ''app/1.0.0'' (Doc (JObj [(''name'', JStr ''app-1.0.0'')]))
     (NewMemoryBackend\<lparr>orgs := [''o'']\<rparr>))"

definition plainSettings :: settings where
  "plainSettings = \<lparr>fileStoreKey = [], nowUnix = 0, nowText = [], numberText = (\<lambda>_. None)\<rparr>"

definition plainRequest :: "string \<Rightarrow> body \<Rightarrow> request" where
  "plainRequest meth b = \<lparr>rq_Method = meth, rq_Path = [], rq_body = b, rq_actor = None, rq_base = [], rq_preread = None,
     rq_apiVersion = [], rq_query = []\<rparr>"


text \<open>C19. Uploads complete: as long as the backend does not fail, a client that announces its files, uploads those it is asked for
  and commits the sandbox it was given gets 201, then 200 for each upload, then 200; and every file it
  announced is in the store.\<close>

theorem upload_completes:
  assumes "faults s = []" and "og \<in> set (orgs (backend s))"
  shows "case uploadFlow cf r og files s of ((created, uploads, committed), s') \<Rightarrow>
    status created = 201 \<and> list_all (\<lambda>resp. status resp = 200) uploads \<and> status committed = 200 \<and>
    (\<forall>f \<in> set files. map_of (blobs_of (backend s') og) (md5Hex f) \<noteq> None)"
proof -
  let ?r = "r\<lparr>rq_body := announce files\<rparr>"
  let ?sums = "sort (remdups (map md5Hex files))"
  obtain created s1 where 1: "createSandbox cf ?r og s = (created, s1)" by fastforce
  have c: "faults s1 = []" "orgs (backend s1) = orgs (backend s)" "blobMap s1 og = blobMap s og"
    "stored s1 og sandboxesColl (sandboxID ?sums) = Some (sandboxDoc cf ?sums)"
    "created = Reply 201 (JObj [(''checksums'', JObj (map (\<lambda>c. (c, sandboxEntry cf ?r og c (blobMap s og c \<noteq> None))) ?sums)),
       (''sandbox_id'', JStr (sandboxID ?sums)), (''uri'', JStr (rq_base ?r @ ''/organizations/'' @ og @ ''/sandboxes/'' @ sandboxID ?sums))])"
    using wpH_result[OF sure_createSandbox[OF assms, of ?r ?sums cf] 1] announce_sums[of files] by auto
  have "map_of (map (\<lambda>c. (c, g c)) cs) c = (if c \<in> set cs then Some (g c) else None)" for c cs and g :: "string \<Rightarrow> json"
    by (induction cs) auto
  then have wanted: "wanted created (md5Hex f) \<longleftrightarrow> blobMap s og (md5Hex f) = None" if "f \<in> set files" for f
    using that by (simp add: c(5) wanted_def sandboxEntry_def)
  have sid: "givenSandbox created = sandboxID ?sums" by (simp add: c(5) givenSandbox_def stringAt_def)
  let ?fs = "filter (\<lambda>f. wanted created (md5Hex f)) files"
  obtain uploads s2 where 2: "uploadAll og ?fs s1 = (uploads, s2)" by fastforce
  have og1: "og \<in> set (orgs (backend s1))" using assms(2) c(2) by simp
  note u = uploadAll_sure[OF c(1) og1 2]
  have all: "set ?sums \<subseteq> dom (blobMap s2 og)" using u wanted c(3) by auto
  obtain committed s3 where 3: "commitSandbox og (sandboxID ?sums) s2 = (committed, s3)" by fastforce
  have "status committed = 200 \<and> blobMap s3 og = blobMap s2 og"
    by (rule wpH_result[OF sure_commitSandbox[of s2 og "sandboxID ?sums" cf ?sums] 3]) (use u og1 c(4) all in auto)
  moreover have "\<forall>f \<in> set files. blobMap s2 og (md5Hex f) \<noteq> None" using all by auto
  ultimately show ?thesis using 1 2 3 sid u c(5) by (simp add: uploadFlow_def)
qed

theorem upload_completes_witness:
  "case uploadFlow plainSettings (plainRequest ''POST'' (Bytes [])) ''o'' [''a'', ''b''] oneCookbook of ((created, uploads, committed), s') \<Rightarrow>
    status created = 201 \<and> list_all (\<lambda>resp. status resp = 200) uploads \<and> status committed = 200 \<and>
    (\<forall>f \<in> set [''a'', ''b'']. map_of (blobs_of (backend s') ''o'') (md5Hex f) \<noteq> None)"
  by (rule upload_completes) (code_simp+)

end
