(* ===== verification/Cookbook_Api.thy ===== *)
theory Cookbook_Api
  imports Cookbook_Store
begin

text \<open>Reading cookbooks and artifacts: listings, versions, recipes and the universe
  (\<^verbatim>\<open>src/internal/api/cookbooks.go\<close>, \<^verbatim>\<open>cookbook_artifacts.go\<close>).

  The encoder writes a Go map in the order of its keys, which \<open>mapJSON\<close> does here. A nil slice of strings is
  written as null.\<close>

definition mapJSON :: "(string \<times> json) list \<Rightarrow> json" where
  "mapJSON m = JObj (sort_key fst m)"

definition collectionItemURL :: "request \<Rightarrow> string \<Rightarrow> string \<Rightarrow> string \<Rightarrow> string" where
  "collectionItemURL r og segment name = rq_base r @ ''/organizations/'' @ og @ ''/'' @ segment @ ''/'' @ name"

definition cookbookBaseURL :: "request \<Rightarrow> string \<Rightarrow> string \<Rightarrow> string" where
  "cookbookBaseURL r og name = collectionItemURL r og ''cookbooks'' name"

section \<open>How many versions\<close>

definition allVersions :: int where "allVersions = -1"

definition trimChars :: "(char \<Rightarrow> bool) \<Rightarrow> string \<Rightarrow> string" where
  "trimChars P s = rev (dropWhile P (rev (dropWhile P s)))"

definition parseNumVersions :: "string \<Rightarrow> int option" where
  "parseNumVersions s =
     (if s = ''all'' then Some allVersions
      else (let signed = (s \<noteq> [] \<and> (hd s = CHR ''+'' \<or> hd s = CHR ''-''));
                negative = (signed \<and> hd s = CHR ''-'');
                digits = (if signed then tl s else s)
        in if digits = [] \<or> trimChars isDigit digits \<noteq> [] then None
           else if trimChars (\<lambda>c. c = CHR ''0'') digits = [] then Some 0
           else if negative then None
           else (let (n, err) = parseInt digits in Some (if err then allVersions else n))))"

definition invalidNumVersions :: string where
  "invalidNumVersions = ''You have requested an invalid number of versions (x >= 0 || '' @ sq @ ''all'' @ sq @ '')''"

text \<open>\<^verbatim>\<open>numVersions\<close> answers 400 itself; \<open>k\<close> is the rest of the handler.\<close>

definition numVersions :: "request \<Rightarrow> int \<Rightarrow> (int \<Rightarrow> handler) \<Rightarrow> handler" where
  "numVersions r def k = (case getd [] (rq_query r) ''num_versions'' of
     [] \<Rightarrow> k def
   | v # _ \<Rightarrow> (case parseNumVersions v of Some n \<Rightarrow> k n | None \<Rightarrow> writeError 400 [invalidNumVersions]))"

definition capped :: "int \<Rightarrow> 'a list \<Rightarrow> 'a list" where
  "capped limit vals = (if limit \<ge> 0 \<and> int (length vals) > limit then take (nat limit) vals else vals)"

definition collectionListBody :: "request \<Rightarrow> string \<Rightarrow> string \<Rightarrow> string \<Rightarrow> (string \<times> string list) list \<Rightarrow> int \<Rightarrow> json" where
  "collectionListBody r og segment label items limit =
     mapJSON (map (\<lambda>(name, vals).
       (name, JObj [(''url'', JStr (collectionItemURL r og segment name)),
         (''versions'', JArr (map (\<lambda>v. mapJSON [(''url'', JStr (collectionItemURL r og segment name @ ''/'' @ v)), (label, JStr v)])
           (capped limit vals)))])) items)"

section \<open>Cookbooks\<close>

definition listCookbooks :: "request \<Rightarrow> string \<Rightarrow> handler" where
  "listCookbooks r og = withOrg og (numVersions r 1 (\<lambda>limit.
     tryE (cookbookVersions og) serverError (\<lambda>cv.
       writeJSON 200 (collectionListBody r og ''cookbooks'' ''version'' cv limit))))"

definition cookbookVersionsFor :: "string \<Rightarrow> string \<Rightarrow> (body store, serr, string list) act" where
  "cookbookVersionsFor og name = bindE (org_Range og cookbooksColl) (\<lambda>es.
     ret (sortSlice newerVersion (concat (map (\<lambda>(key, _). case cutAt ''/'' key of
       Some (cb, version) \<Rightarrow> if cb = name then [version] else [] | None \<Rightarrow> []) es))))"

definition getCookbook :: "request \<Rightarrow> string \<Rightarrow> string \<Rightarrow> handler" where
  "getCookbook r og name = withOrg og (numVersions r 1 (\<lambda>_.
     tryE (cookbookVersionsFor og name) serverError (\<lambda>vers.
       if vers = [] then writeError 404 [''Cannot find a cookbook named '' @ name]
       else writeJSON 200 (collectionListBody r og ''cookbooks'' ''version'' [(name, vers)] allVersions))))"

definition getCookbookVersion :: "settings \<Rightarrow> request \<Rightarrow> string \<Rightarrow> string \<Rightarrow> string \<Rightarrow> handler" where
  "getCookbookVersion cf r og name version = withOrg og
     (tryE (resolveVersion og name version) serverError (\<lambda>v.
        case v of
          None \<Rightarrow> writeError 404 [''Cannot find a cookbook named '' @ name]
        | Some ver \<Rightarrow> tryE (org_Get og cookbooksColl (cookbookKey name ver)) serverError (\<lambda>raw.
            case raw of
              None \<Rightarrow> writeError 404 [''Cannot find a cookbook named '' @ name @ '' version '' @ ver]
            | Some b \<Rightarrow> writeRaw 200 (withFileURLs cf r og b))))"

definition cookbooksLatest :: "request \<Rightarrow> string \<Rightarrow> handler" where
  "cookbooksLatest r og = withOrg og (numVersions r 1 (\<lambda>_.
     tryE (cookbookVersions og) serverError (\<lambda>cv.
       writeJSON 200 (mapJSON (concat (map (\<lambda>(name, vers). case vers of
         [] \<Rightarrow> [] | v # _ \<Rightarrow> [(name, JStr (cookbookBaseURL r og name @ ''/'' @ v))]) cv))))))"

definition stringsJSON :: "string list \<Rightarrow> json" where
  "stringsJSON vs = (if vs = [] then JNull else JArr (map JStr vs))"

text \<open>The recipes of the first listed version of each cookbook, each once, in order.\<close>

definition recipesOf :: "string \<Rightarrow> (string \<times> string list) list \<Rightarrow> (body store, serr, string list) act" where
  "recipesOf og cv = foldE cv (\<lambda>(name, vers) recipes. case vers of
       [] \<Rightarrow> ret recipes
     | v # _ \<Rightarrow> bindE (org_Get og cookbooksColl (cookbookKey name v)) (\<lambda>raw.
         ret (case raw of
           None \<Rightarrow> recipes
         | Some b \<Rightarrow> (case UnmarshalMap b of
             None \<Rightarrow> recipes
           | Some m \<Rightarrow> foldl (\<lambda>acc rec. if rec \<in> set acc then acc else acc @ [rec]) recipes (manifestRecipes m name))))) []"

definition cookbookRecipesEndpoint :: "request \<Rightarrow> string \<Rightarrow> handler" where
  "cookbookRecipesEndpoint r og = withOrg og (numVersions r 1 (\<lambda>_.
     tryE (cookbookVersions og) serverError (\<lambda>cv.
     tryE (recipesOf og cv) serverError (\<lambda>recipes. writeJSON 200 (stringsJSON (sort recipes))))))"

definition universeEntry :: "request \<Rightarrow> string \<Rightarrow> string \<Rightarrow> string \<Rightarrow> members \<Rightarrow> json" where
  "universeEntry r og name v m =
     (let url = cookbookBaseURL r og name @ ''/'' @ v in
      JObj [(''dependencies'', mapJSON (manifestDependencies m)), (''download_url'', JStr url),
        (''location_path'', JStr url), (''location_type'', JStr ''chef_server'')])"

definition universe :: "request \<Rightarrow> string \<Rightarrow> handler" where
  "universe r og = withOrg og
     (tryE (cookbookVersions og) serverError (\<lambda>cv.
      tryE (foldE cv (\<lambda>(name, vers) out.
          bindE (foldE vers (\<lambda>v versions. bindE (org_Get og cookbooksColl (cookbookKey name v)) (\<lambda>raw.
              ret (case raw of
                None \<Rightarrow> versions
              | Some b \<Rightarrow> (case UnmarshalMap b of
                  None \<Rightarrow> versions | Some m \<Rightarrow> AList.update v (universeEntry r og name v m) versions)))) [])
            (\<lambda>versions. ret (out @ [(name, mapJSON versions)]))) []) serverError (\<lambda>out.
        writeJSON 200 (mapJSON out))))"

section \<open>Artifacts\<close>

definition artifactIdentifiers :: "string \<Rightarrow> (body store, serr, (string \<times> string list) list) act" where
  "artifactIdentifiers og = bindE (org_Keys og artifactsColl) (\<lambda>keys.
     ret (map (\<lambda>(name, idents). (name, sort idents)) (groupVersions keys)))"

definition listArtifacts :: "request \<Rightarrow> string \<Rightarrow> handler" where
  "listArtifacts r og = withOrg og (tryE (artifactIdentifiers og) serverError (\<lambda>idents.
     writeJSON 200 (collectionListBody r og ''cookbook_artifacts'' ''identifier'' idents allVersions)))"

definition getArtifact :: "request \<Rightarrow> string \<Rightarrow> string \<Rightarrow> handler" where
  "getArtifact r og name = withOrg og (tryE (artifactIdentifiers og) serverError (\<lambda>all.
     case map_of all name of
       None \<Rightarrow> writeError 404 [''Cannot find a cookbook artifact named '' @ name]
     | Some idents \<Rightarrow> writeJSON 200 (collectionListBody r og ''cookbook_artifacts'' ''identifier'' [(name, idents)] allVersions)))"

definition getArtifactVersion :: "settings \<Rightarrow> request \<Rightarrow> string \<Rightarrow> string \<Rightarrow> string \<Rightarrow> handler" where
  "getArtifactVersion cf r og name ident = withOrg og
     (tryE (org_Get og artifactsColl (cookbookKey name ident)) serverError (\<lambda>raw.
        case raw of
          None \<Rightarrow> writeError 404 [''Cannot find a cookbook artifact named '' @ name @ '' with identifier '' @ ident]
        | Some b \<Rightarrow> writeRaw 200 (withFileURLs cf r og b)))"

end
