(* ===== verification/Environment_Api.thy ===== *)
theory Environment_Api
  imports Cookbook_Api
begin

text \<open>The endpoints under an environment or a role (\<^verbatim>\<open>src/internal/api/environment_subendpoints.go\<close>): cookbooks filtered by an
  environment's constraints, the dependency solver, recipes, nodes and run lists.

  The solver's queue loop is a terminating recursion: every turn either shortens the queue or solves a
  cookbook that was not solved before. A handler that returns without writing a response answers with
  status 200 and no body, which is \<open>Raw 200 (Bytes [])\<close>.\<close>

definition defaultEnv :: string where "defaultEnv = ''_default''"

definition envExists :: "string \<Rightarrow> string \<Rightarrow> (body store, serr, bool) act" where
  "envExists og env =
     (if env = defaultEnv then ret True
      else bindE (org_Get og ''environments'' env) (\<lambda>raw. ret (raw \<noteq> None)))"

text \<open>The constraints, or none when there is no such environment.\<close>

definition envConstraints :: "string \<Rightarrow> string \<Rightarrow> (body store, serr, (string \<times> string) list option) act" where
  "envConstraints og env = bindE (org_Get og ''environments'' env) (\<lambda>raw.
     case raw of
       None \<Rightarrow> ret (if env = defaultEnv then Some [] else None)
     | Some b \<Rightarrow>
         (case chefUnmarshal b of
            None \<Rightarrow> failE ErrDecode
          | Some ms \<Rightarrow> (case typedStringMap ms ''cookbook_versions'' of
              None \<Rightarrow> failE ErrDecode | Some cs \<Rightarrow> ret (Some cs))))"

definition filteredCookbookVersions :: "string \<Rightarrow> (string \<times> string) list \<Rightarrow> (body store, serr, (string \<times> string list) list) act" where
  "filteredCookbookVersions og constraints = bindE (cookbookVersions og) (\<lambda>cv.
     ret (concat (map (\<lambda>(name, versions).
       let kept = filter (\<lambda>v. satisfiesConstraint v (getd [] constraints name)) versions
       in if kept = [] then [] else [(name, kept)]) cv)))"

text \<open>The common start of the environment handlers.\<close>

definition withConstraints :: "string \<Rightarrow> string \<Rightarrow> ((string \<times> string) list \<Rightarrow> handler) \<Rightarrow> handler" where
  "withConstraints og env k = tryE (envConstraints og env) serverError (\<lambda>constraints.
     case constraints of None \<Rightarrow> writeError 404 [''Cannot find environment '' @ env] | Some cs \<Rightarrow> k cs)"

definition envCookbooks :: "request \<Rightarrow> string \<Rightarrow> string \<Rightarrow> handler" where
  "envCookbooks r og env = withOrg og (numVersions r 1 (\<lambda>limit.
     withConstraints og env (\<lambda>cs.
       tryE (filteredCookbookVersions og cs) serverError (\<lambda>fcv.
         writeJSON 200 (collectionListBody r og ''cookbooks'' ''version'' fcv limit)))))"

definition envCookbook :: "request \<Rightarrow> string \<Rightarrow> string \<Rightarrow> string \<Rightarrow> handler" where
  "envCookbook r og env name = withOrg og (numVersions r allVersions (\<lambda>limit.
     withConstraints og env (\<lambda>cs.
       tryE (filteredCookbookVersions og cs) serverError (\<lambda>all.
         case map_of all name of
           None \<Rightarrow> writeError 404 [''Cannot find a cookbook named '' @ name]
         | Some versions \<Rightarrow> writeJSON 200 (collectionListBody r og ''cookbooks'' ''version'' [(name, versions)] limit)))))"

definition envRecipes :: "request \<Rightarrow> string \<Rightarrow> string \<Rightarrow> handler" where
  "envRecipes r og env = withOrg og (withConstraints og env (\<lambda>cs.
     tryE (filteredCookbookVersions og cs) serverError (\<lambda>fcv.
     tryE (recipesOf og fcv) serverError (\<lambda>recipes. writeJSON 200 (stringsJSON (sort recipes))))))"

definition nodeEnvironment :: "body \<Rightarrow> string option" where
  "nodeEnvironment raw = (case chefUnmarshal raw of
     None \<Rightarrow> None
   | Some ms \<Rightarrow> map_option (\<lambda>e. if e = [] then defaultEnv else e) (typedString ms ''chef_environment''))"

definition envNodes :: "request \<Rightarrow> string \<Rightarrow> string \<Rightarrow> handler" where
  "envNodes r og env = withOrg og
     (tryE (envExists og env) serverError (\<lambda>exists.
        if \<not> exists then writeError 404 [''Cannot find environment '' @ env]
        else tryE (org_Range og ''nodes'') serverError (\<lambda>es.
          if list_ex (\<lambda>(_, raw). nodeEnvironment raw = None) es then serverError ErrDecode
          else writeJSON 200 (mapJSON (map (\<lambda>(name, _). (name, JStr (objectURL r og ''nodes'' name)))
            (filter (\<lambda>(_, raw). nodeEnvironment raw = Some env) es))))))"

section \<open>The solver\<close>

definition cookbookFromRunListItem :: "string \<Rightarrow> string" where
  "cookbookFromRunListItem item0 =
     (let item = trimSpace item0 in
      if hasPrefix item ''role['' then []
      else (let inner = (if hasPrefix item ''recipe['' \<and> hasSuffix item '']''
                then take (length item - length ''recipe['' - 1) (drop (length ''recipe['') item) else item)
        in case cutAt ''::'' inner of Some (name, _) \<Rightarrow> name | None \<Rightarrow> inner))"

definition bodyJSON :: "body \<Rightarrow> json" where
  "bodyJSON b = (case b of Doc j \<Rightarrow> j | Bytes _ \<Rightarrow> JNull)"

lemma tryE_cong [fundef_cong]:
  "m = m' \<Longrightarrow> (\<And>e. h e = h' e) \<Longrightarrow> (\<And>x. k x = k' x) \<Longrightarrow> tryE m h k = tryE m' h' k'"
proof -
  assume "m = m'" "\<And>e. h e = h' e" "\<And>x. k x = k' x"
  then have "m = m'" "h = h'" "k = k'" by (simp_all add: ext)
  then show ?thesis by simp
qed

text \<open>The cookbooks still to solve among those available.\<close>

definition unsolved :: "(string \<times> string list) list \<Rightarrow> (string \<times> json) list \<Rightarrow> nat" where
  "unsolved available solved = length (filter (\<lambda>(n, _). map_of solved n = None) available)"

lemma unsolved_decreases:
  assumes "getd [] available name \<noteq> []" and "map_of solved name = None"
  shows "unsolved available ((name, j) # solved) < unsolved available solved"
proof -
  obtain vs where vs: "(name, vs) \<in> set available"
    using assms(1) by (auto simp: getd_def dest: map_of_SomeD split: option.splits)
  have "filter (\<lambda>(n, _). map_of ((name, j) # solved) n = None) available =
      filter (\<lambda>p. fst p \<noteq> name) (filter (\<lambda>(n, _). map_of solved n = None) available)"
    unfolding filter_filter by (rule filter_cong) (auto split: if_splits)
  then show ?thesis
    unfolding unsolved_def using length_filter_less[of "(name, vs)" "filter (\<lambda>(n, _). map_of solved n = None) available" "\<lambda>p. fst p \<noteq> name"]
      vs assms(2) by simp
qed

function solve :: "settings \<Rightarrow> request \<Rightarrow> string \<Rightarrow> (string \<times> string list) list \<Rightarrow> string list \<Rightarrow> (string \<times> json) list \<Rightarrow> handler" where
  "solve cf r og available [] solved = writeJSON 200 (mapJSON solved)"
| "solve cf r og available (name # queue) solved =
     (if name = [] \<or> map_of solved name \<noteq> None then solve cf r og available queue solved
      else if getd [] available name = [] then
        writeError 412 [''Run list contains invalid items: no versions match the constraints on cookbook '' @ name @ ''.'']
      else tryE (org_Get og cookbooksColl (cookbookKey name (hd (getd [] available name)))) serverError (\<lambda>raw.
        case raw of
          None \<Rightarrow> writeError 412 [''Cannot find cookbook '' @ name]
        | Some b \<Rightarrow>
            (case DecodeObject b of
               None \<Rightarrow> solve cf r og available queue solved
             | Some m \<Rightarrow> solve cf r og available (queue @ map fst (manifestDependencies m))
                 ((name, bodyJSON (withFileURLs cf r og b)) # solved))))"
  by pat_completeness auto

termination
  by (relation "(\<lambda>(cf, r, og, available, queue, solved). unsolved available solved) <*mlex*>
      measure (\<lambda>(cf, r, og, available, queue, solved). length queue)")
    (auto simp: mlex_prod_def unsolved_decreases)

definition envCookbookVersions :: "settings \<Rightarrow> request \<Rightarrow> string \<Rightarrow> string \<Rightarrow> handler" where
  "envCookbookVersions cf r og env = withOrg og (withConstraints og env (\<lambda>cs.
     case structMembers (rq_body r) of
       None \<Rightarrow> writeError 400 [''invalid JSON body'']
     | Some ms \<Rightarrow> (case typedField ms ''run_list'' of
         None \<Rightarrow> writeError 400 [''invalid JSON body'']
       | Some items \<Rightarrow> tryE (filteredCookbookVersions og cs) serverError (\<lambda>available.
           solve cf r og available (map cookbookFromRunListItem items) []))))"

section \<open>Roles\<close>

definition roleRunList :: "members \<Rightarrow> string \<Rightarrow> json list" where
  "roleRunList role env =
     (let base = (case map_of role ''run_list'' of Some (JArr rl) \<Rightarrow> rl | _ \<Rightarrow> []) in
      if env = defaultEnv then base
      else (case map_of role ''env_run_lists'' of
          Some (JObj erl) \<Rightarrow> (case map_of erl env of Some (JArr rl) \<Rightarrow> rl | _ \<Rightarrow> base)
        | _ \<Rightarrow> base))"

definition loadRole :: "string \<Rightarrow> string \<Rightarrow> (members \<Rightarrow> handler) \<Rightarrow> handler" where
  "loadRole og name k = tryE (org_Get og ''roles'' name) serverError (\<lambda>raw.
     case raw of
       None \<Rightarrow> writeError 404 [''Cannot find role '' @ name]
     | Some b \<Rightarrow> (case DecodeObject b of None \<Rightarrow> writeRaw 200 (Bytes []) | Some role \<Rightarrow> k role))"

definition runListJSON :: "members \<Rightarrow> string \<Rightarrow> json" where
  "runListJSON role env = JObj [(''run_list'', JArr (roleRunList role env))]"

definition envRole :: "string \<Rightarrow> string \<Rightarrow> string \<Rightarrow> handler" where
  "envRole og env role = withOrg og
     (tryE (envExists og env) serverError (\<lambda>exists.
        if \<not> exists then writeError 404 [''Cannot find environment '' @ env]
        else loadRole og role (\<lambda>doc. writeJSON 200 (runListJSON doc env))))"

definition roleEnvironments :: "string \<Rightarrow> string \<Rightarrow> handler" where
  "roleEnvironments og role = withOrg og (loadRole og role (\<lambda>doc.
     let names = (case map_of doc ''env_run_lists'' of Some (JObj erl) \<Rightarrow> map fst erl | _ \<Rightarrow> [])
     in writeJSON 200 (JArr (map JStr (sort (defaultEnv # filter (\<lambda>n. n \<noteq> defaultEnv) names))))))"

definition roleEnvironment :: "string \<Rightarrow> string \<Rightarrow> string \<Rightarrow> handler" where
  "roleEnvironment og role env = withOrg og (loadRole og role (\<lambda>doc. writeJSON 200 (runListJSON doc env)))"


section \<open>What the solver answers\<close>

text \<open>The cookbooks a run list needs: those it names and, with each, its dependencies.\<close>

inductive_set needed :: "(string \<Rightarrow> string list) \<Rightarrow> string list \<Rightarrow> string set" for deps roots where
  root: "n \<in> set roots \<Longrightarrow> n \<noteq> [] \<Longrightarrow> n \<in> needed deps roots"
| dep: "n \<in> needed deps roots \<Longrightarrow> d \<in> set (deps n) \<Longrightarrow> d \<noteq> [] \<Longrightarrow> d \<in> needed deps roots"

text \<open>The manifest chosen for a cookbook, its dependencies, and what is answered for it; a manifest that does not decode is passed over.\<close>

definition chosenBody :: "string \<Rightarrow> (string \<Rightarrow> string list) \<Rightarrow> body store \<Rightarrow> string \<Rightarrow> body option" where
  "chosenBody og pick s n = (case pick n of [] \<Rightarrow> None | v # _ \<Rightarrow> stored s og cookbooksColl (cookbookKey n v))"

definition chosenDeps :: "string \<Rightarrow> (string \<Rightarrow> string list) \<Rightarrow> body store \<Rightarrow> string \<Rightarrow> string list" where
  "chosenDeps og pick s n = (case chosenBody og pick s n of
     None \<Rightarrow> [] | Some b \<Rightarrow> (case DecodeObject b of None \<Rightarrow> [] | Some m \<Rightarrow> map fst (manifestDependencies m)))"

definition chosenAnswer :: "settings \<Rightarrow> request \<Rightarrow> string \<Rightarrow> (string \<Rightarrow> string list) \<Rightarrow> body store \<Rightarrow> string \<Rightarrow> json option" where
  "chosenAnswer cf r og pick s n = (case chosenBody og pick s n of
     None \<Rightarrow> None
   | Some b \<Rightarrow> if DecodeObject b = None then None else Some (bodyJSON (withFileURLs cf r og b)))"

definition solution :: "settings \<Rightarrow> request \<Rightarrow> string \<Rightarrow> (string \<Rightarrow> string list) \<Rightarrow> string list \<Rightarrow> body store \<Rightarrow> response \<Rightarrow> bool" where
  "solution cf r og pick roots s resp =
     (let N = needed (chosenDeps og pick s) roots in case resp of
        Reply code j \<Rightarrow> (if code = 200 then (\<forall>n \<in> N. chosenBody og pick s n \<noteq> None) \<and>
            (\<exists>solved. j = mapJSON solved \<and> (\<forall>n. map_of solved n = (if n \<in> N then chosenAnswer cf r og pick s n else None)))
          else code = 412 \<and> (\<exists>n \<in> N. chosenBody og pick s n = None))
      | Failure e \<Rightarrow> e = ErrBackend
      | _ \<Rightarrow> False)"

definition settled :: "settings \<Rightarrow> request \<Rightarrow> string \<Rightarrow> (string \<Rightarrow> string list) \<Rightarrow> body store \<Rightarrow> (string \<times> json) list \<Rightarrow> string \<Rightarrow> bool" where
  "settled cf r og pick s solved n =
     (map_of solved n \<noteq> None \<or> chosenBody og pick s n \<noteq> None \<and> chosenAnswer cf r og pick s n = None)"

definition solving :: "settings \<Rightarrow> request \<Rightarrow> string \<Rightarrow> (string \<Rightarrow> string list) \<Rightarrow> string list \<Rightarrow> body store \<Rightarrow> string list \<Rightarrow> (string \<times> json) list \<Rightarrow> bool" where
  "solving cf r og pick roots s queue solved =
     ((\<forall>n v. map_of solved n = Some v \<longrightarrow> n \<in> needed (chosenDeps og pick s) roots \<and> chosenAnswer cf r og pick s n = Some v) \<and>
      (\<forall>n \<in> set queue. n = [] \<or> n \<in> needed (chosenDeps og pick s) roots) \<and>
      (\<forall>n \<in> set roots. n = [] \<or> n \<in> set queue \<or> settled cf r og pick s solved n) \<and>
      (\<forall>p v. map_of solved p = Some v \<longrightarrow>
         (\<forall>n \<in> set (chosenDeps og pick s p). n = [] \<or> n \<in> set queue \<or> settled cf r og pick s solved n)))"

lemma solvingD:
  assumes "solving cf r og pick roots s queue solved"
  shows "map_of solved n = Some v \<Longrightarrow> n \<in> needed (chosenDeps og pick s) roots \<and> chosenAnswer cf r og pick s n = Some v"
    and "n \<in> set queue \<Longrightarrow> n = [] \<or> n \<in> needed (chosenDeps og pick s) roots"
    and "n \<in> set roots \<Longrightarrow> n = [] \<or> n \<in> set queue \<or> settled cf r og pick s solved n"
    and "map_of solved p = Some v \<Longrightarrow> n \<in> set (chosenDeps og pick s p) \<Longrightarrow> n = [] \<or> n \<in> set queue \<or> settled cf r og pick s solved n"
  using assms unfolding solving_def by blast+

lemma solving_start: "solving cf r og pick roots s roots []"
  by (auto simp: solving_def intro: needed.root)

lemma solving_end:
  assumes "solving cf r og pick roots s [] solved"
  shows "solution cf r og pick roots s (Reply 200 (mapJSON solved))"
proof -
  let ?N = "needed (chosenDeps og pick s) roots"
  have fin: "settled cf r og pick s solved n" if "n \<in> ?N" for n
    using that
  proof (induction rule: needed.induct)
    case (dep n d)
    obtain v where "map_of solved n = Some v"
      using dep.IH dep.hyps(2) by (auto simp: settled_def chosenAnswer_def chosenDeps_def split: option.splits if_splits)
    from solvingD(4)[OF assms this dep.hyps(2)] dep.hyps(3) show ?case by simp
  qed (use solvingD(3)[OF assms] in auto)
  have "chosenBody og pick s n \<noteq> None" if "n \<in> ?N" for n
    using fin[OF that] solvingD(1)[OF assms, of n] by (auto simp: settled_def chosenAnswer_def split: option.splits)
  moreover have "map_of solved n = (if n \<in> ?N then chosenAnswer cf r og pick s n else None)" for n
  proof (cases "map_of solved n")
    case None
    then show ?thesis using fin[of n] by (auto simp: settled_def)
  next
    case (Some v)
    from solvingD(1)[OF assms Some] Some show ?thesis by simp
  qed
  ultimately show ?thesis by (auto simp: solution_def Let_def)
qed

text \<open>The turns of the loop.\<close>

lemma solving_skip:
  assumes "solving cf r og pick roots s (name # queue) solved" and "name = [] \<or> settled cf r og pick s solved name"
  shows "solving cf r og pick roots s queue solved"
proof -
  have "n = [] \<or> n \<in> set queue \<or> settled cf r og pick s solved n"
    if "n = [] \<or> n \<in> set (name # queue) \<or> settled cf r og pick s solved n" for n
    using that assms(2) by auto
  note keep = this
  show ?thesis
    unfolding solving_def
    using solvingD(1,2)[OF assms(1)] solvingD(3)[OF assms(1), THEN keep] solvingD(4)[OF assms(1), THEN keep]
    by (meson list.set_intros(2))
qed

lemma solving_add:
  assumes inv: "solving cf r og pick roots s (name # queue) solved" and name: "name \<noteq> []"
    and b: "chosenBody og pick s name = Some b" and m: "DecodeObject b = Some m"
  shows "solving cf r og pick roots s (queue @ map fst (manifestDependencies m)) ((name, bodyJSON (withFileURLs cf r og b)) # solved)"
proof -
  let ?N = "needed (chosenDeps og pick s) roots"
  have deps: "chosenDeps og pick s name = map fst (manifestDependencies m)"
    and ans: "chosenAnswer cf r og pick s name = Some (bodyJSON (withFileURLs cf r og b))"
    using b m by (simp_all add: chosenDeps_def chosenAnswer_def)
  have N: "name \<in> ?N" using inv name by (simp add: solving_def)
  then have new: "d = [] \<or> d \<in> ?N" if "d \<in> set (map fst (manifestDependencies m))" for d
    using needed.dep[of name "chosenDeps og pick s" roots d] that unfolding deps by blast
  have pend: "n = [] \<or> n \<in> set (queue @ map fst (manifestDependencies m)) \<or> settled cf r og pick s ((name, j) # solved) n"
    if "n = [] \<or> n \<in> set (name # queue) \<or> settled cf r og pick s solved n" for n j
    using that by (auto simp: settled_def)
  have added: "n = [] \<or> n \<in> set (queue @ map fst (manifestDependencies m)) \<or> settled cf r og pick s ((name, j) # solved) n"
    if "map_of ((name, j) # solved) p = Some v" "n \<in> set (chosenDeps og pick s p)" for n p v j
  proof (cases "p = name")
    case False
    with that solvingD(4)[OF inv, of p v n] show ?thesis by (intro pend) simp
  qed (use that deps in simp)
  show ?thesis
    unfolding solving_def
  proof (intro conjI allI impI ballI)
    show "n \<in> ?N" "chosenAnswer cf r og pick s n = Some v"
      if "map_of ((name, bodyJSON (withFileURLs cf r og b)) # solved) n = Some v" for n v
      using that N ans solvingD(1)[OF inv, of n v] by (auto split: if_splits)
    show "n = [] \<or> n \<in> ?N" if "n \<in> set (queue @ map fst (manifestDependencies m))" for n
      using that new solvingD(2)[OF inv, of n] by auto
  qed (fact pend[OF solvingD(3)[OF inv]] added)+
qed

lemma wp_solve:
  "solving cf r og (getd [] available) roots s queue solved \<Longrightarrow> same s s1 \<Longrightarrow>
   wpH (solve cf r og available queue solved) (\<lambda>resp s'. same s s' \<and> solution cf r og (getd [] available) roots s resp) s1"
proof (induction cf r og available queue solved arbitrary: s1 rule: solve.induct)
  case (1 cf r og available solved)
  then show ?case by (simp add: wp solving_end)
next
  case (2 cf r og available name queue solved)
  show ?case
  proof (cases "name = [] \<or> map_of solved name \<noteq> None")
    case True
    with solving_skip[OF 2(4)] have "solving cf r og (getd [] available) roots s queue solved" by (auto simp: settled_def)
    from 2(1)[OF True this 2(5)] True show ?thesis by simp
  next
    case False
    then have N: "name \<in> needed (chosenDeps og (getd [] available) s) roots" using 2(4) by (simp add: solving_def)
    show ?thesis
    proof (cases "getd [] available name = []")
      case True
      with N have "solution cf r og (getd [] available) roots s (Reply 412 j)" for j
        by (auto simp: solution_def chosenBody_def Let_def intro!: bexI[of _ name])
      with False True 2(5) show ?thesis by (simp add: wp del: append.simps)
    next
      case ne: False
      have body: "stored s og cookbooksColl (cookbookKey name (hd (getd [] available name))) = chosenBody og (getd [] available) s name"
        using ne by (simp add: chosenBody_def split: list.split)
      have st: "stored s1 = stored s" using 2(5) by (rule stored_same)
      show ?thesis
        unfolding solve.simps if_not_P[OF False] if_not_P[OF ne] wpH_tryE
      proof (rule wp_Get, goal_cases)
        case (1 s2)
        note s2 = same_trans[OF 2(5) 1]
        show ?case
          unfolding st body
        proof (cases "chosenBody og (getd [] available) s name")
          case None
          with N have "solution cf r og (getd [] available) roots s (Reply 412 j)" for j
            by (auto simp: solution_def Let_def intro!: bexI[of _ name])
          with None s2 show "wpH (case chosenBody og (getd [] available) s name of None \<Rightarrow> writeError 412 [''Cannot find cookbook '' @ name]
              | Some b \<Rightarrow> (case DecodeObject b of None \<Rightarrow> solve cf r og available queue solved
                | Some m \<Rightarrow> solve cf r og available (queue @ map fst (manifestDependencies m)) ((name, bodyJSON (withFileURLs cf r og b)) # solved)))
              (\<lambda>resp s'. same s s' \<and> solution cf r og (getd [] available) roots s resp) s2" by (simp add: wp del: append.simps)
        next
          case (Some b)
          show "wpH (case chosenBody og (getd [] available) s name of None \<Rightarrow> writeError 412 [''Cannot find cookbook '' @ name]
              | Some b \<Rightarrow> (case DecodeObject b of None \<Rightarrow> solve cf r og available queue solved
                | Some m \<Rightarrow> solve cf r og available (queue @ map fst (manifestDependencies m)) ((name, bodyJSON (withFileURLs cf r og b)) # solved)))
              (\<lambda>resp s'. same s s' \<and> solution cf r og (getd [] available) roots s resp) s2"
          proof (cases "DecodeObject b")
            case None
            with Some have "solving cf r og (getd [] available) roots s queue solved"
              by (intro solving_skip[OF 2(4)]) (simp add: settled_def chosenAnswer_def)
            from 2(2)[OF False ne refl None this s2] Some None show ?thesis by simp
          next
            case m: (Some m)
            have "solving cf r og (getd [] available) roots s (queue @ map fst (manifestDependencies m)) ((name, bodyJSON (withFileURLs cf r og b)) # solved)"
              using False by (intro solving_add[OF 2(4) _ Some m]) simp
            from 2(3)[OF False ne refl m this s2] Some m show ?thesis by simp
          qed
        qed
      next
        case (2 s2)
        then show ?case using same_trans[OF \<open>same s s1\<close>] by (simp add: wp solution_def Let_def)
      qed
    qed
  qed
qed


section \<open>The endpoint\<close>

definition constraintsOf :: "string \<Rightarrow> string \<Rightarrow> body store \<Rightarrow> (string \<times> string) list option" where
  "constraintsOf og env s = (case stored s og ''environments'' env of
     None \<Rightarrow> if env = defaultEnv then Some [] else None
   | Some b \<Rightarrow> (case chefUnmarshal b of None \<Rightarrow> None | Some ms \<Rightarrow> typedStringMap ms ''cookbook_versions''))"

definition runListItems :: "body \<Rightarrow> string list option" where
  "runListItems b = (case structMembers b of None \<Rightarrow> None | Some ms \<Rightarrow> typedField ms ''run_list'')"

text \<open>The stored versions of a cookbook that satisfy the constraint on it, newest first.\<close>

definition candidates :: "string \<Rightarrow> (string \<times> string) list \<Rightarrow> body store \<Rightarrow> string \<Rightarrow> string list" where
  "candidates og cs s n = filter (\<lambda>v. satisfiesConstraint v (getd [] cs n)) (sortedVersions og n s)"

lemma candidates_newest:
  assumes "candidates og cs s n = v # rest" and "\<forall>w \<in> versionsOf og n s. validSegments w"
    and "w \<in> versionsOf og n s" and "satisfiesConstraint w (getd [] cs n)"
  shows "versionKey w \<le> versionKey v"
proof -
  let ?vs = "getd [] (groupVersions (sort (map fst (coll_of (backend s) og cookbooksColl)))) n"
  have vs: "set ?vs = versionsOf og n s"
    using set_sortedVersions[of og n s] by (simp add: sortedVersions_def slice.set_sorter)
  have "weakOrderOn newerVersion (set ?vs)"
    unfolding newerVersion_def[abs_def] by (rule weakOrder_newest) (use assms(2) vs in blast)
  from slice.sorter_sorted[OF this] have "sorted_wrt (\<lambda>x y. \<not> newerVersion y x) (candidates og cs s n)"
    by (simp add: candidates_def sortedVersions_def sorted_wrt_filter)
  moreover have mem: "set (candidates og cs s n) = {w \<in> versionsOf og n s. satisfiesConstraint w (getd [] cs n)}"
    by (auto simp: candidates_def set_sortedVersions)
  ultimately have "w = v \<or> \<not> newerVersion w v" using assms(1,3,4) by auto
  moreover have "v \<in> versionsOf og n s" using mem assms(1) by auto
  ultimately show ?thesis using newer_iff[of w v] assms(2,3) by (auto simp: newerVersion_def not_less)
qed

lemma wp_withConstraints:
  assumes "\<And>s' cs. same s s' \<Longrightarrow> constraintsOf og env s = Some cs \<Longrightarrow> wpH (k cs) R s'"
    and "\<And>s' m. same s s' \<Longrightarrow> R (Reply 404 m) s'" and "\<And>s' e. same s s' \<Longrightarrow> R (Failure e) s'"
  shows "wpH (withConstraints og env k) R s"
proof -
  have "wpE (envConstraints og env) (\<lambda>cs s'. same s s' \<and> cs = constraintsOf og env s) (\<lambda>e s'. same s s') s"
    unfolding envConstraints_def wp by (rule wp_Get) (auto simp: constraintsOf_def wp split: option.split)
  then show ?thesis
    unfolding withConstraints_def wpH_tryE by (rule wpE_mono) (auto simp: wp assms split: option.split)
qed

lemma wp_filteredCookbookVersions:
  assumes "\<And>s' available. same s s' \<Longrightarrow> getd [] available = candidates og cs s \<Longrightarrow> Q available s'" and "\<And>s'. same s s' \<Longrightarrow> E ErrBackend s'"
  shows "wpE (filteredCookbookVersions og cs) Q E s"
proof -
  have kept: "getd [] (concat (map (\<lambda>(name, versions). let kept = filter (\<lambda>v. P name v) versions in if kept = [] then [] else [(name, kept)]) cv)) n
      = filter (P n) (getd [] cv n)" if "distinct (map fst cv)" for cv :: "(string \<times> string list) list" and P n
    using that
  proof (induction cv)
    case (Cons p cv)
    have "map_of (concat (map (\<lambda>(name, versions). let kept = filter (\<lambda>v. P name v) versions in if kept = [] then [] else [(name, kept)]) cv)) n = None"
      if "n \<notin> fst ` set cv"
      using that by (force simp: map_of_eq_None_iff Let_def split: if_splits)
    with Cons show ?case by (cases p) (auto simp: getd_def Let_def)
  qed simp
  have dist: "distinct (map fst (groupVersions keys))" for keys
  proof -
    have "distinct (map fst (fold (\<lambda>key out. case cutAt ''/'' key of None \<Rightarrow> out
        | Some (name, version) \<Rightarrow> AList.update name (getd [] out name @ [version]) out) keys out))" if "distinct (map fst out)" for out
      using that by (induction keys arbitrary: out) (auto split: option.split prod.split)
    then show ?thesis by (simp add: groupVersions_def)
  qed
  have fst: "map fst (map (\<lambda>(name, vs). (name, f vs)) xs) = map fst xs" for f :: "string list \<Rightarrow> string list" and xs :: "(string \<times> string list) list"
    by (induction xs) auto
  show ?thesis
    unfolding filteredCookbookVersions_def cookbookVersions_def wp
    by (rule wp_Keys) (auto simp: candidates_def[abs_def] sortedVersions_def kept fst dist getd_map assms(2) simp del: map_map intro!: assms(1))
qed


text \<open>What the answer of the solver says of the store.\<close>

definition solvedExactly :: "settings \<Rightarrow> request \<Rightarrow> string \<Rightarrow> string \<Rightarrow> body store \<Rightarrow> nat \<Rightarrow> json \<Rightarrow> bool" where
  "solvedExactly cf r og env s code j = (\<exists>cs items. constraintsOf og env s = Some cs \<and> runListItems (rq_body r) = Some items \<and>
    (let N = needed (chosenDeps og (candidates og cs s) s) (map cookbookFromRunListItem items) in
     if code = 200 then
       (\<forall>n \<in> N. \<exists>v rest. candidates og cs s n = v # rest \<and> v \<in> versionsOf og n s \<and> satisfiesConstraint v (getd [] cs n) \<and>
          ((\<forall>w \<in> versionsOf og n s. validSegments w) \<longrightarrow>
             (\<forall>w \<in> versionsOf og n s. satisfiesConstraint w (getd [] cs n) \<longrightarrow> versionKey w \<le> versionKey v))) \<and>
       (\<exists>solved. j = mapJSON solved \<and>
          (\<forall>n. map_of solved n = (if n \<in> N then chosenAnswer cf r og (candidates og cs s) s n else None)))
     else (\<exists>n \<in> N. chosenBody og (candidates og cs s) s n = None)))"

section \<open>Properties\<close>



definition twoCookbooks :: "body store" where
  "twoCookbooks = NewWithBackend (mem_set ''o'' cookbooksColl ''app/1.0.0''
       (Doc (JObj [(''metadata'', JObj [(''dependencies'', JObj [(''lib'', JStr ''>= 0.0.0'')])])]))
     (mem_set ''o'' cookbooksColl ''lib/1.10.0'' (Doc (JObj []))
     (mem_set ''o'' cookbooksColl ''lib/1.9.0'' (Doc (JObj []))
       (NewMemoryBackend\<lparr>orgs := [''o'']\<rparr>))))"

definition appRunList :: request where
  "appRunList = plainRequest ''POST'' (Doc (JObj [(''run_list'', JArr [JStr ''recipe[app::web]''])]))"


end
