(* ===== verification/Go_Base64.thy ===== *)
theory Go_Base64
  imports Go_Digest
begin

text \<open>\<^verbatim>\<open>crypto/sha1\<close> and \<^verbatim>\<open>base64.StdEncoding\<close>, which the signed request headers use. Decoding skips line breaks, wants the
  padding and nothing behind it, and does not look at the unused bits of the last digit.\<close>

section \<open>SHA-1\<close>

fun sha1Schedule :: "nat \<Rightarrow> w32 list \<Rightarrow> w32 list" where
  "sha1Schedule 0 ws = ws"
| "sha1Schedule (Suc n) ws = sha1Schedule n (word_rotl 1 (ws ! 2 XOR ws ! 7 XOR ws ! 13 XOR ws ! 15) # ws)"

type_synonym sha1_state = "w32 \<times> w32 \<times> w32 \<times> w32 \<times> w32"

definition sha1Step :: "nat \<times> w32 \<Rightarrow> sha1_state \<Rightarrow> sha1_state" where
  "sha1Step tw st = (case (tw, st) of ((t, w), (a, b, c, d, e)) \<Rightarrow>
     (let (f, k) = (if t < 20 then ((b AND c) OR (NOT b AND d), 0x5a827999)
            else if t < 40 then (b XOR c XOR d, 0x6ed9eba1)
            else if t < 60 then ((b AND c) OR (b AND d) OR (c AND d), 0x8f1bbcdc)
            else (b XOR c XOR d, 0xca62c1d6))
      in (word_rotl 5 a + f + e + k + w, a, word_rotl 30 b, c, d)))"

definition sha1Block :: "nat list \<Rightarrow> sha1_state \<Rightarrow> sha1_state" where
  "sha1Block blk st =
     (let ws = rev (sha1Schedule 64 (rev (map wordBE (chunks 4 blk))));
          (a, b, c, d, e) = st; (a', b', c', d', e') = fold sha1Step (zip [0..<80] ws) st
      in (a + a', b + b', c + c', d + d', e + e'))"

definition sha1 :: "nat list \<Rightarrow> nat list" where
  "sha1 bs =
     (case fold sha1Block (chunks 64 (padding bs (rev (leBytes 8 (8 * length bs)))))
        (0x67452301, 0xefcdab89, 0x98badcfe, 0x10325476, 0xc3d2e1f0) of
        (a, b, c, d, e) \<Rightarrow> concat (map bytesBE [a, b, c, d, e]))"

lemma sha1_shape: "length (sha1 bs) = 20 \<and> list_all (\<lambda>b. b < 256) (sha1 bs)"
  unfolding sha1_def by (simp only: split: prod.split) (simp add: list_all_iff ball_Un)

section \<open>Base 64\<close>

definition base64Digits :: string where
  "base64Digits = ''ABCDEFGHIJKLMNOPQRSTUVWXYZabcdefghijklmnopqrstuvwxyz0123456789+/''"

fun base64Encode :: "nat list \<Rightarrow> string" where
  "base64Encode [] = []"
| "base64Encode [a] = [base64Digits ! (a div 4), base64Digits ! (a mod 4 * 16), CHR ''='', CHR ''='']"
| "base64Encode [a, b] =
     [base64Digits ! (a div 4), base64Digits ! (a mod 4 * 16 + b div 16), base64Digits ! (b mod 16 * 4), CHR ''='']"
| "base64Encode (a # b # c # rest) =
     base64Digits ! (a div 4) # base64Digits ! (a mod 4 * 16 + b div 16) #
     base64Digits ! (b mod 16 * 4 + c div 64) # base64Digits ! (c mod 64) # base64Encode rest"

definition base64Value :: "char \<Rightarrow> nat option" where
  "base64Value c =
     (if isUppercase c then Some (of_char c - 65)
      else if isLowercase c then Some (of_char c - 71)
      else if isDigit c then Some (of_char c + 4)
      else if c = CHR ''+'' then Some 62
      else if c = CHR ''/'' then Some 63
      else None)"

fun base64Quanta :: "string \<Rightarrow> nat list option" where
  "base64Quanta [] = Some []"
| "base64Quanta (a # b # c # d # rest) =
     (case (base64Value a, base64Value b) of
        (Some x, Some y) \<Rightarrow>
          if c = CHR ''='' then (if d = CHR ''='' \<and> rest = [] then Some [x * 4 + y div 16] else None)
          else (case base64Value c of
              None \<Rightarrow> None
            | Some z \<Rightarrow>
                if d = CHR ''='' then (if rest = [] then Some [x * 4 + y div 16, y mod 16 * 16 + z div 4] else None)
                else (case base64Value d of
                    None \<Rightarrow> None
                  | Some w \<Rightarrow> map_option (\<lambda>bs. [x * 4 + y div 16, y mod 16 * 16 + z div 4, z mod 4 * 64 + w] @ bs) (base64Quanta rest)))
      | _ \<Rightarrow> None)"
| "base64Quanta _ = None"

definition base64Decode :: "string \<Rightarrow> nat list option" where
  "base64Decode s = base64Quanta (filter (\<lambda>c. c \<noteq> CHR 0x0A \<and> c \<noteq> CHR 0x0D) s)"

lemma base64Digit:
  assumes "d < 64"
  shows "base64Value (base64Digits ! d) = Some d" and "base64Digits ! d \<noteq> CHR ''=''" and "\<not> isSpaceChar (base64Digits ! d)"
proof -
  have "list_all (\<lambda>d. base64Value (base64Digits ! d) = Some d \<and> base64Digits ! d \<noteq> CHR ''='' \<and> \<not> isSpaceChar (base64Digits ! d)) [0..<64]"
    by code_simp
  then have "base64Value (base64Digits ! d) = Some d \<and> base64Digits ! d \<noteq> CHR ''='' \<and> \<not> isSpaceChar (base64Digits ! d)"
    unfolding list_all_iff using assms by (elim ballE[of _ _ d]) (simp_all only: set_upt atLeastLessThan_iff not_le simp_thms zero_le)
  then show "base64Value (base64Digits ! d) = Some d" "base64Digits ! d \<noteq> CHR ''=''" "\<not> isSpaceChar (base64Digits ! d)" by simp_all
qed

lemma byte_digits:
  assumes "(a :: nat) < 256" and "(b :: nat) < 256" and "(c :: nat) < 256"
  shows "a div 4 < 64" "a mod 4 * 16 < 64" "a mod 4 * 16 + b div 16 < 64" "b mod 16 * 4 < 64" "b mod 16 * 4 + c div 64 < 64" "c mod 64 < 64"
proof -
  have "a mod 4 < 4" "b div 16 < 16" "b mod 16 < 16" "c div 64 < 4"
    using assms less_mult_imp_div_less[of b 16 16] less_mult_imp_div_less[of c 4 64] by simp_all
  then show "a div 4 < 64" "a mod 4 * 16 < 64" "a mod 4 * 16 + b div 16 < 64" "b mod 16 * 4 < 64" "b mod 16 * 4 + c div 64 < 64" "c mod 64 < 64"
    using assms less_mult_imp_div_less[of a 64 4] by simp_all
qed

lemma byte_parts:
  assumes "(a :: nat) < 256" and "(b :: nat) < 256" and "(c :: nat) < 256"
  shows "a div 4 * 4 + (a mod 4 * 16 + b div 16) div 16 = a" "a div 4 * 4 + a mod 4 * 16 div 16 = a"
    "(a mod 4 * 16 + b div 16) mod 16 * 16 + (b mod 16 * 4 + c div 64) div 4 = b"
    "(a mod 4 * 16 + b div 16) mod 16 * 16 + b mod 16 * 4 div 4 = b"
    "(b mod 16 * 4 + c div 64) mod 4 * 64 + c mod 64 = c"
proof -
  have s: "b div 16 < 16" "c div 64 < 4" using assms less_mult_imp_div_less[of b 16 16] less_mult_imp_div_less[of c 4 64] by simp_all
  have 1: "(a mod 4 * 16 + b div 16) div 16 = a mod 4" "(a mod 4 * 16 + b div 16) mod 16 = b div 16"
    "(b mod 16 * 4 + c div 64) div 4 = b mod 16" "(b mod 16 * 4 + c div 64) mod 4 = c div 64"
    using s by simp_all
  show "a div 4 * 4 + (a mod 4 * 16 + b div 16) div 16 = a" "a div 4 * 4 + a mod 4 * 16 div 16 = a"
    "(a mod 4 * 16 + b div 16) mod 16 * 16 + (b mod 16 * 4 + c div 64) div 4 = b"
    "(a mod 4 * 16 + b div 16) mod 16 * 16 + b mod 16 * 4 div 4 = b"
    "(b mod 16 * 4 + c div 64) mod 4 * 64 + c mod 64 = c"
    unfolding 1 by simp_all
qed

lemma base64Quanta_Encode: "list_all (\<lambda>b. b < 256) bs \<Longrightarrow> base64Quanta (base64Encode bs) = Some bs"
proof (induction bs rule: base64Encode.induct)
  case (2 a)
  then show ?case using byte_digits[of a 0 0] byte_parts[of a 0 0] by (simp add: base64Digit)
next
  case (3 a b)
  then show ?case using byte_digits[of a b 0] byte_parts[of a b 0] by (simp add: base64Digit)
next
  case (4 a b c rest)
  then show ?case using byte_digits[of a b c] byte_parts[of a b c] by (simp add: base64Digit)
qed simp

lemma base64Encode_chars: "list_all (\<lambda>b. b < 256) bs \<Longrightarrow> c \<in> set (base64Encode bs) \<Longrightarrow> \<not> isSpaceChar c"
proof (induction bs rule: base64Encode.induct)
  case (2 a)
  then show ?case using byte_digits[of a 0 0] by (auto simp: base64Digit) (simp add: isSpaceChar_def)
next
  case (3 a b)
  then show ?case using byte_digits[of a b 0] by (auto simp: base64Digit) (simp add: isSpaceChar_def)
next
  case (4 a b c rest)
  then show ?case using byte_digits[of a b c] by (auto simp: base64Digit)
qed simp

lemma base64_roundtrip: "list_all (\<lambda>b. b < 256) bs \<Longrightarrow> base64Decode (base64Encode bs) = Some bs"
proof -
  assume b: "list_all (\<lambda>b. b < 256) bs"
  have "c \<noteq> CHR 0x0A \<and> c \<noteq> CHR 0x0D" if "c \<in> set (base64Encode bs)" for c
    using base64Encode_chars[OF b that] by (auto simp: isSpaceChar_def)
  then have "filter (\<lambda>c. c \<noteq> CHR 0x0A \<and> c \<noteq> CHR 0x0D) (base64Encode bs) = base64Encode bs" by (simp add: filter_id_conv)
  with base64Quanta_Encode[OF b] show ?thesis by (simp add: base64Decode_def)
qed

lemma length_base64: "length (base64Encode bs) = 4 * ((length bs + 2) div 3)"
proof (induction bs rule: base64Encode.induct)
  case (4 a b c rest)
  have "(5 + length rest) div 3 = Suc (Suc (Suc (length rest)) div 3)" by linarith
  with 4 show ?case by simp
qed simp_all

end
