(* ===== verification/Mixlib_Auth.thy ===== *)
theory Mixlib_Auth
  imports Go_Base64 Go_Numbers
begin

text \<open>Signed request headers (\<^verbatim>\<open>src/internal/auth/auth.go\<close>, \<^verbatim>\<open>sign.go\<close>) and the parsing of keys (\<^verbatim>\<open>keys.go\<close>, \<^verbatim>\<open>cache.go\<close>).

  A header is a list of names and values; \<^verbatim>\<open>Header.Get\<close> looks a name up without regard to case and
  \<^verbatim>\<open>Header.Set\<close> replaces it. Bytes are numbers below 256. \<open>codec\<close> stands for what the sources take from
  \<^verbatim>\<open>crypto/rsa\<close>, \<^verbatim>\<open>crypto/x509\<close> and \<^verbatim>\<open>encoding/pem\<close>: the check of an RSASSA-PKCS1-v1.5 signature of a SHA-256 digest,
  and the decoders of PEM blocks and keys. An error is \<open>Some\<close> reason; indexing past the end of a block is
  the reason \<open>VerifyPanicked\<close>.\<close>

type_synonym header = "(string \<times> string) list"

definition hdrGet :: "header \<Rightarrow> string \<Rightarrow> string" where
  "hdrGet h name = (case find (\<lambda>(n, _). toLower n = toLower name) h of None \<Rightarrow> [] | Some (_, v) \<Rightarrow> v)"

definition hdrSet :: "string \<Rightarrow> string \<Rightarrow> header \<Rightarrow> header" where
  "hdrSet name v h = (name, v) # filter (\<lambda>(n, _). toLower n \<noteq> toLower name) h"

record rsa_pub =
  rsa_N :: nat
  rsa_E :: nat

datatype x509_key = RSAKey rsa_pub | OtherKey

record codec =
  verify15 :: "rsa_pub \<Rightarrow> nat list \<Rightarrow> nat list \<Rightarrow> bool"
  pemDecode :: "string \<Rightarrow> (string \<times> string) option"
  parsePKIX :: "string \<Rightarrow> x509_key option"
  parsePKCS1 :: "string \<Rightarrow> rsa_pub option"

section \<open>Keys\<close>

definition ParsePublicKey :: "codec \<Rightarrow> string \<Rightarrow> rsa_pub option" where
  "ParsePublicKey cd pem = (case pemDecode cd pem of
     None \<Rightarrow> None
   | Some (typ', bytes) \<Rightarrow>
       if typ' = ''PUBLIC KEY'' then (case parsePKIX cd bytes of Some (RSAKey k) \<Rightarrow> Some k | _ \<Rightarrow> None)
       else if typ' = ''RSA PUBLIC KEY'' then parsePKCS1 cd bytes
       else None)"

type_synonym key_cache = "(string \<times> rsa_pub) list"

definition cacheParse :: "codec \<Rightarrow> string \<Rightarrow> key_cache \<Rightarrow> rsa_pub option \<times> key_cache" where
  "cacheParse cd pem m = (case map_of m pem of
     Some key \<Rightarrow> (Some key, m)
   | None \<Rightarrow> (case ParsePublicKey cd pem of None \<Rightarrow> (None, m) | Some key \<Rightarrow> (Some key, AList.update pem key m)))"

section \<open>Parsing the headers\<close>

record Parsed =
  p_Version :: string
  p_Algorithm :: string
  p_UserID :: string
  p_Timestamp :: string
  p_ContentHash :: string
  p_Signature :: "nat list"

datatype auth_error =
    MissingSign | NoVersion | UnsupportedVersion | MissingUserid | MissingAuthorization | BadSignature
  | VerificationFailed | SignatureMismatch | VerifyPanicked

definition signPart :: "string \<Rightarrow> string \<times> string \<Rightarrow> string \<times> string" where
  "signPart part av = (case cutAt ''='' (trimSpace part) of
     None \<Rightarrow> av
   | Some (k, v) \<Rightarrow>
       if trimSpace k = ''algorithm'' then (trimSpace v, snd av)
       else if trimSpace k = ''version'' then (fst av, trimSpace v)
       else av)"

definition parseSignDescription :: "string \<Rightarrow> string \<times> string" where
  "parseSignDescription s = fold signPart (splitOn CHR '';'' s) ([], [])"

definition authorizationHeader :: "nat \<Rightarrow> string" where
  "authorizationHeader i = ''X-Ops-Authorization-'' @ itoaNat i"

text \<open>The loop over the numbered headers ends at the first one missing; there are no more of them than headers.\<close>

definition signatureChunks :: "header \<Rightarrow> string list" where
  "signatureChunks h = takeWhile (\<lambda>chunk. chunk \<noteq> []) (map (\<lambda>i. hdrGet h (authorizationHeader i)) [1..<length h + 2])"

definition joinSignature :: "header \<Rightarrow> auth_error + nat list" where
  "joinSignature h =
     (let b = concat (map trimSpace (signatureChunks h)) in
      if b = [] then Inl MissingAuthorization
      else (case base64Decode b of None \<Rightarrow> Inl BadSignature | Some sig \<Rightarrow> Inr sig))"

definition Parse :: "header \<Rightarrow> auth_error + Parsed" where
  "Parse h =
     (let sign = hdrGet h ''X-Ops-Sign''; (algorithm, version) = parseSignDescription sign in
      if sign = [] then Inl MissingSign
      else if version = [] then Inl NoVersion
      else if version \<notin> set [''1.0'', ''1.1'', ''1.3''] then Inl UnsupportedVersion
      else (let algorithm = (if algorithm = [] then (if version = ''1.3'' then ''sha256'' else ''sha1'') else algorithm);
                userID = hdrGet h ''X-Ops-Userid'' in
        if userID = [] then Inl MissingUserid
        else (case joinSignature h of
            Inl e \<Rightarrow> Inl e
          | Inr sig \<Rightarrow> Inr \<lparr>p_Version = version, p_Algorithm = algorithm, p_UserID = userID,
              p_Timestamp = hdrGet h ''X-Ops-Timestamp'', p_ContentHash = hdrGet h ''X-Ops-Content-Hash'', p_Signature = sig\<rparr>)))"

section \<open>The signing string\<close>

text \<open>\<^verbatim>\<open>strings.ReplaceAll(path, "//", "/")\<close>, repeated while there is a double slash.\<close>

fun hasDouble :: "string \<Rightarrow> bool" where
  "hasDouble (c # d # cs) = (c = CHR ''/'' \<and> d = CHR ''/'' \<or> hasDouble (d # cs))"
| "hasDouble _ = False"

fun replaceDouble :: "string \<Rightarrow> string" where
  "replaceDouble (c # d # cs) =
     (if c = CHR ''/'' \<and> d = CHR ''/'' then CHR ''/'' # replaceDouble cs else c # replaceDouble (d # cs))"
| "replaceDouble cs = cs"

lemma replaceDouble_length: "length (replaceDouble cs) \<le> length cs"
  by (induction cs rule: replaceDouble.induct) auto

lemma replaceDouble_shorter: "hasDouble cs \<Longrightarrow> length (replaceDouble cs) < length cs"
proof (induction cs rule: replaceDouble.induct)
  case (1 c d cs)
  then show ?case using replaceDouble_length[of cs] by auto
qed auto

function collapseSlashes :: "string \<Rightarrow> string" where
  "collapseSlashes path = (if hasDouble path then collapseSlashes (replaceDouble path) else path)"
  by pat_completeness auto

termination
  by (relation "measure length") (auto simp: replaceDouble_shorter)

declare collapseSlashes.simps [simp del]

definition canonicalPath :: "string \<Rightarrow> string" where
  "canonicalPath path0 =
     (let path = collapseSlashes path0;
          path = (if length path > 1 \<and> hasSuffix path ''/'' then butlast path else path)
      in if path = [] then ''/'' else path)"

definition upperChar :: "char \<Rightarrow> char" where
  "upperChar c = (if isLowercase c then char_of (of_char c - (32 :: nat)) else c)"

definition toUpper :: "string \<Rightarrow> string" where
  "toUpper s = map upperChar s"

definition newDigest :: "string \<Rightarrow> nat list \<Rightarrow> nat list" where
  "newDigest algorithm = (if algorithm = ''sha256'' then sha256 else sha1)"

definition hashB64 :: "string \<Rightarrow> string \<Rightarrow> string" where
  "hashB64 algorithm data' = base64Encode (newDigest algorithm (bytesOf data'))"

definition signedUser :: "Parsed \<Rightarrow> string" where
  "signedUser p = (if p_Version p = ''1.1'' then hashB64 (p_Algorithm p) (p_UserID p) else p_UserID p)"

definition signedVersion :: "string \<Rightarrow> string" where
  "signedVersion serverAPIVersion = (if serverAPIVersion = [] then ''0'' else serverAPIVersion)"

definition signedLines :: "string \<Rightarrow> string \<Rightarrow> string \<Rightarrow> Parsed \<Rightarrow> string \<Rightarrow> string list" where
  "signedLines method path body p serverAPIVersion =
     (let cpath = canonicalPath path; contentHash = hashB64 (p_Algorithm p) body in
      if p_Version p = ''1.3'' then
        [''Method:'' @ toUpper method, ''Path:'' @ cpath, ''X-Ops-Content-Hash:'' @ contentHash,
         ''X-Ops-Sign:version='' @ p_Version p, ''X-Ops-Timestamp:'' @ p_Timestamp p, ''X-Ops-UserId:'' @ signedUser p,
         ''X-Ops-Server-API-Version:'' @ signedVersion serverAPIVersion]
      else
        [''Method:'' @ toUpper method, ''Hashed Path:'' @ hashB64 (p_Algorithm p) cpath, ''X-Ops-Content-Hash:'' @ contentHash,
         ''X-Ops-Timestamp:'' @ p_Timestamp p, ''X-Ops-UserId:'' @ signedUser p])"

definition canonicalString :: "string \<Rightarrow> string \<Rightarrow> string \<Rightarrow> Parsed \<Rightarrow> string \<Rightarrow> string" where
  "canonicalString method path body p serverAPIVersion = joinWith [CHR 0x0A] (signedLines method path body p serverAPIVersion)"

section \<open>Verification\<close>

text \<open>Big-endian numbers: \<^verbatim>\<open>SetBytes\<close>, \<^verbatim>\<open>Bytes\<close>, and the bytes of the modulus.\<close>

definition natOfBytes :: "nat list \<Rightarrow> nat" where
  "natOfBytes bs = foldl (\<lambda>n b. n * 256 + b) 0 bs"

fun bytesOfNat :: "nat \<Rightarrow> nat list" where
  "bytesOfNat n = (if n = 0 then [] else bytesOfNat (n div 256) @ [n mod 256])"

declare bytesOfNat.simps [simp del]

datatype recovered = Recovered "nat list" | RsaError | RsaPanic

definition unpad :: "nat list \<Rightarrow> recovered" where
  "unpad block =
     (if length block < 1 then RsaPanic
      else if block ! 0 \<noteq> 0 then RsaError
      else if length block < 2 then RsaPanic
      else if block ! 1 \<noteq> 1 then RsaError
      else (let i = 2 + length (takeWhile (\<lambda>b. b = 255) (drop 2 block)) in
        if i < 10 \<or> i = length block \<or> block ! i \<noteq> 0 then RsaError
        else Recovered (drop (i + 1) block)))"

definition rsaPublicDecrypt :: "rsa_pub \<Rightarrow> nat list \<Rightarrow> recovered" where
  "rsaPublicDecrypt pub sig =
     (let k = length (bytesOfNat (rsa_N pub)); c = natOfBytes sig in
      if length sig > k \<or> length sig = 0 then RsaError
      else if c \<ge> rsa_N pub then RsaError
      else (let em = bytesOfNat (c ^ rsa_E pub mod rsa_N pub) in
        if length em > k then RsaError else unpad (replicate (k - length em) 0 @ em)))"

definition Verify :: "codec \<Rightarrow> string \<Rightarrow> string \<Rightarrow> string \<Rightarrow> Parsed \<Rightarrow> string \<Rightarrow> rsa_pub \<Rightarrow> auth_error option" where
  "Verify cd method path body p serverAPIVersion pub =
     (let signingString = canonicalString method path body p serverAPIVersion in
      if p_Version p = ''1.0'' \<or> p_Version p = ''1.1'' then
        (case rsaPublicDecrypt pub (p_Signature p) of
           RsaError \<Rightarrow> Some VerificationFailed
         | RsaPanic \<Rightarrow> Some VerifyPanicked
         | Recovered m \<Rightarrow> if m \<noteq> bytesOf signingString then Some SignatureMismatch else None)
      else if p_Version p = ''1.3'' then
        (if verify15 cd pub (sha256 (bytesOf signingString)) (p_Signature p) then None else Some VerificationFailed)
      else Some UnsupportedVersion)"

definition VerifyRequest :: "codec \<Rightarrow> string \<Rightarrow> string \<Rightarrow> string \<Rightarrow> header \<Rightarrow> rsa_pub \<Rightarrow> auth_error option" where
  "VerifyRequest cd method path body h pub = (case Parse h of
     Inl e \<Rightarrow> Some e
   | Inr p \<Rightarrow> Verify cd method path body p (hdrGet h ''X-Ops-Server-API-Version'') pub)"

section \<open>Signing\<close>

definition setSignatureHeaders :: "nat list \<Rightarrow> header \<Rightarrow> header" where
  "setSignatureHeaders sig h =
     fold (\<lambda>(n, chunk) h. hdrSet (authorizationHeader n) chunk h)
       (let cs = chunks 60 (base64Encode sig) in zip [1..<length cs + 1] cs) h"

text \<open>\<open>sign\<close> is \<^verbatim>\<open>rsa.SignPKCS1v15\<close> with the client's private key.\<close>

definition SignRequest :: "(nat list \<Rightarrow> nat list option) \<Rightarrow> string \<Rightarrow> string \<Rightarrow> header \<Rightarrow> string \<Rightarrow> string \<Rightarrow> string \<Rightarrow> header option" where
  "SignRequest sign method path h userID timestamp body =
     (let p = \<lparr>p_Version = ''1.3'', p_Algorithm = ''sha256'', p_UserID = userID, p_Timestamp = timestamp,
            p_ContentHash = hashB64 ''sha256'' body, p_Signature = []\<rparr>;
          signingString = canonicalString method path body p (hdrGet h ''X-Ops-Server-API-Version'')
      in case sign (sha256 (bytesOf signingString)) of
           None \<Rightarrow> None
         | Some sig \<Rightarrow>
             Some (setSignatureHeaders sig
               (hdrSet ''X-Ops-Content-Hash'' (p_ContentHash p)
               (hdrSet ''X-Ops-Timestamp'' timestamp
               (hdrSet ''X-Ops-Userid'' userID
               (hdrSet ''X-Ops-Sign'' ''algorithm=sha256;version=1.3;'' h))))))"

section \<open>Headers\<close>

lemma hdrGet_hdrSet: "hdrGet (hdrSet n v h) m = (if toLower m = toLower n then v else hdrGet h m)"
proof -
  have "find (\<lambda>(x, _). toLower x = toLower m) (filter (\<lambda>(x, _). toLower x \<noteq> toLower n) h) =
      find (\<lambda>(x, _). toLower x = toLower m) h" if "toLower m \<noteq> toLower n"
    using that by (induction h) auto
  then show ?thesis by (auto simp: hdrGet_def hdrSet_def)
qed

lemma hdrGet_nonempty: "hdrGet h n \<noteq> [] \<Longrightarrow> toLower n \<in> set (map (toLower \<circ> fst) h)"
  by (induction h) (auto simp: hdrGet_def split: if_splits)

lemma lower_digits: "list_all isDigit ds \<Longrightarrow> toLower ds = ds"
  by (induction ds) (auto simp: toLower_def lowerChar_def isDigit_def less_eq_char_def)

lemma authorizationHeader_inj: "toLower (authorizationHeader i) = toLower (authorizationHeader j) \<longleftrightarrow> i = j"
proof -
  have low: "toLower (authorizationHeader k) = toLower ''X-Ops-Authorization-'' @ itoaNat k" for k
    unfolding authorizationHeader_def toLower_append using itoaNat_dec[of k] by (simp only: lower_digits)
  show ?thesis unfolding low same_append_eq by (metis itoaNat_dec)
qed

text \<open>The bound on the numbered headers is one the loop cannot reach: some header among the first \<open>length h + 1\<close> is missing.\<close>

lemma chunk_missing: "\<exists>i \<in> {1..<length h + 2}. hdrGet h (authorizationHeader i) = []"
proof (rule ccontr)
  assume "\<not> ?thesis"
  then have "(\<lambda>i. toLower (authorizationHeader i)) ` {1..<length h + 2} \<subseteq> set (map (toLower \<circ> fst) h)"
    using hdrGet_nonempty by blast
  then have "card ((\<lambda>i. toLower (authorizationHeader i)) ` {1..<length h + 2}) \<le> length h"
    by (metis (no_types, lifting) List.finite_set card_length card_mono length_map order_trans)
  moreover have "inj_on (\<lambda>i. toLower (authorizationHeader i)) {1..<length h + 2}"
    by (rule inj_onI) (simp only: authorizationHeader_inj)
  ultimately show False by (simp add: card_image)
qed

lemma signatureChunks_eq:
  assumes "\<And>i. i < length cs \<Longrightarrow> hdrGet h (authorizationHeader (Suc i)) = cs ! i" and "[] \<notin> set cs"
    and "hdrGet h (authorizationHeader (Suc (length cs))) = []"
  shows "signatureChunks h = cs"
proof -
  let ?f = "\<lambda>i. hdrGet h (authorizationHeader i)"
  obtain i where i: "i \<in> {1..<length h + 2}" "?f i = []" using chunk_missing by blast
  have "\<not> i \<le> length cs"
  proof
    assume "i \<le> length cs"
    moreover obtain j where "i = Suc j" using i(1) by (cases i) auto
    ultimately show False using assms(1)[of j] assms(2) i(2) nth_mem[of j cs] by auto
  qed
  with i(1) have le: "length cs + 1 < length h + 2" by simp
  have "[1..<length h + 2] = map Suc [0..<length cs] @ Suc (length cs) # [length cs + 2..<length h + 2]"
    using le upt_add_eq_append[of 1 "length cs + 1" "length h + 1 - length cs"] upt_conv_Cons[OF le]
    by (simp add: map_Suc_upt del: upt_Suc)
  moreover have "map ?f (map Suc [0..<length cs]) = cs" using assms(1) by (auto intro: nth_equalityI)
  ultimately have "map ?f [1..<length h + 2] = cs @ [] # map ?f [length cs + 2..<length h + 2]"
    using assms(3) by (simp del: upt_Suc)
  moreover have "takeWhile (\<lambda>c. c \<noteq> []) (cs @ [] # rest) = cs" for rest
    using assms(2) by (induction cs) auto
  ultimately show ?thesis unfolding signatureChunks_def by (simp only:)
qed

section \<open>What is signed is what is verified\<close>

lemma concat_chunks: "0 < n \<Longrightarrow> concat (chunks n xs) = xs"
  by (induction n xs rule: chunks.induct) auto

lemma chunks_nonempty: "[] \<notin> set (chunks n xs)"
  by (induction n xs rule: chunks.induct) auto

lemma hdrGet_numbered:
  "hdrGet (fold (\<lambda>(n, chunk) h. hdrSet (authorizationHeader n) chunk h) (zip [k..<k + length cs] cs) h) (authorizationHeader i) =
    (if k \<le> i \<and> i < k + length cs then cs ! (i - k) else hdrGet h (authorizationHeader i))"
proof (induction cs arbitrary: k h)
  case (Cons c cs)
  have "zip [k..<k + length (c # cs)] (c # cs) = (k, c) # zip [Suc k..<Suc k + length cs] cs"
    by (simp add: upt_conv_Cons del: upt_Suc)
  then show ?case
    using Cons[of "Suc k" "hdrSet (authorizationHeader k) c h"]
    by (auto simp: hdrGet_hdrSet authorizationHeader_inj nth_Cons')
qed auto

lemma hdrGet_other:
  assumes "\<And>n. toLower name \<noteq> toLower (authorizationHeader n)"
  shows "hdrGet (fold (\<lambda>(n, chunk) h. hdrSet (authorizationHeader n) chunk h) ncs h) name = hdrGet h name"
  by (induction ncs arbitrary: h) (auto simp: hdrGet_hdrSet assms)

lemma base64Encode_Nil: "base64Encode bs = [] \<longleftrightarrow> bs = []"
  by (cases bs rule: base64Encode.cases) simp_all

lemma joinSignature_set:
  assumes "sig \<noteq> []" and "list_all (\<lambda>b. b < 256) sig" and "\<And>i. hdrGet h (authorizationHeader i) = []"
  shows "joinSignature (setSignatureHeaders sig h) = Inr sig"
proof -
  let ?cs = "chunks 60 (base64Encode sig)"
  have "hdrGet (setSignatureHeaders sig h) (authorizationHeader i) = (if 1 \<le> i \<and> i < 1 + length ?cs then ?cs ! (i - 1) else [])" for i
    unfolding setSignatureHeaders_def Let_def add.commute[of _ 1] hdrGet_numbered assms(3) ..
  then have "signatureChunks (setSignatureHeaders sig h) = ?cs"
    by (intro signatureChunks_eq chunks_nonempty) simp_all
  moreover have "trimSpace c = c" if "c \<in> set ?cs" for c
  proof (rule no_spaces_trim)
    have "set c \<subseteq> set (concat ?cs)" using that by auto
    then have "set c \<subseteq> set (base64Encode sig)" by (simp only: concat_chunks[of 60, simplified])
    then show "list_all (\<lambda>x. \<not> isSpaceChar x) c" using base64Encode_chars[OF assms(2)] by (auto simp: list_all_iff)
  qed
  ultimately have "concat (map trimSpace (signatureChunks (setSignatureHeaders sig h))) = base64Encode sig"
    by (simp add: concat_chunks cong: map_cong)
  then show ?thesis
    using assms(1) base64_roundtrip[OF assms(2)] by (simp add: joinSignature_def base64Encode_Nil)
qed

abbreviation signHeaders :: "string list" where
  "signHeaders \<equiv> [''X-Ops-Sign'', ''X-Ops-Userid'', ''X-Ops-Timestamp'', ''X-Ops-Content-Hash'', ''X-Ops-Server-API-Version'']"

lemma signHeaders_distinct:
  assumes "name \<in> set signHeaders"
  shows "toLower name \<noteq> toLower (authorizationHeader n)"
proof -
  have "list_all (\<lambda>name. take 7 (toLower name) \<noteq> take 7 (toLower ''X-Ops-Authorization-'')) signHeaders" by code_simp
  then have "take 7 (toLower name) \<noteq> take 7 (toLower ''X-Ops-Authorization-'')" using assms by (simp only: list_all_iff) blast
  moreover have "take 7 (toLower (authorizationHeader n)) = take 7 (toLower ''X-Ops-Authorization-'')"
    unfolding authorizationHeader_def toLower_append by (simp add: toLower_def)
  ultimately show ?thesis by metis
qed

text \<open>What the signed headers say.\<close>

lemma signed_headers:
  assumes "userID \<noteq> []" and "sig \<noteq> []" and "list_all (\<lambda>b. b < 256) sig" and "\<And>i. hdrGet h (authorizationHeader i) = []"
    and "h' = setSignatureHeaders sig (hdrSet ''X-Ops-Content-Hash'' hash (hdrSet ''X-Ops-Timestamp'' timestamp
      (hdrSet ''X-Ops-Userid'' userID (hdrSet ''X-Ops-Sign'' ''algorithm=sha256;version=1.3;'' h))))"
  shows "Parse h' = Inr \<lparr>p_Version = ''1.3'', p_Algorithm = ''sha256'', p_UserID = userID, p_Timestamp = timestamp,
      p_ContentHash = hash, p_Signature = sig\<rparr>"
    and "hdrGet h' ''X-Ops-Server-API-Version'' = hdrGet h ''X-Ops-Server-API-Version''"
proof -
  let ?h = "hdrSet ''X-Ops-Content-Hash'' hash (hdrSet ''X-Ops-Timestamp'' timestamp
      (hdrSet ''X-Ops-Userid'' userID (hdrSet ''X-Ops-Sign'' ''algorithm=sha256;version=1.3;'' h)))"
  have other: "hdrGet h' name = hdrGet ?h name" if "name \<in> set signHeaders" for name
    unfolding assms(5) setSignatureHeaders_def Let_def by (rule hdrGet_other) (rule signHeaders_distinct[OF that])
  have low: "distinct (map toLower signHeaders)" by code_simp
  have "hdrGet ?h (authorizationHeader i) = []" for i
    using signHeaders_distinct[of _ i] by (simp add: hdrGet_hdrSet assms(4) eq_commute[of "toLower (authorizationHeader i)"])
  then have join: "joinSignature h' = Inr sig" unfolding assms(5) by (intro joinSignature_set assms(2,3))
  have descr: "parseSignDescription ''algorithm=sha256;version=1.3;'' = (''sha256'', ''1.3'')" by code_simp
  have get: "hdrGet h' ''X-Ops-Sign'' = ''algorithm=sha256;version=1.3;''" "hdrGet h' ''X-Ops-Userid'' = userID"
    "hdrGet h' ''X-Ops-Timestamp'' = timestamp" "hdrGet h' ''X-Ops-Content-Hash'' = hash"
    "hdrGet h' ''X-Ops-Server-API-Version'' = hdrGet h ''X-Ops-Server-API-Version''"
    using low by (simp_all add: other hdrGet_hdrSet eq_commute)
  show "Parse h' = Inr \<lparr>p_Version = ''1.3'', p_Algorithm = ''sha256'', p_UserID = userID, p_Timestamp = timestamp,
      p_ContentHash = hash, p_Signature = sig\<rparr>"
    unfolding Parse_def Let_def get descr join using assms(1) by simp
  show "hdrGet h' ''X-Ops-Server-API-Version'' = hdrGet h ''X-Ops-Server-API-Version''" by (rule get(5))
qed

section \<open>The signing string determines the request\<close>

abbreviation oneLine :: "string \<Rightarrow> bool" where
  "oneLine s \<equiv> CHR 0x0A \<notin> set s"

lemma canonicalPath_oneLine: "oneLine path \<Longrightarrow> oneLine (canonicalPath path)"
proof -
  have 1: "set (replaceDouble cs) \<subseteq> set cs" for cs by (induction cs rule: replaceDouble.induct) auto
  have 2: "set (collapseSlashes cs) \<subseteq> set cs" for cs
  proof (induction cs rule: collapseSlashes.induct)
    case (1 cs)
    then show ?case using \<open>\<And>cs. set (replaceDouble cs) \<subseteq> set cs\<close>[of cs] by (subst collapseSlashes.simps) auto
  qed
  then show "oneLine path \<Longrightarrow> ?thesis" by (auto simp: canonicalPath_def Let_def dest: in_set_butlastD)
qed

lemma toUpper_oneLine: "oneLine s \<Longrightarrow> oneLine (toUpper s)"
proof -
  have "upperChar c \<noteq> CHR 0x0A" if "c \<noteq> CHR 0x0A" for c
  proof
    assume u: "upperChar c = CHR 0x0A"
    with that have low: "isLowercase c" by (auto simp: upperChar_def split: if_splits)
    have "of_char c - (32 :: nat) < 256" using nat_of_char_less_256[of c] by (rule le_less_trans[OF diff_le_self])
    with low have "of_char (upperChar c) = of_char c - (32 :: nat)" by (simp only: upperChar_def if_True simp_thms of_char_of mod_less)
    with u low show False by (simp add: less_eq_char_def) linarith
  qed
  then have "CHR 0x0A \<notin> upperChar ` set s" if "oneLine s" using that by (metis imageE)
  then show "oneLine s \<Longrightarrow> ?thesis" by (simp only: toUpper_def set_map not_False_eq_True)
qed

lemma newDigest_shape: "list_all (\<lambda>b. b < 256) (newDigest algorithm bs)"
  using sha256_shape[of bs] sha1_shape[of bs] by (simp add: newDigest_def)

lemma hashB64_oneLine: "oneLine (hashB64 algorithm x)"
  using base64Encode_chars[OF newDigest_shape[of algorithm "bytesOf x"]] by (auto simp: hashB64_def isSpaceChar_def)

lemma hashB64_algorithm:
  "hashB64 a x = hashB64 a' y \<Longrightarrow> (a = ''sha256'' \<longleftrightarrow> a' = ''sha256'') \<and> hashB64 a' = hashB64 a"
proof -
  assume "hashB64 a x = hashB64 a' y"
  then have "length (hashB64 a x) = length (hashB64 a' y)" by simp
  moreover have "length (hashB64 a z) = (if a = ''sha256'' then 44 else 28)" for a z
    using sha256_shape sha1_shape by (simp add: hashB64_def newDigest_def length_base64)
  ultimately have "a = ''sha256'' \<longleftrightarrow> a' = ''sha256''" by (simp split: if_splits)
  then show ?thesis by (auto simp: hashB64_def[abs_def] newDigest_def)
qed

definition cleanRequest :: "string \<Rightarrow> string \<Rightarrow> Parsed \<Rightarrow> string \<Rightarrow> bool" where
  "cleanRequest method path p version = list_all oneLine [method, path, p_Version p, p_Timestamp p, p_UserID p, version]"

lemma signedLines_oneLine:
  assumes "cleanRequest method path p version" and "l \<in> set (signedLines method path body p version)"
  shows "oneLine l"
proof -
  have "oneLine (toUpper method)" "oneLine (canonicalPath path)" "oneLine (p_Version p)" "oneLine (p_Timestamp p)"
    "oneLine (signedUser p)" "oneLine (signedVersion version)"
    using assms(1) toUpper_oneLine canonicalPath_oneLine hashB64_oneLine
    by (simp_all add: cleanRequest_def signedUser_def signedVersion_def)
  then show ?thesis using assms(2) hashB64_oneLine unfolding signedLines_def Let_def by (simp split: if_splits) auto
qed

lemma canonicalString_inj:
  assumes "canonicalString method path body p version = canonicalString method' path' body' p' version'"
    and "cleanRequest method path p version" and "cleanRequest method' path' p' version'"
  shows "signedLines method path body p version = signedLines method' path' body' p' version'"
proof -
  have ne: "signedLines m q b p v \<noteq> []" for m q b p v by (simp add: signedLines_def Let_def)
  have "splitOn CHR 0x0A (canonicalString m q b p v) = signedLines m q b p v" if "cleanRequest m q p v" for m q b p v
    unfolding canonicalString_def using signedLines_oneLine[OF that] by (intro splitOn_joinWith ne)
  then show ?thesis using assms by metis
qed

lemma canonicalString_first: "\<exists>rest. canonicalString method path body p version = CHR ''M'' # rest"
  by (simp add: canonicalString_def signedLines_def Let_def)

lemma bytesOf_inj: "bytesOf s = bytesOf t \<longleftrightarrow> s = t"
  unfolding bytesOf_def by (rule inj_map_eq_map) (rule injI, simp)

text \<open>The prefix of a SHA-256 digest in a PKCS #1 signature, as the DER encoding of a sequence of the algorithm identifier
  (2.16.840.1.101.3.4.2.1, no parameters) and an octet string of 32 bytes, and what the check of such a signature means: the block that the public
  key recovers from it is the prefix and the digest.\<close>

definition der :: "nat \<Rightarrow> nat list \<Rightarrow> nat list" where
  "der tag content = tag # length content # content"

definition oidArc :: "nat \<Rightarrow> nat list" where
  "oidArc n = (if n < 128 then [n] else [128 + n div 128, n mod 128])"

definition sha256Algorithm :: "nat list" where
  "sha256Algorithm = der 0x30 (der 6 (concat (map oidArc [2 * 40 + 16, 840, 1, 101, 3, 4, 2, 1])) @ der 5 [])"

definition sha256Prefix :: "nat list" where
  "sha256Prefix = 0x30 # (length sha256Algorithm + 2 + 32) # sha256Algorithm @ [4, 32]"

lemma Verify_accepts:
  assumes "Verify cd method path body p version pub = None"
    and "\<And>digest. verify15 cd pub digest (p_Signature p) \<Longrightarrow> rsaPublicDecrypt pub (p_Signature p) = Recovered (sha256Prefix @ digest)"
  shows "rsaPublicDecrypt pub (p_Signature p) = Recovered
    (if p_Version p = ''1.3'' then sha256Prefix @ sha256 (bytesOf (canonicalString method path body p version))
     else bytesOf (canonicalString method path body p version))"
  using assms unfolding Verify_def by (auto simp: Let_def split: if_splits recovered.splits)

text \<open>The block that OpenSSL's \<^verbatim>\<open>private_encrypt\<close> encrypts, and what a key with exponent 1 makes of it.\<close>

definition paddedBlock :: "string \<Rightarrow> nat list" where
  "paddedBlock s = [0, 1] @ replicate 8 255 @ [0] @ bytesOf s"

lemma unpad_padded: "unpad (paddedBlock s) = Recovered (bytesOf s)"
  by (simp add: unpad_def paddedBlock_def numeral_eq_Suc)

lemma natOfBytes_snoc: "natOfBytes (bs @ [b]) = natOfBytes bs * 256 + b"
  by (simp add: natOfBytes_def)

lemma natOfBytes_less: "list_all (\<lambda>b. b < 256) bs \<Longrightarrow> natOfBytes bs < 256 ^ length bs"
proof (induction bs rule: rev_induct)
  case (snoc b bs)
  then have "natOfBytes bs + 1 \<le> 256 ^ length bs" and "b < 256" by simp_all
  then have "(natOfBytes bs + 1) * 256 \<le> 256 ^ length bs * 256" by (simp only: mult_le_mono1)
  with \<open>b < 256\<close> show ?case by (simp add: natOfBytes_snoc)
qed (simp add: natOfBytes_def)

lemma natOfBytes_pos: "bs \<noteq> [] \<Longrightarrow> 0 < hd bs \<Longrightarrow> 0 < natOfBytes bs"
  by (induction bs rule: rev_induct) (auto simp: natOfBytes_snoc natOfBytes_def hd_append split: if_splits)

lemma bytesOfNat_natOfBytes: "list_all (\<lambda>b. b < 256) bs \<Longrightarrow> bs \<noteq> [] \<Longrightarrow> 0 < hd bs \<Longrightarrow> bytesOfNat (natOfBytes bs) = bs"
proof (induction bs rule: rev_induct)
  case (snoc b bs)
  show ?case
  proof (cases bs)
    case Nil
    then show ?thesis using snoc.prems by (simp add: natOfBytes_def bytesOfNat.simps[of b] bytesOfNat.simps[of 0])
  next
    case Cons
    with snoc have IH: "bytesOfNat (natOfBytes bs) = bs" by simp
    have b: "b < 256" using snoc.prems(1) by simp
    have "0 < natOfBytes (bs @ [b])" using snoc.prems by (intro natOfBytes_pos) simp_all
    then show ?thesis
      using IH b by (subst bytesOfNat.simps) (simp add: natOfBytes_snoc)
  qed
qed simp

lemma length_bytesOfNat: "length (bytesOfNat (256 ^ n - 1)) = n"
proof -
  have "natOfBytes (replicate n 255) = 256 ^ n - 1"
  proof (induction n)
    case (Suc n)
    have "(256 :: nat) ^ n \<ge> 1" by simp
    moreover have "replicate (Suc n) 255 = replicate n (255 :: nat) @ [255]" by (simp add: replicate_append_same)
    ultimately show ?case using Suc by (simp only: natOfBytes_snoc diff_mult_distrib power_Suc)
  qed (simp add: natOfBytes_def)
  moreover have "bytesOfNat (natOfBytes (replicate n 255)) = replicate n 255" if "n > 0"
    using that by (intro bytesOfNat_natOfBytes) (simp_all add: list_all_iff)
  ultimately show ?thesis by (cases n) (simp add: bytesOfNat.simps, metis length_replicate zero_less_Suc)
qed

lemma rsaPublicDecrypt_identity:
  assumes "pub = \<lparr>rsa_N = 256 ^ length (paddedBlock s) - 1, rsa_E = 1\<rparr>"
  shows "rsaPublicDecrypt pub (paddedBlock s) = Recovered (bytesOf s)"
proof -
  let ?em = "1 # replicate 8 255 @ [0] @ bytesOf s"
  have block: "paddedBlock s = 0 # ?em" by (simp add: paddedBlock_def)
  have bytes: "list_all (\<lambda>b. b < 256) ?em" by (auto simp: list_all_iff bytesOf_def)
  have c: "natOfBytes (paddedBlock s) = natOfBytes ?em" by (simp add: block natOfBytes_def)
  have "natOfBytes ?em < 256 ^ length ?em" using bytes by (rule natOfBytes_less)
  also have "(256 :: nat) ^ length ?em \<le> 256 ^ length (paddedBlock s) - 1"
  proof -
    have "(256 :: nat) ^ length ?em \<ge> 1" by simp
    then show ?thesis by (simp add: block del: length_append length_Cons)
  qed
  finally have less: "natOfBytes ?em < 256 ^ length (paddedBlock s) - 1" .
  moreover have "bytesOfNat (natOfBytes ?em) = ?em" using bytes by (rule bytesOfNat_natOfBytes) simp_all
  ultimately show ?thesis
    using unpad_padded[of s] length_bytesOfNat[of "length (paddedBlock s)"] unfolding rsaPublicDecrypt_def Let_def assms
    by (simp add: c) (simp add: block)
qed

section \<open>Properties\<close>

text \<open>C9. A signed request is accepted: a request signed by \<open>SignRequest\<close>, whatever its method, path, headers and body, passes
  \<open>VerifyRequest\<close> and is read back with the user and the time it was signed for. The client's key
  signs every digest with a signature that its public key checks, and the request carried no
  signature headers before.\<close>

theorem signed_request_verifies:
  assumes "userID \<noteq> []" and "\<And>i. hdrGet h (authorizationHeader i) = []"
    and "\<And>digest. \<exists>sig. sign digest = Some sig \<and> sig \<noteq> [] \<and> list_all (\<lambda>b. b < 256) sig \<and> verify15 cd pub digest sig"
  shows "\<exists>h' p. SignRequest sign method path h userID timestamp body = Some h' \<and> Parse h' = Inr p \<and>
    p_UserID p = userID \<and> p_Timestamp p = timestamp \<and> VerifyRequest cd method path body h' pub = None"
proof -
  let ?p = "\<lambda>sig. \<lparr>p_Version = ''1.3'', p_Algorithm = ''sha256'', p_UserID = userID, p_Timestamp = timestamp,
      p_ContentHash = hashB64 ''sha256'' body, p_Signature = sig\<rparr>"
  let ?s = "\<lambda>sig. canonicalString method path body (?p sig) (hdrGet h ''X-Ops-Server-API-Version'')"
  obtain sig where sig: "sign (sha256 (bytesOf (?s []))) = Some sig" "sig \<noteq> []" "list_all (\<lambda>b. b < 256) sig"
    "verify15 cd pub (sha256 (bytesOf (?s []))) sig"
    using assms(3) by blast
  obtain h' where h': "h' = setSignatureHeaders sig (hdrSet ''X-Ops-Content-Hash'' (hashB64 ''sha256'' body) (hdrSet ''X-Ops-Timestamp'' timestamp
      (hdrSet ''X-Ops-Userid'' userID (hdrSet ''X-Ops-Sign'' ''algorithm=sha256;version=1.3;'' h))))" by simp
  note parsed = signed_headers[OF assms(1) sig(2,3) assms(2) h']
  have "?s sig = ?s []" by (simp add: canonicalString_def signedLines_def signedUser_def)
  then have "VerifyRequest cd method path body h' pub = None"
    using sig(4) by (simp add: VerifyRequest_def parsed Verify_def Let_def)
  moreover have "SignRequest sign method path h userID timestamp body = Some h'"
    using sig(1) by (simp add: SignRequest_def Let_def h')
  ultimately show ?thesis using parsed(1) by auto
qed

theorem signed_request_verifies_witness:
  "\<exists>h' p. SignRequest (\<lambda>digest. Some (sha256 digest)) ''GET'' ''/organizations/o/nodes'' [] ''alice'' ''2024-01-01T00:00:00Z'' [] = Some h' \<and>
    Parse h' = Inr p \<and> p_UserID p = ''alice'' \<and> p_Timestamp p = ''2024-01-01T00:00:00Z'' \<and>
    VerifyRequest \<lparr>verify15 = (\<lambda>_ digest sig. sig = sha256 digest), pemDecode = (\<lambda>_. None), parsePKIX = (\<lambda>_. None), parsePKCS1 = (\<lambda>_. None)\<rparr>
      ''GET'' ''/organizations/o/nodes'' [] h' \<lparr>rsa_N = 0, rsa_E = 0\<rparr> = None"
proof (rule signed_request_verifies)
  show "\<exists>sig. Some (sha256 digest) = Some sig \<and> sig \<noteq> [] \<and> list_all (\<lambda>b. b < 256) sig \<and>
      verify15 \<lparr>verify15 = (\<lambda>_ digest sig. sig = sha256 digest), pemDecode = (\<lambda>_. None), parsePKIX = (\<lambda>_. None), parsePKCS1 = (\<lambda>_. None)\<rparr>
        \<lparr>rsa_N = 0, rsa_E = 0\<rparr> digest sig" for digest
    using sha256_shape[of digest] by auto
qed (simp_all add: hdrGet_def)


definition sampleParsed :: "nat list \<Rightarrow> Parsed" where
  "sampleParsed sig = \<lparr>p_Version = ''1.0'', p_Algorithm = ''sha1'', p_UserID = ''alice'', p_Timestamp = ''2024-01-01T00:00:00Z'',
     p_ContentHash = [], p_Signature = sig\<rparr>"

definition sampleBlock :: "nat list" where
  "sampleBlock = paddedBlock (canonicalString ''GET'' ''/a'' [] (sampleParsed []) [])"

definition sampleKey :: rsa_pub where
  "sampleKey = \<lparr>rsa_N = 256 ^ length sampleBlock - 1, rsa_E = 1\<rparr>"

definition sampleCodec :: codec where
  "sampleCodec = \<lparr>verify15 = (\<lambda>_ _ _. False), pemDecode = (\<lambda>_. None), parsePKIX = (\<lambda>_. None), parsePKCS1 = (\<lambda>_. None)\<rparr>"

lemma sample_verifies:
  assumes "toUpper method = ''GET''" and "canonicalPath path = ''/a''"
  shows "Verify sampleCodec method path [] (sampleParsed sampleBlock) [] sampleKey = None"
proof -
  have "canonicalPath ''/a'' = ''/a''" "toUpper ''GET'' = ''GET''" by code_simp+
  then have "canonicalString method path [] (sampleParsed sampleBlock) [] = canonicalString ''GET'' ''/a'' [] (sampleParsed []) []"
    using assms by (simp add: canonicalString_def signedLines_def signedUser_def sampleParsed_def Let_def)
  moreover have "rsaPublicDecrypt sampleKey sampleBlock = Recovered (bytesOf (canonicalString ''GET'' ''/a'' [] (sampleParsed []) []))"
    unfolding sampleBlock_def by (rule rsaPublicDecrypt_identity) (simp add: sampleKey_def sampleBlock_def)
  ultimately show ?thesis by (simp add: Verify_def Let_def) (simp add: sampleParsed_def)
qed


end
