(* ===== verification/Go_Time.thy ===== *)
theory Go_Time
  imports Go_Numbers
begin

text \<open>\<^verbatim>\<open>time.Parse(time.RFC3339, s)\<close>: instants are nanoseconds from the Unix epoch. Go's parser is more lenient than the
  standard: an hour may have one digit, a fraction may follow a comma, and an offset may be as large
  as 24 hours and 60 minutes.\<close>

section \<open>The calendar\<close>

definition leapYear :: "int \<Rightarrow> bool" where
  "leapYear y = (y mod 4 = 0 \<and> (y mod 100 \<noteq> 0 \<or> y mod 400 = 0))"

definition daysIn :: "int \<Rightarrow> int \<Rightarrow> int" where
  "daysIn month year =
     (if month = 2 then (if leapYear year then 29 else 28)
      else if month \<in> set [4, 6, 9, 11] then 30 else 31)"

definition daysBeforeYear :: "int \<Rightarrow> int" where
  "daysBeforeYear y = (let p = y - 1 in 365 * p + p div 4 - p div 100 + p div 400)"

definition daysBeforeMonth :: "int \<Rightarrow> int \<Rightarrow> int" where
  "daysBeforeMonth month year = sum_list (map (\<lambda>m. daysIn m year) [1..month - 1])"

definition unixDays :: "int \<Rightarrow> int \<Rightarrow> int \<Rightarrow> int" where
  "unixDays year month day = daysBeforeYear year + daysBeforeMonth month year + (day - 1) - daysBeforeYear 1970"

section \<open>The parser\<close>

text \<open>\<^verbatim>\<open>getnum\<close>: two digits, or one when the layout does not insist on two.\<close>

definition getnum :: "bool \<Rightarrow> string \<Rightarrow> (int \<times> string) option" where
  "getnum fixed s = (case s of
     c # cs \<Rightarrow>
       if \<not> isDigit c then None
       else (case cs of
           d # ds \<Rightarrow> if isDigit d then Some (int (decVal [c, d]), ds)
                     else if fixed then None else Some (int (decVal [c]), cs)
         | [] \<Rightarrow> if fixed then None else Some (int (decVal [c]), []))
   | [] \<Rightarrow> None)"

definition expect :: "char \<Rightarrow> string \<Rightarrow> string option" where
  "expect c s = (case s of x # xs \<Rightarrow> if x = c then Some xs else None | [] \<Rightarrow> None)"

definition getYear :: "string \<Rightarrow> (int \<times> string) option" where
  "getYear s = (if length s \<ge> 4 \<and> list_all isDigit (take 4 s) then Some (int (decVal (take 4 s)), drop 4 s) else None)"

text \<open>A fraction of a second, of any number of digits; only nine count.\<close>

definition getFraction :: "string \<Rightarrow> int \<times> string" where
  "getFraction s = (case s of
     c # d # ds \<Rightarrow>
       if (c = CHR ''.'' \<or> c = CHR '','') \<and> isDigit d then
         (let digits = take 9 (takeWhile isDigit (d # ds))
          in (int (decVal digits) * 10 ^ (9 - length digits), dropWhile isDigit (d # ds)))
       else (0, s)
   | _ \<Rightarrow> (0, s))"

text \<open>\<^verbatim>\<open>Z07:00\<close>: the offset in seconds.\<close>

definition getZone :: "string \<Rightarrow> (int \<times> string) option" where
  "getZone s =
     (if s \<noteq> [] \<and> hd s = CHR ''Z'' then Some (0, tl s)
      else if length s < 6 \<or> s ! 3 \<noteq> CHR '':'' then None
      else (case (getnum True (take 2 (drop 1 s)), getnum True (take 2 (drop 4 s))) of
          (Some (hr, _), Some (mm, _)) \<Rightarrow>
            if hr > 24 \<or> mm > 60 then None
            else if hd s = CHR ''+'' then Some ((hr * 60 + mm) * 60, drop 6 s)
            else if hd s = CHR ''-'' then Some (- ((hr * 60 + mm) * 60), drop 6 s)
            else None
        | _ \<Rightarrow> None))"

definition getDate :: "string \<Rightarrow> ((int \<times> int \<times> int) \<times> string) option" where
  "getDate s =
     Option.bind (getYear s) (\<lambda>(year, s). Option.bind (expect CHR ''-'' s) (\<lambda>s.
     Option.bind (getnum True s) (\<lambda>(month, s).
     if month \<le> 0 \<or> 12 < month then None
     else Option.bind (expect CHR ''-'' s) (\<lambda>s.
       Option.bind (getnum True s) (\<lambda>(day, s). Some ((year, month, day), s))))))"

definition getClock :: "string \<Rightarrow> (int \<times> string) option" where
  "getClock s =
     Option.bind (getnum False s) (\<lambda>(hour, s).
     if hour \<ge> 24 then None
     else Option.bind (expect CHR '':'' s) (\<lambda>s. Option.bind (getnum True s) (\<lambda>(mins, s).
       if mins \<ge> 60 then None
       else Option.bind (expect CHR '':'' s) (\<lambda>s. Option.bind (getnum True s) (\<lambda>(sec, s).
         if sec \<ge> 60 then None else Some ((hour * 60 + mins) * 60 + sec, s))))))"

definition parseRFC3339 :: "string \<Rightarrow> int option" where
  "parseRFC3339 s =
     Option.bind (getDate s) (\<lambda>((year, month, day), s).
     Option.bind (expect CHR ''T'' s) (\<lambda>s.
     Option.bind (getClock s) (\<lambda>(secs, s).
       (let (frac, s) = getFraction s in
        Option.bind (getZone s) (\<lambda>(zone, s).
          if s \<noteq> [] \<or> day < 1 \<or> day > daysIn month year then None
          else Some ((unixDays year month day * 86400 + secs - zone) * 10 ^ 9 + frac))))))"

end
