(* ===== verification/Actor_Keys.thy ===== *)
theory Actor_Keys
  imports Acl Mixlib_Auth Go_Time Typed_Json Handler_Rules
begin

text \<open>The keys of clients and users (\<^verbatim>\<open>src/internal/api/keys.go\<close>, \<^verbatim>\<open>keyvalidation.go\<close>).

  The scope of an actor is its organization, or the empty name for users, whose space is global. A
  decoded document is a Go map that may be nil (\<open>None\<close>); writing to a nil map panics. \<open>key_env\<close> holds
  what the handlers take from outside: the key decoders, the key pair that generation yields (or its
  error) and the time. The \<^verbatim>\<open>Location\<close> header of a rename is not modelled.\<close>

record key_env =
  ke_codec :: codec
  ke_generated :: "string + (string \<times> string)"
  ke_now :: int

definition withScope :: "string \<Rightarrow> handler \<Rightarrow> handler" where
  "withScope og k = (if og = [] then k else withOrg og k)"

definition strAny :: "goany option \<Rightarrow> string" where
  "strAny v = (case v of Some (GStr s) \<Rightarrow> s | _ \<Rightarrow> [])"

definition encodeMap :: "gomap option \<Rightarrow> body" where
  "encodeMap m = (case m of None \<Rightarrow> Doc JNull | Some kvs \<Rightarrow> mustEncode kvs)"

definition defaultKeyName :: string where "defaultKeyName = ''default''"
definition infinity :: string where "infinity = ''infinity''"

section \<open>Validation\<close>

definition actorNameChar :: "char \<Rightarrow> bool" where
  "actorNameChar c = (c = CHR ''.'' \<or> isUppercase c \<or> isLowercase c \<or> isDigit c \<or> c = CHR ''_'' \<or> c = CHR ''-'')"

definition clientNameRE :: "string \<Rightarrow> bool" where
  "clientNameRE s = (s \<noteq> [] \<and> list_all actorNameChar s)"

definition keyNameRE :: "string \<Rightarrow> bool" where
  "keyNameRE s = (s \<noteq> [] \<and> list_all (\<lambda>c. actorNameChar c \<or> c = CHR '':'') s)"

definition keyDateRE :: "string \<Rightarrow> bool" where
  "keyDateRE s = (s = infinity \<or>
     length s = 20 \<and> list_all (\<lambda>i. isDigit (s ! i)) [0, 1, 2, 3, 5, 6, 8, 9, 11, 12, 14, 15, 17, 18] \<and>
     s ! 4 = CHR ''-'' \<and> s ! 7 = CHR ''-'' \<and> s ! 10 = CHR ''T'' \<and> s ! 13 = CHR '':'' \<and> s ! 16 = CHR '':'' \<and> s ! 19 = CHR ''Z'')"

definition invalidPublicKeyMessage :: string where
  "invalidPublicKeyMessage = ''Public Key must be a valid key.''"

definition badExpirationDateMessage :: string where
  "badExpirationDateMessage = ''Field expiration_date is invalid. All dates must be a valid date in ISO8601 form of exactly '' @
     ''YYYY-MM-DDThh:mm:ss, eg 2099-02-28T01:00:00, or the string \"infinity\". All times are assumed UTC, '' @
     ''so do not include a Z on the end of your date.''"

definition validKeyName :: "string \<Rightarrow> bool" where
  "validKeyName s = (keyNameRE s \<and> s \<noteq> ''.'' \<and> s \<noteq> ''..'')"

definition validPublicKey :: "codec \<Rightarrow> string \<Rightarrow> bool" where
  "validPublicKey cd s =
     ((hasPrefix s ''-----BEGIN PUBLIC KEY'' \<or> hasPrefix s ''-----BEGIN RSA PUBLIC KEY'') \<and> ParsePublicKey cd s \<noteq> None)"

definition validExpirationDate :: "string \<Rightarrow> bool" where
  "validExpirationDate s = (keyDateRE s \<and> (s = infinity \<or> parseRFC3339 s \<noteq> None))"

definition given :: "goany option \<Rightarrow> bool" where
  "given v = (v \<noteq> None \<and> v \<noteq> Some GNull \<and> v \<noteq> Some (GStr []))"

definition validateKeyFields :: "codec \<Rightarrow> gomap option \<Rightarrow> string option" where
  "validateKeyFields cd body =
     (if nilGet body ''name'' \<noteq> None \<and> \<not> validKeyName (strAny (nilGet body ''name'')) then Some ''Field 'name' invalid''
      else if given (nilGet body ''public_key'') \<and> \<not> validPublicKey cd (strAny (nilGet body ''public_key'')) then
        Some invalidPublicKeyMessage
      else if given (nilGet body ''expiration_date'') \<and> \<not> validExpirationDate (strAny (nilGet body ''expiration_date'')) then
        Some badExpirationDateMessage
      else None)"

section \<open>The keys that authenticate\<close>

definition keyExpired :: "string \<Rightarrow> int \<Rightarrow> bool" where
  "keyExpired expiration now =
     (if expiration = [] \<or> expiration = infinity then False
      else (case parseRFC3339 expiration of None \<Rightarrow> True | Some at \<Rightarrow> \<not> at > now))"

definition keysColl :: "string \<Rightarrow> string \<Rightarrow> string" where
  "keysColl segment actor = segment @ ''_keys:'' @ actor"

definition decodeKey :: "body \<Rightarrow> (string \<times> string) option" where
  "decodeKey raw = (case structMembers raw of
     None \<Rightarrow> None
   | Some ms \<Rightarrow> (case (typedString ms ''public_key'', typedString ms ''expiration_date'') of
       (Some p, Some e) \<Rightarrow> Some (p, e) | _ \<Rightarrow> None))"

definition signingKeysOf :: "(string \<times> body) list \<Rightarrow> string \<Rightarrow> int \<Rightarrow> string list" where
  "signingKeysOf rows actorPublicKey now =
     concat (map (\<lambda>(_, raw). case decodeKey raw of
         None \<Rightarrow> [] | Some (p, e) \<Rightarrow> if p = [] \<or> keyExpired e now then [] else [p]) rows) @
     (if \<not> list_ex (\<lambda>(n, _). n = defaultKeyName) rows \<and> actorPublicKey \<noteq> [] then [actorPublicKey] else [])"

definition SigningKeys :: "string \<Rightarrow> string \<Rightarrow> string \<Rightarrow> string \<Rightarrow> int \<Rightarrow> (body store, serr, string list) act" where
  "SigningKeys og segment name actorPublicKey now =
     bindE (org_Range og (keysColl segment name)) (\<lambda>rows. ret (signingKeysOf rows actorPublicKey now))"

section \<open>Writes shared with the actor endpoints\<close>

definition setActorPublicKey :: "string \<Rightarrow> string \<Rightarrow> string \<Rightarrow> gomap option \<Rightarrow> string \<Rightarrow> handler \<Rightarrow> handler" where
  "setActorPublicKey og segment name actor pub k =
     (if pub = [] then
        tryE (org_Put og segment name (encodeMap (map_option (AList.delete ''public_key'') actor))) serverError (\<lambda>_. k)
      else (case actor of
          None \<Rightarrow> panic
        | Some m \<Rightarrow> tryE (org_Put og segment name (mustEncode (AList.update ''public_key'' (GStr pub) m))) serverError (\<lambda>_. k)))"

definition setStoredDefaultPublicKey :: "string \<Rightarrow> string \<Rightarrow> string \<Rightarrow> string \<Rightarrow> handler \<Rightarrow> handler" where
  "setStoredDefaultPublicKey og segment name pub k =
     tryE (org_Get og (keysColl segment name) defaultKeyName) serverError (\<lambda>raw.
       case raw of
         None \<Rightarrow> k
       | Some b \<Rightarrow> (case unmarshalAny b of
           None \<Rightarrow> serverError ErrDecode
         | Some None \<Rightarrow> panic
         | Some (Some row) \<Rightarrow>
             tryE (org_Put og (keysColl segment name) defaultKeyName (mustEncode (AList.update ''public_key'' (GStr pub) row)))
               serverError (\<lambda>_. k)))"

definition deleteActorKeys :: "string \<Rightarrow> string \<Rightarrow> string \<Rightarrow> (body store, serr, unit) act" where
  "deleteActorKeys og segment name =
     bindE (org_Keys og (keysColl segment name)) (\<lambda>names.
       forE names (\<lambda>kn. bindE (org_Delete og (keysColl segment name) kn) (\<lambda>_. ret ())))"

section \<open>Reading keys\<close>

definition keysBaseURL :: "request \<Rightarrow> string \<Rightarrow> string \<Rightarrow> string \<Rightarrow> string" where
  "keysBaseURL r og segment actor = objectURL r og segment actor @ ''/keys''"

text \<open>A record that does not decode leaves the response unwritten, which is an empty 200.\<close>

definition loadActor :: "string \<Rightarrow> string \<Rightarrow> string \<Rightarrow> (gomap option \<Rightarrow> handler) \<Rightarrow> handler" where
  "loadActor og segment name k =
     tryE (org_Get og segment name) serverError (\<lambda>raw.
       case raw of
         None \<Rightarrow> writeError 404 [''Cannot find '' @ segment @ '' '' @ name]
       | Some b \<Rightarrow> (case unmarshalAny b of None \<Rightarrow> writeRaw 200 (Bytes []) | Some actor \<Rightarrow> k actor))"

definition keyListItem :: "string \<Rightarrow> string \<Rightarrow> bool \<Rightarrow> json" where
  "keyListItem base name expired =
     JObj [(''expired'', JBool expired), (''name'', JStr name), (''uri'', JStr (base @ ''/'' @ name))]"

text \<open>What an ignored decoding error leaves in a string field.\<close>

definition looseString :: "body \<Rightarrow> string \<Rightarrow> string" where
  "looseString raw name = (case structMembers raw of
     None \<Rightarrow> []
   | Some ms \<Rightarrow> foldl (\<lambda>s v. case v of JStr t \<Rightarrow> t | _ \<Rightarrow> s) [] (membersFold ms name))"

definition listKeys :: "key_env \<Rightarrow> request \<Rightarrow> string \<Rightarrow> string \<Rightarrow> string \<Rightarrow> handler" where
  "listKeys ke r og segment name = withScope og (loadActor og segment name (\<lambda>actor.
     (let coll = keysColl segment name; base = keysBaseURL r og segment name in
      tryE (org_Get og coll defaultKeyName) serverError (\<lambda>storedDefault.
      tryE (org_Keys og coll) serverError (\<lambda>kns.
      tryE (foldE kns (\<lambda>kn out. bindE (org_Get og coll kn) (\<lambda>raw.
          ret (case raw of
              None \<Rightarrow> out
            | Some b \<Rightarrow> out @ [keyListItem base kn (keyExpired (looseString b ''expiration_date'') (ke_now ke))])))
          (if storedDefault = None \<and> strAny (nilGet actor ''public_key'') \<noteq> [] then [keyListItem base defaultKeyName False] else []))
        serverError (\<lambda>out. writeJSON 200 (JArr out)))))))"

definition keyObject :: "string \<Rightarrow> string \<Rightarrow> json" where
  "keyObject name publicKey =
     JObj [(''expiration_date'', JStr ''infinity''), (''expired'', JBool False), (''name'', JStr name), (''public_key'', JStr publicKey)]"

definition getKey :: "string \<Rightarrow> string \<Rightarrow> string \<Rightarrow> string \<Rightarrow> handler" where
  "getKey og segment name keyName = withScope og (loadActor og segment name (\<lambda>actor.
     tryE (org_Get og (keysColl segment name) keyName) serverError (\<lambda>raw.
       case raw of
         Some b \<Rightarrow> writeRaw 200 b
       | None \<Rightarrow>
           if keyName = defaultKeyName \<and> strAny (nilGet actor ''public_key'') \<noteq> [] then
             writeJSON 200 (keyObject defaultKeyName (strAny (nilGet actor ''public_key'')))
           else writeError 404 [''Cannot find key '' @ keyName])))"

section \<open>Writing keys\<close>

definition keyDoc :: "string \<Rightarrow> string \<Rightarrow> string \<Rightarrow> gomap" where
  "keyDoc name pub expiration =
     [(''name'', GStr name), (''public_key'', GStr pub), (''expiration_date'', GStr expiration)]"

definition orInfinity :: "string \<Rightarrow> string" where
  "orInfinity expiration = (if expiration = [] then infinity else expiration)"

definition storeNewKey :: "string \<Rightarrow> string \<Rightarrow> string \<Rightarrow> gomap option \<Rightarrow> string \<Rightarrow> string \<Rightarrow> string \<Rightarrow> gomap \<Rightarrow> handler" where
  "storeNewKey og segment name actor keyName pub expiration resp =
     tryE (org_Create og (keysColl segment name) keyName (mustEncode (keyDoc keyName pub expiration)))
       (\<lambda>e. if e = ErrConflict then writeError 409 [''Key already exists''] else serverError e)
       (\<lambda>_. let done' = writeJSON 201 (toJson (GMap resp)) in
         if keyName = defaultKeyName then setActorPublicKey og segment name actor pub done' else done')"

definition addDecodedKey :: "key_env \<Rightarrow> request \<Rightarrow> string \<Rightarrow> string \<Rightarrow> string \<Rightarrow> gomap option \<Rightarrow> gomap option \<Rightarrow> handler" where
  "addDecodedKey ke r og segment name actor body =
     (let keyName = strAny (nilGet body ''name'') in
      if keyName = [] then writeError 400 [''Field 'name' missing'']
      else (case validateKeyFields (ke_codec ke) body of
          Some msg \<Rightarrow> writeError 400 [msg]
        | None \<Rightarrow>
            if keyName = defaultKeyName \<and> strAny (nilGet actor ''public_key'') \<noteq> [] then writeError 409 [''Key already exists'']
            else (let uri = (''uri'', GStr (keysBaseURL r og segment name @ ''/'' @ keyName));
                      pub = strAny (nilGet body ''public_key'');
                      expiration = orInfinity (strAny (nilGet body ''expiration_date'')) in
              if pub \<noteq> [] then storeNewKey og segment name actor keyName pub expiration [uri]
              else (case ke_generated ke of
                  Inl msg \<Rightarrow> writeError 500 [msg]
                | Inr (pubPEM, priv) \<Rightarrow>
                    storeNewKey og segment name actor keyName pubPEM expiration [uri, (''private_key'', GStr priv)]))))"

definition addKey :: "key_env \<Rightarrow> request \<Rightarrow> string \<Rightarrow> string \<Rightarrow> string \<Rightarrow> handler" where
  "addKey ke r og segment name = withScope og (loadActor og segment name (\<lambda>actor.
     case unmarshalAny (rq_body r) of
       None \<Rightarrow> writeError 400 [''invalid JSON body'']
     | Some body \<Rightarrow> addDecodedKey ke r og segment name actor body))"

text \<open>Answering with a stored key, and with the private half when a pair was made for it.\<close>

definition respondKey :: "nat \<Rightarrow> gomap \<Rightarrow> string \<Rightarrow> handler" where
  "respondKey code key privateKey =
     (if privateKey = [] then writeRaw code (mustEncode key)
      else writeJSON code (toJson (GMap (key @ [(''private_key'', GStr privateKey)]))))"

definition putSyntheticDefault :: "string \<Rightarrow> string \<Rightarrow> string \<Rightarrow> gomap option \<Rightarrow> gomap option \<Rightarrow> string \<Rightarrow> handler" where
  "putSyntheticDefault og segment name actor body privateKey =
     (let current = strAny (nilGet actor ''public_key'') in
      if current = [] then writeError 404 [''Cannot find key '' @ defaultKeyName]
      else (let p = strAny (nilGet body ''public_key''); pub = (if p \<noteq> [] then p else current);
                key = keyDoc defaultKeyName pub (orInfinity (strAny (nilGet body ''expiration_date''))) in
        tryE (org_Put og (keysColl segment name) defaultKeyName (mustEncode key)) serverError (\<lambda>_.
          setActorPublicKey og segment name actor pub (respondKey 200 key privateKey))))"

definition renameKey :: "string \<Rightarrow> string \<Rightarrow> string \<Rightarrow> gomap option \<Rightarrow> string \<Rightarrow> string \<Rightarrow> gomap \<Rightarrow> string \<Rightarrow> handler" where
  "renameKey og segment name actor keyName newName key privateKey =
     (if newName = defaultKeyName \<and> strAny (nilGet actor ''public_key'') \<noteq> [] then writeError 409 [''Key already exists'']
      else tryE (org_Create og (keysColl segment name) newName (mustEncode key))
        (\<lambda>e. if e = ErrConflict then writeError 409 [''Key already exists''] else serverError e)
        (\<lambda>_. tryE (org_Delete og (keysColl segment name) keyName) serverError (\<lambda>_.
          let respond = respondKey 201 key privateKey in
          if keyName = defaultKeyName then setActorPublicKey og segment name actor [] respond
          else if newName = defaultKeyName then setActorPublicKey og segment name actor (strAny (map_of key ''public_key'')) respond
          else respond)))"

definition updateKey :: "string \<Rightarrow> string \<Rightarrow> string \<Rightarrow> gomap option \<Rightarrow> string \<Rightarrow> body \<Rightarrow> gomap option \<Rightarrow> string \<Rightarrow> handler" where
  "updateKey og segment name actor keyName oldRaw body privateKey =
     (case decodeKey oldRaw of
        None \<Rightarrow> serverError ErrDecode
      | Some (oldPub, oldExpiration) \<Rightarrow>
          (let n = strAny (nilGet body ''name''); newName = (if n \<noteq> [] then n else keyName);
               p = strAny (nilGet body ''public_key''); e = strAny (nilGet body ''expiration_date'');
               key = keyDoc newName (if p \<noteq> [] then p else oldPub) (if e \<noteq> [] then e else oldExpiration) in
           if \<not> validKeyName newName then writeError 400 [''Field 'name' invalid'']
           else if newName = keyName then
             tryE (org_Put og (keysColl segment name) keyName (mustEncode key)) serverError (\<lambda>_.
               let respond = respondKey 200 key privateKey in
               if keyName = defaultKeyName then setActorPublicKey og segment name actor (strAny (map_of key ''public_key'')) respond
               else respond)
           else renameKey og segment name actor keyName newName key privateKey))"

definition generateInto :: "key_env \<Rightarrow> bool \<Rightarrow> gomap option \<Rightarrow> (gomap option \<Rightarrow> string \<Rightarrow> handler) \<Rightarrow> handler" where
  "generateInto ke createKey body k =
     (if \<not> createKey then k body []
      else (case ke_generated ke of
          Inl msg \<Rightarrow> writeError 500 [msg]
        | Inr (pub, priv) \<Rightarrow> k (map_option (AList.update ''public_key'' (GStr pub)) body) priv))"

definition putDecodedKey :: "key_env \<Rightarrow> string \<Rightarrow> string \<Rightarrow> string \<Rightarrow> string \<Rightarrow> gomap option \<Rightarrow> gomap option \<Rightarrow> handler" where
  "putDecodedKey ke og segment name keyName actor body0 =
     (let createKey = (nilGet body0 ''create_key'' = Some (GBool True));
          body = map_option (AList.delete ''create_key'') body0 in
      if createKey \<and> strAny (nilGet body ''public_key'') \<noteq> [] then
        writeError 400 [''Since you requested a new key be created, you cannot also specify a public_key.'']
      else (case validateKeyFields (ke_codec ke) body of
          Some msg \<Rightarrow> writeError 400 [msg]
        | None \<Rightarrow>
            tryE (org_Get og (keysColl segment name) keyName) serverError (\<lambda>old.
              if old = None \<and> keyName \<noteq> defaultKeyName then writeError 404 [''Cannot find key '' @ keyName]
              else generateInto ke createKey body (\<lambda>body privateKey.
                case old of
                  None \<Rightarrow> putSyntheticDefault og segment name actor body privateKey
                | Some oldRaw \<Rightarrow> updateKey og segment name actor keyName oldRaw body privateKey))))"

definition putKey :: "key_env \<Rightarrow> request \<Rightarrow> string \<Rightarrow> string \<Rightarrow> string \<Rightarrow> string \<Rightarrow> handler" where
  "putKey ke r og segment name keyName = withScope og (loadActor og segment name (\<lambda>actor.
     case unmarshalAny (rq_body r) of
       None \<Rightarrow> writeError 400 [''invalid JSON body'']
     | Some body0 \<Rightarrow> putDecodedKey ke og segment name keyName actor body0))"

definition deleteKey :: "string \<Rightarrow> string \<Rightarrow> string \<Rightarrow> string \<Rightarrow> handler" where
  "deleteKey og segment name keyName = withScope og (loadActor og segment name (\<lambda>actor.
     tryE (org_Delete og (keysColl segment name) keyName) serverError (\<lambda>raw.
       (let pk = strAny (nilGet actor ''public_key'') in
        case raw of
          Some b \<Rightarrow>
            if keyName = defaultKeyName \<and> pk \<noteq> [] then setActorPublicKey og segment name actor [] (writeRaw 200 b)
            else writeRaw 200 b
        | None \<Rightarrow>
            if keyName = defaultKeyName \<and> pk \<noteq> [] then
              tryE (org_Put og segment name (encodeMap (map_option (AList.delete ''public_key'') actor))) serverError (\<lambda>_.
                writeJSON 200 (keyObject defaultKeyName pk))
            else writeError 404 [''Cannot find key '' @ keyName]))))"

section \<open>The key ring\<close>

text \<open>What the endpoints manage, stated over the content of the store: a map from key names to a public key and an expiration date. The
  default key is its row, or else the key on the actor's record.\<close>

type_synonym key_ring = "string \<Rightarrow> (string \<times> string) option"

definition recordKey :: "body option \<Rightarrow> string" where
  "recordKey raw = (case raw of
     None \<Rightarrow> []
   | Some b \<Rightarrow> (case unmarshalAny b of None \<Rightarrow> [] | Some actor \<Rightarrow> strAny (nilGet actor ''public_key'')))"

definition keyOf :: "string \<Rightarrow> body option \<Rightarrow> body option \<Rightarrow> (string \<times> string) option" where
  "keyOf k row record = (case row of
     Some raw \<Rightarrow> decodeKey raw
   | None \<Rightarrow> if k = defaultKeyName \<and> recordKey record \<noteq> [] then Some (recordKey record, infinity) else None)"

definition keyring :: "body mirror \<Rightarrow> string \<Rightarrow> string \<Rightarrow> string \<Rightarrow> key_ring" where
  "keyring m og segment name k = keyOf k (m og (keysColl segment name) k) (m og segment name)"

lemma keysColl_other [simp]: "keysColl segment name \<noteq> segment" "segment \<noteq> keysColl segment name"
  by (auto simp: keysColl_def)

lemma strAny_reload [simp]: "strAny (map_option reload v) = strAny v"
proof (cases v)
  case (Some x)
  then show ?thesis by (cases x) (simp_all add: strAny_def reload_def)
qed (simp add: strAny_def)

lemma recordKey_encoded:
  assumes "wfAny (GMap m)"
  shows "recordKey (Some (mustEncode m)) = strAny (map_of m ''public_key'')"
proof -
  obtain m' where "unmarshalAny (mustEncode m) = Some (Some m')" "map_of m' = (\<lambda>k. map_option reload (map_of m k))"
    using unmarshal_mustEncode[OF assms] by blast
  then show ?thesis by (simp add: recordKey_def nilGet_def)
qed

lemma wf_without: "wfAny (GMap m) \<Longrightarrow> wfAny (GMap (AList.delete k m))"
  using delete_subset[of k m] by (auto simp: list_all_iff)

lemma wf_with: "wfAny (GMap m) \<Longrightarrow> wfAny v \<Longrightarrow> wfAny (GMap (AList.update k v m))"
  by (auto simp: list_all_iff dest!: update_range)

lemma wf_unmarshal:
  assumes "unmarshalAny b = Some (Some m)"
  shows "wfAny (GMap m)"
proof -
  obtain j where "ofJson (lastMembers j) = GMap m"
    using assms by (auto simp: unmarshalAny_def split: body.splits goany.splits)
  then show ?thesis using wfAny_ofJson[of j] by (simp only:)
qed

lemma membersFold_sorted: "membersFold (sort_key fst ms) name = map snd (sort_key fst (filter (\<lambda>(n, _). toLower n = name) ms))"
  by (simp add: membersFold_def filter_sort)

lemma keyDoc_names:
  "filter (\<lambda>(n, _). toLower n = ''public_key'') (map (\<lambda>(n, v). (n, toJson v)) (keyDoc name pub expiration)) = [(''public_key'', JStr pub)]"
  "filter (\<lambda>(n, _). toLower n = ''expiration_date'') (map (\<lambda>(n, v). (n, toJson v)) (keyDoc name pub expiration)) = [(''expiration_date'', JStr expiration)]"
proof -
  have "toLower ''name'' = ''name''" "toLower ''public_key'' = ''public_key''" "toLower ''expiration_date'' = ''expiration_date''" by code_simp+
  then show "filter (\<lambda>(n, _). toLower n = ''public_key'') (map (\<lambda>(n, v). (n, toJson v)) (keyDoc name pub expiration)) = [(''public_key'', JStr pub)]"
    "filter (\<lambda>(n, _). toLower n = ''expiration_date'') (map (\<lambda>(n, v). (n, toJson v)) (keyDoc name pub expiration)) = [(''expiration_date'', JStr expiration)]"
    by (simp_all add: keyDoc_def)
qed

lemma decodeKey_keyDoc [simp]: "decodeKey (mustEncode (keyDoc name pub expiration)) = Some (pub, expiration)"
  by (simp add: decodeKey_def mustEncode_def structMembers_def typedString_def membersFold_sorted keyDoc_names del: map_map)

lemma keyring_same: "same s s' \<Longrightarrow> keyring (stored s') = keyring (stored s)"
  by (simp add: stored_same)

text \<open>What each write makes of the ring.\<close>

lemma keyring_row:
  "wrote og (keysColl segment name) k (mustEncode (keyDoc n pub expiration)) s s' \<Longrightarrow>
   keyring (stored s') og segment name = (keyring (stored s) og segment name)(k \<mapsto> (pub, expiration))"
  by (rule ext) (simp add: keyring_def stored_wrote keyOf_def)

lemma keyring_erased:
  "erased og (keysColl segment name) k s s' \<Longrightarrow>
   keyring (stored s') og segment name = (keyring (stored s) og segment name)(k := keyOf k None (stored s og segment name))"
  by (rule ext) (simp add: keyring_def stored_erased)

lemma keyring_record:
  assumes "wrote og segment name b s s'"
  shows "keyring (stored s') og segment name = (if stored s og (keysColl segment name) defaultKeyName = None
     then (keyring (stored s) og segment name)(defaultKeyName := keyOf defaultKeyName None (Some b))
     else keyring (stored s) og segment name)"
  by (rule ext) (auto simp: keyring_def stored_wrote[OF assms] keyOf_def split: option.split)

text \<open>The actor's record is there and is an object.\<close>

definition actorDoc :: "body mirror \<Rightarrow> string \<Rightarrow> string \<Rightarrow> string \<Rightarrow> bool" where
  "actorDoc m og segment name = (case m og segment name of
     None \<Rightarrow> True | Some raw \<Rightarrow> (case unmarshalAny raw of Some (Some _) \<Rightarrow> True | _ \<Rightarrow> False))"

section \<open>The endpoints on the ring\<close>

definition bodyString :: "body \<Rightarrow> string \<Rightarrow> string" where
  "bodyString b field = (case unmarshalAny b of None \<Rightarrow> [] | Some body \<Rightarrow> strAny (nilGet body field))"

definition generatedKey :: "key_env \<Rightarrow> string" where
  "generatedKey ke = (case ke_generated ke of Inl _ \<Rightarrow> [] | Inr (pub, _) \<Rightarrow> pub)"

definition asksForKey :: "body \<Rightarrow> bool" where
  "asksForKey b = (case unmarshalAny b of None \<Rightarrow> False | Some body \<Rightarrow> nilGet body ''create_key'' = Some (GBool True))"

definition keyAdded :: "key_env \<Rightarrow> body \<Rightarrow> nat \<Rightarrow> key_ring \<Rightarrow> key_ring \<Rightarrow> bool" where
  "keyAdded ke b code ring ring' =
     (if code = 201 then
        (let n = bodyString b ''name''; p = bodyString b ''public_key'' in
         ring n = None \<and> ring' = ring(n \<mapsto> (if p = [] then generatedKey ke else p, orInfinity (bodyString b ''expiration_date''))))
      else ring' = ring)"

definition keyChanged :: "key_env \<Rightarrow> body \<Rightarrow> string \<Rightarrow> bool \<Rightarrow> nat \<Rightarrow> key_ring \<Rightarrow> key_ring \<Rightarrow> bool" where
  "keyChanged ke b k hasRow code ring ring' =
     (if code = 200 \<or> code = 201 then
        (\<exists>p e. ring k = Some (p, e) \<and>
          (let n = (if hasRow \<and> bodyString b ''name'' \<noteq> [] then bodyString b ''name'' else k);
               given = (if asksForKey b then generatedKey ke else bodyString b ''public_key'');
               p' = (if given \<noteq> [] then given else p);
               e' = (if bodyString b ''expiration_date'' \<noteq> [] then bodyString b ''expiration_date'' else e) in
           (code = 200) = (n = k) \<and> (n = k \<or> ring n = None) \<and> ring' = (ring(k := None))(n \<mapsto> (p', e'))))
      else ring' = ring)"

definition keyRemoved :: "string \<Rightarrow> nat \<Rightarrow> key_ring \<Rightarrow> key_ring \<Rightarrow> bool" where
  "keyRemoved k code ring ring' = (if code = 200 then ring' = ring(k := None) else ring' = ring)"

lemma ring_refused [simp]:
  "code \<noteq> 201 \<Longrightarrow> keyAdded ke b code ring ring' = (ring' = ring)"
  "code \<noteq> 200 \<Longrightarrow> code \<noteq> 201 \<Longrightarrow> keyChanged ke b k hasRow code ring ring' = (ring' = ring)"
  "code \<noteq> 200 \<Longrightarrow> keyRemoved k code ring ring' = (ring' = ring)"
  by (simp_all add: keyAdded_def keyChanged_def keyRemoved_def)

lemma wp_withScope:
  assumes "\<And>s'. same s s' \<Longrightarrow> wpH k R s'" and "\<And>s' m. same s s' \<Longrightarrow> R (Reply 404 m) s'" and "\<And>s'. same s s' \<Longrightarrow> R (Failure ErrBackend) s'"
  shows "wpH (withScope og k) R s"
  unfolding withScope_def by (auto intro!: wp_withOrg assms)

lemma wp_loadActor:
  assumes "actorDoc (stored s) og segment name"
    and "\<And>s' raw actor. same s s' \<Longrightarrow> stored s og segment name = Some raw \<Longrightarrow> unmarshalAny raw = Some (Some actor) \<Longrightarrow> wpH (k (Some actor)) R s'"
    and "\<And>s' m. same s s' \<Longrightarrow> R (Reply 404 m) s'" and "\<And>s'. same s s' \<Longrightarrow> R (Failure ErrBackend) s'"
  shows "wpH (loadActor og segment name k) R s"
  unfolding loadActor_def wpH_tryE
proof (rule wp_Get)
  fix s' assume s': "same s s'"
  show "wpH (case stored s og segment name of None \<Rightarrow> writeError 404 [''Cannot find '' @ segment @ '' '' @ name]
      | Some b \<Rightarrow> (case unmarshalAny b of None \<Rightarrow> writeRaw 200 (Bytes []) | Some actor \<Rightarrow> k actor)) R s'"
  proof (cases "stored s og segment name")
    case None
    then show ?thesis using assms(3)[OF s'] by (simp add: wp)
  next
    case (Some raw)
    then obtain actor where "unmarshalAny raw = Some (Some actor)" using assms(1) by (auto simp: actorDoc_def split: option.splits)
    with Some assms(2)[OF s' Some] show ?thesis by simp
  qed
qed (simp add: wp assms(4))

lemma wp_setActorPublicKey:
  assumes "wfAny (GMap m)"
    and "\<And>s' m'. wrote og segment name (mustEncode m') s s' \<Longrightarrow> recordKey (Some (mustEncode m')) = pub \<Longrightarrow> wpH k R s'"
    and "\<And>s'. same s s' \<Longrightarrow> R (Failure ErrBackend) s'"
  shows "wpH (setActorPublicKey og segment name (Some m) pub k) R s"
proof -
  let ?m = "if pub = [] then AList.delete ''public_key'' m else AList.update ''public_key'' (GStr pub) m"
  have eq: "setActorPublicKey og segment name (Some m) pub k = tryE (org_Put og segment name (mustEncode ?m)) serverError (\<lambda>_. k)"
    by (simp add: setActorPublicKey_def encodeMap_def)
  have wf: "wfAny (GMap ?m)" using assms(1) wf_with wf_without by simp
  have key: "recordKey (Some (mustEncode ?m)) = pub"
    unfolding recordKey_encoded[OF wf] by (simp add: strAny_def gomap)
  show ?thesis
    unfolding eq wpH_tryE using assms(2)[OF _ key] by (intro wp_Put) (simp_all add: wp assms(3))
qed

lemma recordKey_loaded: "unmarshalAny raw = Some (Some m) \<Longrightarrow> recordKey (Some raw) = strAny (map_of m ''public_key'')"
  by (simp add: recordKey_def nilGet_def)

lemma keyring_none: "stored s og (keysColl segment name) k = None \<Longrightarrow> keyring (stored s) og segment name k = keyOf k None (stored s og segment name)"
  by (simp add: keyring_def)

lemma keyOf_record: "k \<noteq> defaultKeyName \<or> recordKey record = [] \<Longrightarrow> keyOf k None record = None"
  by (auto simp: keyOf_def)

text \<open>Rewriting the record behind a stored default key leaves the ring alone.\<close>

lemma keyring_mirror:
  assumes "wrote og (keysColl segment name) defaultKeyName b s s1" and "wrote og segment name b' s1 s2"
  shows "keyring (stored s2) og segment name = keyring (stored s1) og segment name"
  unfolding keyring_record[OF assms(2)] by (simp add: stored_wrote[OF assms(1)])

lemma wp_storeNewKey:
  assumes "wfAny (GMap m)" and "keyName = defaultKeyName \<Longrightarrow> recordKey (stored s og segment name) = []"
    and "\<And>s' j. keyring (stored s) og segment name keyName = None \<Longrightarrow>
      keyring (stored s') og segment name = (keyring (stored s) og segment name)(keyName \<mapsto> (pub, expiration)) \<Longrightarrow> R (Reply 201 j) s'"
    and "\<And>s' m. same s s' \<Longrightarrow> R (Reply 409 m) s'" and "\<And>s' e. R (Failure e) s'"
  shows "wpH (storeNewKey og segment name (Some m) keyName pub expiration resp) R s"
  unfolding storeNewKey_def wpH_tryE
proof (rule wp_Create)
  fix s1 assume new: "stored s og (keysColl segment name) keyName = None"
    and s1: "wrote og (keysColl segment name) keyName (mustEncode (keyDoc keyName pub expiration)) s s1"
  have none: "keyring (stored s) og segment name keyName = None"
    unfolding keyring_none[OF new] using assms(2) by (intro keyOf_record) blast
  note row = keyring_row[OF s1]
  show "wpH (let done' = writeJSON 201 (toJson (GMap resp)) in
      if keyName = defaultKeyName then setActorPublicKey og segment name (Some m) pub done' else done') R s1"
  proof (cases "keyName = defaultKeyName")
    case True
    have "wpH (setActorPublicKey og segment name (Some m) pub (writeJSON 201 (toJson (GMap resp)))) R s1"
    proof (rule wp_setActorPublicKey[OF assms(1)])
      fix s2 m' assume "wrote og segment name (mustEncode m') s1 s2"
      from keyring_mirror[OF s1[unfolded True] this] row assms(3)[OF none]
      show "wpH (writeJSON 201 (toJson (GMap resp))) R s2" by (simp add: wp)
    qed (rule assms(5))
    with True show ?thesis by (simp add: Let_def)
  next
    case False
    with assms(3)[OF none row] show ?thesis by (simp add: Let_def wp)
  qed
qed (use assms(4,5) in \<open>simp_all add: wp\<close>)

text \<open>The answers, seen through the status alone; a backend failure leaves the ring unspecified.\<close>

abbreviation onRing :: "(nat \<Rightarrow> key_ring \<Rightarrow> key_ring \<Rightarrow> bool) \<Rightarrow> string \<Rightarrow> string \<Rightarrow> string \<Rightarrow> body store \<Rightarrow> response \<Rightarrow> body store \<Rightarrow> bool" where
  "onRing P og segment name s resp s' \<equiv>
     status resp = 500 \<or> P (status resp) (keyring (stored s) og segment name) (keyring (stored s') og segment name)"

lemma wpH_cases:
  "(b \<Longrightarrow> wpH h Q s) \<Longrightarrow> (\<not> b \<Longrightarrow> wpH h' Q s) \<Longrightarrow> wpH (if b then h else h') Q s"
  "(opt = None \<Longrightarrow> wpH n Q s) \<Longrightarrow> (\<And>x. opt = Some x \<Longrightarrow> wpH (k x) Q s) \<Longrightarrow> wpH (case opt of None \<Rightarrow> n | Some x \<Rightarrow> k x) Q s"
  "(\<And>e. res = Inl e \<Longrightarrow> wpH (f e) Q s) \<Longrightarrow> (\<And>a. res = Inr a \<Longrightarrow> wpH (g a) Q s) \<Longrightarrow> wpH (case res of Inl e \<Rightarrow> f e | Inr a \<Rightarrow> g a) Q s"
  "(\<And>a b. pair = (a, b) \<Longrightarrow> wpH (c a b) Q s) \<Longrightarrow> wpH (case pair of (a, b) \<Rightarrow> c a b) Q s"
  by (auto split: option.split sum.split prod.split)

lemma wp_scopedActor:
  assumes doc: "actorDoc (stored s) og segment name"
    and found: "\<And>s' m. same s s' \<Longrightarrow> recordKey (stored s og segment name) = strAny (map_of m ''public_key'') \<Longrightarrow> wfAny (GMap m) \<Longrightarrow> wpH (k (Some m)) R s'"
    and "\<And>s' m. same s s' \<Longrightarrow> R (Reply 404 m) s'" and "\<And>s'. same s s' \<Longrightarrow> R (Failure ErrBackend) s'"
  shows "wpH (withScope og (loadActor og segment name k)) R s"
proof (intro wp_withScope wp_loadActor)
  fix s1 assume s1: "same s s1"
  show "actorDoc (stored s1) og segment name" using doc by (simp add: stored_same[OF s1])
  fix s2 raw m assume "same s1 s2" and raw: "stored s1 og segment name = Some raw" and m: "unmarshalAny raw = Some (Some m)"
  then show "wpH (k (Some m)) R s2"
    using recordKey_loaded[OF m] wf_unmarshal[OF m] same_trans[OF s1] by (intro found) (simp_all add: stored_same[OF s1])
qed (use assms(3,4) same_trans in blast)+

lemma wp_addKey:
  assumes "actorDoc (stored s) og segment name"
  shows "wpH (addKey ke r og segment name) (onRing (keyAdded ke (rq_body r)) og segment name s) s"
proof -
  let ?R = "onRing (keyAdded ke (rq_body r)) og segment name s"
  have kept: "?R (Reply code j) t" if "same s t" "code \<noteq> 201" for code j t
    using that by (simp add: keyring_same)
  show ?thesis
    unfolding addKey_def
  proof (rule wp_scopedActor[OF assms])
    fix s2 m assume s2: "same s s2" and rkey: "recordKey (stored s og segment name) = strAny (map_of m ''public_key'')" and wf: "wfAny (GMap m)"
    have store: "wpH (storeNewKey og segment name (Some m) n pub expiration resp) ?R s2"
      if "keyAdded ke (rq_body r) 201 = (\<lambda>ring ring'. ring n = None \<and> ring' = ring(n \<mapsto> (pub, expiration)))"
        and "n = defaultKeyName \<Longrightarrow> strAny (map_of m ''public_key'') = []" for n pub expiration resp
    proof (rule wp_storeNewKey[OF wf])
      show "recordKey (stored s2 og segment name) = []" if "n = defaultKeyName"
        using rkey \<open>n = _ \<Longrightarrow> _\<close> that by (simp add: stored_same[OF s2])
      show "?R (Reply 409 msg) s3" if "same s2 s3" for s3 msg using same_trans[OF s2 that] by (rule kept) simp
    qed (use that(1) in \<open>simp_all add: keyring_same[OF s2]\<close>)
    have err: "wpH (writeError code msgs) ?R s2" if "code \<noteq> 201" for code msgs
      using kept[OF s2 that] by (simp add: wp)
    have "wpH (addDecodedKey ke r og segment name (Some m) body) ?R s2" if body: "unmarshalAny (rq_body r) = Some body" for body
    proof -
      let ?n = "strAny (nilGet body ''name'')" and ?p = "strAny (nilGet body ''public_key'')"
      have added: "keyAdded ke (rq_body r) 201 = (\<lambda>ring ring'. ring ?n = None \<and>
          ring' = ring(?n \<mapsto> (if ?p = [] then generatedKey ke else ?p, orInfinity (strAny (nilGet body ''expiration_date'')))))"
        by (simp add: keyAdded_def[abs_def] bodyString_def body Let_def)
      have here: "nilGet (Some m) ''public_key'' = map_of m ''public_key''" by (simp add: nilGet_def)
      show ?thesis
        unfolding addDecodedKey_def here Let_def by (intro wpH_cases err store) (auto simp: added generatedKey_def)
    qed
    then show "wpH (case unmarshalAny (rq_body r) of None \<Rightarrow> writeError 400 [''invalid JSON body'']
        | Some body \<Rightarrow> addDecodedKey ke r og segment name (Some m) body) ?R s2"
      by (intro wpH_cases err) simp_all
  qed (simp_all add: keyring_same)
qed

text \<open>Updating a key: the outcome every branch below reaches, and what the branches rely on.\<close>

definition replaced :: "key_ring \<Rightarrow> string \<Rightarrow> string \<Rightarrow> string \<times> string \<Rightarrow> response \<Rightarrow> key_ring \<Rightarrow> bool" where
  "replaced ring k n v resp ring' =
     (status resp = (if n = k then 200 else 201) \<and> (n = k \<or> ring n = None) \<and> ring' = (ring(k := None))(n \<mapsto> v))"

lemma wp_respondKey: "(\<And>resp. status resp = code \<Longrightarrow> R resp s) \<Longrightarrow> wpH (respondKey code key privateKey) R s"
  by (simp add: respondKey_def wp)

lemma wp_putSyntheticDefault:
  assumes wf: "wfAny (GMap m)" and rkey: "recordKey (stored s og segment name) = strAny (map_of m ''public_key'')"
    and row: "stored s og (keysColl segment name) defaultKeyName = None"
    and changed: "\<And>s' resp cur. keyring (stored s) og segment name defaultKeyName = Some (cur, infinity) \<Longrightarrow>
      replaced (keyring (stored s) og segment name) defaultKeyName defaultKeyName
        (if strAny (nilGet body ''public_key'') \<noteq> [] then strAny (nilGet body ''public_key'') else cur, orInfinity (strAny (nilGet body ''expiration_date'')))
        resp (keyring (stored s') og segment name) \<Longrightarrow> R resp s'"
    and missing: "\<And>m. R (Reply 404 m) s" and failed: "\<And>s' e. R (Failure e) s'"
  shows "wpH (putSyntheticDefault og segment name (Some m) body privateKey) R s"
proof -
  have here: "nilGet (Some m) ''public_key'' = map_of m ''public_key''" by (simp add: nilGet_def)
  show ?thesis
    unfolding putSyntheticDefault_def Let_def here
  proof (intro wpH_cases wpH_tryE[THEN iffD2] wp_Put)
    assume some: "strAny (map_of m ''public_key'') \<noteq> []"
    then have ring: "keyring (stored s) og segment name defaultKeyName = Some (strAny (map_of m ''public_key''), infinity)"
      unfolding keyring_none[OF row] by (simp add: keyOf_def rkey)
    fix s1 assume s1: "wrote og (keysColl segment name) defaultKeyName (mustEncode (keyDoc defaultKeyName
       (if strAny (nilGet body ''public_key'') \<noteq> [] then strAny (nilGet body ''public_key'') else strAny (map_of m ''public_key''))
       (orInfinity (strAny (nilGet body ''expiration_date''))))) s s1"
    show "wpH (setActorPublicKey og segment name (Some m)
        (if strAny (nilGet body ''public_key'') \<noteq> [] then strAny (nilGet body ''public_key'') else strAny (map_of m ''public_key''))
        (respondKey 200 (keyDoc defaultKeyName
          (if strAny (nilGet body ''public_key'') \<noteq> [] then strAny (nilGet body ''public_key'') else strAny (map_of m ''public_key''))
          (orInfinity (strAny (nilGet body ''expiration_date'')))) privateKey)) R s1"
      by (intro wp_setActorPublicKey[OF wf] wp_respondKey changed[OF ring] failed)
        (simp add: replaced_def keyring_mirror[OF s1] keyring_row[OF s1])
  qed (use missing failed in \<open>simp_all add: wp\<close>)
qed

lemma wp_renameKey:
  assumes wf: "wfAny (GMap m)" and rkey: "recordKey (stored s og segment name) = strAny (map_of m ''public_key'')"
    and new: "newName \<noteq> keyName" and row: "stored s og (keysColl segment name) keyName \<noteq> None"
    and changed: "\<And>s' resp. replaced (keyring (stored s) og segment name) keyName newName (pub, expiration) resp (keyring (stored s') og segment name) \<Longrightarrow> R resp s'"
    and conflict: "\<And>s' m. same s s' \<Longrightarrow> R (Reply 409 m) s'" and failed: "\<And>s' e. R (Failure e) s'"
  shows "wpH (renameKey og segment name (Some m) keyName newName (keyDoc newName pub expiration) privateKey) R s"
proof -
  let ?ring = "keyring (stored s) og segment name"
  have here: "nilGet (Some m) ''public_key'' = map_of m ''public_key''" by (simp add: nilGet_def)
  have renamed: "wpH (let respond = respondKey 201 (keyDoc newName pub expiration) privateKey in
          if keyName = defaultKeyName then setActorPublicKey og segment name (Some m) [] respond
          else if newName = defaultKeyName then setActorPublicKey og segment name (Some m) p respond
          else respond) R s2"
    if none: "?ring newName = None" and s1: "wrote og (keysColl segment name) newName (mustEncode (keyDoc newName pub expiration)) s s1"
      and s2: "erased og (keysColl segment name) keyName s1 s2" for s1 s2 p
  proof -
    have done': "wpH (respondKey 201 (keyDoc newName pub expiration) privateKey) R t"
      if "keyring (stored t) og segment name = (?ring(keyName := None))(newName \<mapsto> (pub, expiration))" for t
      using that none new by (intro wp_respondKey changed) (simp add: replaced_def)
    have ring: "keyring (stored s2) og segment name = (?ring(newName \<mapsto> (pub, expiration)))(keyName := keyOf keyName None (stored s1 og segment name))"
      unfolding keyring_erased[OF s2] keyring_row[OF s1] ..
    have gone: "stored s2 og (keysColl segment name) keyName = None" by (simp add: stored_erased[OF s2])
    have kept: "stored s2 og (keysColl segment name) newName \<noteq> None" using new by (simp add: stored_erased[OF s2] stored_wrote[OF s1])
    show ?thesis
      unfolding Let_def
    proof (intro wpH_cases)
      assume default: "keyName = defaultKeyName"
      show "wpH (setActorPublicKey og segment name (Some m) [] (respondKey 201 (keyDoc newName pub expiration) privateKey)) R s2"
      proof (intro wp_setActorPublicKey[OF wf] done' failed)
        fix s3 m' assume s3: "wrote og segment name (mustEncode m') s2 s3" and "recordKey (Some (mustEncode m')) = []"
        then show "keyring (stored s3) og segment name = (?ring(keyName := None))(newName \<mapsto> (pub, expiration))"
          using gone default new unfolding keyring_record[OF s3] ring by (auto simp: keyOf_record)
      qed
    next
      assume "keyName \<noteq> defaultKeyName" "newName = defaultKeyName"
      then show "wpH (setActorPublicKey og segment name (Some m) p (respondKey 201 (keyDoc newName pub expiration) privateKey)) R s2"
        using kept new by (intro wp_setActorPublicKey[OF wf] done' failed) (auto simp: keyring_record ring keyOf_record)
    next
      assume "keyName \<noteq> defaultKeyName"
      then show "wpH (respondKey 201 (keyDoc newName pub expiration) privateKey) R s2"
        using new by (intro done') (auto simp: ring keyOf_record)
    qed
  qed
  show ?thesis
    unfolding renameKey_def here
  proof (intro wpH_cases wpH_tryE[THEN iffD2] wp_Create wp_Delete)
    show "wpH (writeError 409 [''Key already exists'']) R s" using conflict[of s] by (simp add: wp)
  next
    fix s1 s2
    assume c: "\<not> (newName = defaultKeyName \<and> strAny (map_of m ''public_key'') \<noteq> [])"
      and n: "stored s og (keysColl segment name) newName = None"
      and w: "wrote og (keysColl segment name) newName (mustEncode (keyDoc newName pub expiration)) s s1"
      and e: "erased og (keysColl segment name) keyName s1 s2"
    have "?ring newName = None" using c unfolding keyring_none[OF n] by (intro keyOf_record) (auto simp: rkey)
    from renamed[OF this w e] show "wpH (let respond = respondKey 201 (keyDoc newName pub expiration) privateKey in
          if keyName = defaultKeyName then setActorPublicKey og segment name (Some m) [] respond
          else if newName = defaultKeyName then setActorPublicKey og segment name (Some m) (strAny (map_of (keyDoc newName pub expiration) ''public_key'')) respond
          else respond) R s2" .
  qed (use conflict failed row new in \<open>auto simp: wp stored_wrote\<close>)
qed

lemma keyDoc_key: "strAny (map_of (keyDoc n p e) ''public_key'') = p"
  by (simp add: keyDoc_def strAny_def)

lemma wp_updateKey:
  fixes body :: "gomap option" and keyName :: string
  defines "n \<equiv> (if strAny (nilGet body ''name'') \<noteq> [] then strAny (nilGet body ''name'') else keyName)"
  assumes wf: "wfAny (GMap m)" and rkey: "recordKey (stored s og segment name) = strAny (map_of m ''public_key'')"
    and row: "stored s og (keysColl segment name) keyName = Some raw"
    and changed: "\<And>s' resp p e. keyring (stored s) og segment name keyName = Some (p, e) \<Longrightarrow>
      replaced (keyring (stored s) og segment name) keyName n
        (if strAny (nilGet body ''public_key'') \<noteq> [] then strAny (nilGet body ''public_key'') else p,
         if strAny (nilGet body ''expiration_date'') \<noteq> [] then strAny (nilGet body ''expiration_date'') else e)
        resp (keyring (stored s') og segment name) \<Longrightarrow> R resp s'"
    and refused: "\<And>s' code m. same s s' \<Longrightarrow> code \<in> {400, 409} \<Longrightarrow> R (Reply code m) s'" and failed: "\<And>s' e. R (Failure e) s'"
  shows "wpH (updateKey og segment name (Some m) keyName raw body privateKey) R s"
proof (cases "decodeKey raw")
  case None
  then show ?thesis by (simp add: updateKey_def wp failed)
next
  case (Some old)
  obtain p e where old: "old = (p, e)" by fastforce
  let ?p = "if strAny (nilGet body ''public_key'') \<noteq> [] then strAny (nilGet body ''public_key'') else p"
  let ?e = "if strAny (nilGet body ''expiration_date'') \<noteq> [] then strAny (nilGet body ''expiration_date'') else e"
  have ring: "keyring (stored s) og segment name keyName = Some (p, e)"
    using Some old by (simp add: keyring_def keyOf_def row)
  have eq: "updateKey og segment name (Some m) keyName raw body privateKey =
     (if \<not> validKeyName n then writeError 400 [''Field 'name' invalid'']
      else if n = keyName then
        tryE (org_Put og (keysColl segment name) keyName (mustEncode (keyDoc n ?p ?e))) serverError (\<lambda>_.
          if keyName = defaultKeyName then setActorPublicKey og segment name (Some m) ?p (respondKey 200 (keyDoc n ?p ?e) privateKey)
          else respondKey 200 (keyDoc n ?p ?e) privateKey)
      else renameKey og segment name (Some m) keyName n (keyDoc n ?p ?e) privateKey)"
    by (simp only: updateKey_def Some old n_def Let_def option.case prod.case keyDoc_key)
  show ?thesis
    unfolding eq
  proof (intro wpH_cases)
    assume "n = keyName"
    then have "replaced (keyring (stored s) og segment name) keyName n (?p, ?e) resp (keyring (stored s') og segment name)"
      if "wrote og (keysColl segment name) keyName (mustEncode (keyDoc n ?p ?e)) s s'" "status resp = 200" for s' resp
      using that by (simp only: replaced_def keyring_row[OF that(1)]) simp
    note kept = changed[OF ring this]
    show "wpH (tryE (org_Put og (keysColl segment name) keyName (mustEncode (keyDoc n ?p ?e))) serverError (\<lambda>_.
          if keyName = defaultKeyName then setActorPublicKey og segment name (Some m) ?p (respondKey 200 (keyDoc n ?p ?e) privateKey)
          else respondKey 200 (keyDoc n ?p ?e) privateKey)) R s"
    proof (intro wpH_cases wpH_tryE[THEN iffD2] wp_Put)
      fix s1 assume s1: "wrote og (keysColl segment name) keyName (mustEncode (keyDoc n ?p ?e)) s s1"
      show "wpH (respondKey 200 (keyDoc n ?p ?e) privateKey) R s1" by (intro wp_respondKey kept[OF s1])
      assume default: "keyName = defaultKeyName"
      show "wpH (setActorPublicKey og segment name (Some m) ?p (respondKey 200 (keyDoc n ?p ?e) privateKey)) R s1"
        using \<open>n = keyName\<close>
        by (intro wp_setActorPublicKey[OF wf] wp_respondKey failed changed[OF ring])
          (simp add: replaced_def keyring_mirror[OF s1[unfolded default]] keyring_row[OF s1] default)
    qed (simp add: wp failed)
  next
    assume "n \<noteq> keyName"
    then show "wpH (renameKey og segment name (Some m) keyName n (keyDoc n ?p ?e) privateKey) R s"
      by (rule wp_renameKey[OF wf rkey]) (use row changed[OF ring] refused[of _ 409] failed in simp_all)
  qed (use refused[of s 400] in \<open>simp add: wp\<close>)
qed

lemma wp_generateInto:
  assumes b: "unmarshalAny b = Some body0"
    and "\<And>body privateKey. strAny (nilGet body ''name'') = bodyString b ''name'' \<Longrightarrow> strAny (nilGet body ''expiration_date'') = bodyString b ''expiration_date'' \<Longrightarrow>
      strAny (nilGet body ''public_key'') = (if asksForKey b then generatedKey ke else bodyString b ''public_key'') \<Longrightarrow> wpH (k body privateKey) R s"
    and "\<And>m. R (Reply 500 m) s"
  shows "wpH (generateInto ke (asksForKey b) (map_option (AList.delete ''create_key'') body0) k) R s"
proof (cases "asksForKey b")
  case True
  then obtain m where m: "body0 = Some m" by (auto simp: asksForKey_def b nilGet_def split: option.splits)
  show ?thesis
  proof (cases "ke_generated ke")
    case (Inr pair)
    then show ?thesis
      using True b m by (cases pair) (auto simp: generateInto_def generatedKey_def bodyString_def nilGet_def gomap strAny_def intro!: assms(2))
  qed (use True assms(3) in \<open>simp add: generateInto_def wp\<close>)
next
  case False
  then show ?thesis
    using b by (cases body0) (auto simp: generateInto_def bodyString_def nilGet_def gomap intro!: assms(2))
qed

lemma replaced_changed:
  assumes "ring k = Some (p, e)" and "replaced ring k n (p', e') resp ring'"
    and "n = (if hasRow \<and> bodyString b ''name'' \<noteq> [] then bodyString b ''name'' else k)"
    and "p' = (if pk \<noteq> [] then pk else p)" and "pk = (if asksForKey b then generatedKey ke else bodyString b ''public_key'')"
    and "e' = (if bodyString b ''expiration_date'' \<noteq> [] then bodyString b ''expiration_date'' else e)"
  shows "keyChanged ke b k hasRow (status resp) ring ring'"
  using assms by (simp add: keyChanged_def replaced_def)

lemma wp_putKey:
  assumes "actorDoc (stored s) og segment name"
  shows "wpH (putKey ke r og segment name k)
    (onRing (keyChanged ke (rq_body r) k (stored s og (keysColl segment name) k \<noteq> None)) og segment name s) s"
proof -
  let ?P = "keyChanged ke (rq_body r) k (stored s og (keysColl segment name) k \<noteq> None)" let ?R = "onRing ?P og segment name s"
  have kept: "?R (Reply code j) t" if "same s t" "code \<noteq> 200" "code \<noteq> 201" for code j t
    using that by (simp add: keyring_same)
  have err: "wpH (writeError code msgs) ?R t" if "same s t" "code \<noteq> 200" "code \<noteq> 201" for code msgs t
    using kept[OF that] by (simp add: wp)
  show ?thesis
    unfolding putKey_def
  proof (rule wp_scopedActor[OF assms])
    fix s2 m assume s2: "same s s2" and rkey: "recordKey (stored s og segment name) = strAny (map_of m ''public_key'')" and wf: "wfAny (GMap m)"
    have "wpH (putDecodedKey ke og segment name k (Some m) body0) ?R s2" if body: "unmarshalAny (rq_body r) = Some body0" for body0
    proof -
      have asks: "(nilGet body0 ''create_key'' = Some (GBool True)) = asksForKey (rq_body r)" by (simp add: asksForKey_def body)
      show ?thesis
        unfolding putDecodedKey_def Let_def asks
      proof (intro wpH_cases err s2 wpH_tryE[THEN iffD2] wp_Get wp_generateInto[OF body])
        fix s3 body pk assume "same s2 s3"
        then have s3: "same s s3" using s2 same_trans by blast
        assume given: "strAny (nilGet body ''name'') = bodyString (rq_body r) ''name''" "strAny (nilGet body ''expiration_date'') = bodyString (rq_body r) ''expiration_date''"
          "strAny (nilGet body ''public_key'') = (if asksForKey (rq_body r) then generatedKey ke else bodyString (rq_body r) ''public_key'')"
        have rk: "recordKey (stored s3 og segment name) = strAny (map_of m ''public_key'')" using rkey by (simp add: stored_same[OF s3])
        show "wpH (putSyntheticDefault og segment name (Some m) body pk) ?R s3"
          if "stored s2 og (keysColl segment name) k = None" "\<not> (stored s2 og (keysColl segment name) k = None \<and> k \<noteq> defaultKeyName)"
          using that by (intro wp_putSyntheticDefault[OF wf rk])
            (auto simp: stored_same[OF s2] stored_same[OF s3] keyring_same[OF s3] given orInfinity_def intro!: replaced_changed)
        show "wpH (updateKey og segment name (Some m) k raw body pk) ?R s3" if "stored s2 og (keysColl segment name) k = Some raw" for raw
          using that by (intro wp_updateKey[OF wf rk])
            (auto simp: stored_same[OF s2] stored_same[OF s3] keyring_same[OF s3] keyring_same given intro!: replaced_changed)
      qed (use same_trans[OF s2] in \<open>simp_all add: wp\<close>)
    qed
    then show "wpH (case unmarshalAny (rq_body r) of None \<Rightarrow> writeError 400 [''invalid JSON body'']
        | Some body0 \<Rightarrow> putDecodedKey ke og segment name k (Some m) body0) ?R s2"
      by (intro wpH_cases err s2) simp_all
  qed (simp_all add: keyring_same)
qed

lemma wp_deleteKey:
  assumes "actorDoc (stored s) og segment name"
  shows "wpH (deleteKey og segment name k) (onRing (keyRemoved k) og segment name s) s"
proof -
  let ?R = "onRing (keyRemoved k) og segment name s" and ?ring = "keyring (stored s) og segment name"
  have removed: "?R resp t" if "status resp = 200" "keyring (stored t) og segment name = ?ring(k := None)" for resp t
    using that by (simp add: keyRemoved_def)
  show ?thesis
    unfolding deleteKey_def
  proof (rule wp_scopedActor[OF assms])
    fix s2 m assume s2: "same s s2" and rkey: "recordKey (stored s og segment name) = strAny (map_of m ''public_key'')" and wf: "wfAny (GMap m)"
    have here: "nilGet (Some m) ''public_key'' = map_of m ''public_key''" by (simp add: nilGet_def)
    have cleared: "recordKey (Some (mustEncode (AList.delete ''public_key'' m))) = []"
      unfolding recordKey_encoded[OF wf_without[OF wf]] by (simp add: strAny_def gomap)
    show "wpH (tryE (org_Delete og (keysColl segment name) k) serverError (\<lambda>raw.
       (let pk = strAny (nilGet (Some m) ''public_key'') in
        case raw of
          Some b \<Rightarrow>
            if k = defaultKeyName \<and> pk \<noteq> [] then setActorPublicKey og segment name (Some m) [] (writeRaw 200 b)
            else writeRaw 200 b
        | None \<Rightarrow>
            if k = defaultKeyName \<and> pk \<noteq> [] then
              tryE (org_Put og segment name (encodeMap (map_option (AList.delete ''public_key'') (Some m)))) serverError (\<lambda>_.
                writeJSON 200 (keyObject defaultKeyName pk))
            else writeError 404 [''Cannot find key '' @ k]))) ?R s2"
      unfolding Let_def here
    proof (intro wpH_tryE[THEN iffD2] wp_Delete, simp_all only: option.case)
      fix s3 old assume s3: "erased og (keysColl segment name) k s2 s3"
      have gone: "stored s3 og (keysColl segment name) k = None" by (simp add: stored_erased[OF s3])
      have ring: "keyring (stored s3) og segment name = ?ring(k := keyOf k None (stored s og segment name))"
        unfolding keyring_erased[OF s3] keyring_same[OF s2] stored_same[OF s2] ..
      show "wpH (if k = defaultKeyName \<and> strAny (map_of m ''public_key'') \<noteq> [] then setActorPublicKey og segment name (Some m) [] (writeRaw 200 old)
          else writeRaw 200 old) ?R s3"
        using gone by (intro wpH_cases wp_setActorPublicKey[OF wf])
          (auto simp: wp ring keyring_record keyOf_record rkey keyRemoved_def)
    next
      fix s3 assume "stored s2 og (keysColl segment name) k = None" and "same s2 s3"
      then have s3: "same s s3" and none: "stored s3 og (keysColl segment name) k = None"
        using s2 same_trans by (blast, simp add: stored_same)
      show "wpH (if k = defaultKeyName \<and> strAny (map_of m ''public_key'') \<noteq> [] then
              tryE (org_Put og segment name (encodeMap (map_option (AList.delete ''public_key'') (Some m)))) serverError (\<lambda>_.
                writeJSON 200 (keyObject defaultKeyName (strAny (map_of m ''public_key''))))
            else writeError 404 [''Cannot find key '' @ k]) ?R s3"
        using none cleared by (intro wpH_cases wpH_tryE[THEN iffD2] wp_Put)
          (auto simp: wp encodeMap_def keyring_same[OF s3] keyring_record keyOf_record keyRemoved_def)
    qed (simp add: wp)
  qed (simp_all add: keyring_same)
qed

definition rowKey :: "int \<Rightarrow> string \<times> body \<Rightarrow> string list" where
  "rowKey now row = (case decodeKey (snd row) of None \<Rightarrow> [] | Some (p, e) \<Rightarrow> if p = [] \<or> keyExpired e now then [] else [p])"

lemma in_rowKey: "p \<in> set (rowKey now row) \<longleftrightarrow> (\<exists>e. decodeKey (snd row) = Some (p, e) \<and> p \<noteq> [] \<and> \<not> keyExpired e now)"
  by (cases "decodeKey (snd row)") (auto simp: rowKey_def)

lemma signingKeysOf_ring:
  assumes "distinct (map fst rows)"
  shows "set (signingKeysOf rows (recordKey r) now) = {p. \<exists>k e. keyOf k (map_of rows k) r = Some (p, e) \<and> p \<noteq> [] \<and> \<not> keyExpired e now}"
proof (rule set_eqI)
  fix p
  have ex: "list_ex (\<lambda>(n, _). n = defaultKeyName) rows = (map_of rows defaultKeyName \<noteq> None)"
    by (force simp: list_ex_iff map_of_eq_None_iff image_iff)
  have rows: "signingKeysOf rows (recordKey r) now = concat (map (rowKey now) rows) @
      (if map_of rows defaultKeyName = None \<and> recordKey r \<noteq> [] then [recordKey r] else [])"
    unfolding signingKeysOf_def ex by (simp add: rowKey_def[abs_def] case_prod_unfold)
  have live: "\<not> keyExpired infinity now" by (simp add: keyExpired_def)
  have stored_row: "row \<in> set rows \<longleftrightarrow> map_of rows (fst row) = Some (snd row)" for row
    using map_of_eq_Some_iff[OF assms, of "fst row" "snd row"] by simp
  have one: "(\<exists>e. keyOf k (map_of rows k) r = Some (p, e) \<and> p \<noteq> [] \<and> \<not> keyExpired e now) \<longleftrightarrow>
      (\<exists>raw. map_of rows k = Some raw \<and> p \<in> set (rowKey now (k, raw))) \<or>
      k = defaultKeyName \<and> map_of rows k = None \<and> recordKey r \<noteq> [] \<and> p = recordKey r" for k
    using live by (cases "map_of rows k") (auto simp: keyOf_def in_rowKey)
  show "p \<in> set (signingKeysOf rows (recordKey r) now) \<longleftrightarrow>
      p \<in> {p. \<exists>k e. keyOf k (map_of rows k) r = Some (p, e) \<and> p \<noteq> [] \<and> \<not> keyExpired e now}"
    unfolding rows mem_Collect_eq one using stored_row by (auto simp: Bex_def)
qed

lemma wp_SigningKeys:
  assumes "wf_backend (backend s)"
  shows "wpE (SigningKeys og segment name (recordKey (stored s og segment name)) now)
    (\<lambda>ks _. set ks = {p. \<exists>k e. keyring (stored s) og segment name k = Some (p, e) \<and> p \<noteq> [] \<and> \<not> keyExpired e now}) (\<lambda>_ _. True) s"
  unfolding SigningKeys_def
  by (simp add: wp keyring_def kv_def wp_Range signingKeysOf_ring[OF distinct_coll_of[OF assms]])

text \<open>C8. An actor's keys behave as one map from key names to a public key and its expiration date, the default key being its row or
  else the key on the actor's record. Adding a key inserts it under a new name, with the generated key when none was given; updating
  a key keeps what the request leaves out, and moves it when it is renamed, never onto another key; deleting a key removes it, also
  the default one; every refused request leaves all keys as they were. The keys a request may be signed with are those of the map
  that have not expired. A failing backend is the only exception.\<close>

theorem keys_refine_ring:
  assumes "wf_backend (backend s)" and "actorDoc (stored s) og segment name"
  shows "wpH (addKey ke r og segment name) (onRing (keyAdded ke (rq_body r)) og segment name s) s \<and>
    wpH (putKey ke r og segment name k)
      (onRing (keyChanged ke (rq_body r) k (stored s og (keysColl segment name) k \<noteq> None)) og segment name s) s \<and>
    wpH (deleteKey og segment name k) (onRing (keyRemoved k) og segment name s) s \<and>
    wpE (SigningKeys og segment name (recordKey (stored s og segment name)) now)
      (\<lambda>ks _. set ks = {p. \<exists>k e. keyring (stored s) og segment name k = Some (p, e) \<and> p \<noteq> [] \<and> \<not> keyExpired e now}) (\<lambda>_ _. True) s"
  using wp_addKey[OF assms(2)] wp_putKey[OF assms(2)] wp_deleteKey[OF assms(2)] wp_SigningKeys[OF assms(1)] by (intro conjI)

definition exampleClient :: "body store" where
  "exampleClient = NewWithBackend (NewMemoryBackend\<lparr>orgs := [''o''],
     data := [(''o'', [(''clients'', [(''web'', Doc (JObj [(''public_key'', JStr ''pem'')]))])])]\<rparr>)"

theorem keys_refine_ring_witness:
  "status (fst (deleteKey ''o'' ''clients'' ''web'' defaultKeyName exampleClient)) = 200 \<and>
   keyring (stored exampleClient) ''o'' ''clients'' ''web'' defaultKeyName = Some (''pem'', infinity) \<and>
   keyring (stored (snd (deleteKey ''o'' ''clients'' ''web'' defaultKeyName exampleClient))) ''o'' ''clients'' ''web'' defaultKeyName = None"
proof -
  have "wf_backend (backend exampleClient)" by code_simp
  moreover have "actorDoc (stored exampleClient) ''o'' ''clients'' ''web''" by code_simp
  ultimately have "wpH (deleteKey ''o'' ''clients'' ''web'' defaultKeyName) (onRing (keyRemoved defaultKeyName) ''o'' ''clients'' ''web'' exampleClient) exampleClient"
    using keys_refine_ring[of exampleClient "''o''" "''clients''" "''web''"] by blast
  moreover have "status (fst (deleteKey ''o'' ''clients'' ''web'' defaultKeyName exampleClient)) = 200" by code_simp
  moreover have "keyring (stored exampleClient) ''o'' ''clients'' ''web'' defaultKeyName = Some (''pem'', infinity)" by code_simp
  ultimately show ?thesis by (simp add: wpH_def keyRemoved_def case_prod_unfold)
qed

end
