(* ===== verification/Spec2Isabelle.thy ===== *)
theory Spec2Isabelle
  imports Store_Facade Chef_Json Run_List Search_Index Group_Membership Http_Reply Acl Request_Authz Route_Governance Acl_References Group_Api
    Environment_Api Actor_Keys
begin

text \<open>A verification of the Chef Infra Server clone under \<^verbatim>\<open>src/\<close>.\<close>

end
